(* ===== verification/Prelude.thy ===== *)
theory Prelude
  imports Complex_Main "HOL-Library.Word" "HOL-Library.AList"
begin

text \<open>
  Shared vocabulary of the WayRay development: the machine integers of the Rust sources, the
  association-list reading of \<open>std::collections::HashMap\<close>, checked slices, and the theorem
  collections the component theories extend.

  \<^item> \<open>u8\<close>, \<open>u32\<close>, \<open>u64\<close> are machine words; \<open>+\<close> on them wraps, as Rust's release profile does.
  \<^item> Signed 32-bit geometry is \<open>int\<close> with \<open>wrap32\<close> written around every arithmetic operation.
  \<^item> A \<open>HashMap\<close> is an association list with distinct keys.  The order of the list stands for the
    unspecified iteration order of the hash map: statements quantify over all such lists, so they
    hold for every iteration order.
  \<^item> A Rust \<open>String\<close> is the list of its UTF-8 bytes (\<open>string\<close>); a \<open>Vec<u8>\<close> is a list of \<open>u8\<close>.
  \<^item> \<open>Instant\<close> and \<open>Duration\<close> are natural numbers of nanoseconds; the current time is an argument.
    \<open>Instant::elapsed\<close> saturates at zero, as subtraction on \<open>nat\<close> does.
\<close>

named_theorems hm_simps \<open>characterisation of the hash-map operations\<close>
named_theorems wr_invs \<open>preservation of component invariants\<close>

type_synonym u8 = "8 word"
type_synonym u32 = "32 word"
type_synonym u64 = "64 word"
type_synonym bytes = "u8 list"
type_synonym instant = nat
type_synonym duration = nat
type_synonym ('k, 'v) hashmap = "('k \<times> 'v) list"

subsection \<open>Hash maps\<close>

abbreviation hm_get :: "('k, 'v) hashmap \<Rightarrow> 'k \<Rightarrow> 'v option" where
  "hm_get m k \<equiv> map_of m k"

abbreviation hm_insert :: "'k \<Rightarrow> 'v \<Rightarrow> ('k, 'v) hashmap \<Rightarrow> ('k, 'v) hashmap" where
  "hm_insert k v m \<equiv> AList.update k v m"

abbreviation hm_remove :: "'k \<Rightarrow> ('k, 'v) hashmap \<Rightarrow> ('k, 'v) hashmap" where
  "hm_remove k m \<equiv> AList.delete k m"

abbreviation hm_values :: "('k, 'v) hashmap \<Rightarrow> 'v list" where
  "hm_values m \<equiv> map snd m"

abbreviation hm_keys :: "('k, 'v) hashmap \<Rightarrow> 'k list" where
  "hm_keys m \<equiv> map fst m"

definition hm_contains :: "('k, 'v) hashmap \<Rightarrow> 'k \<Rightarrow> bool" where
  "hm_contains m k = (hm_get m k \<noteq> None)"

text \<open>\<open>HashMap::retain\<close>, with the predicate on keys and values.\<close>

definition hm_retain :: "('k \<Rightarrow> 'v \<Rightarrow> bool) \<Rightarrow> ('k, 'v) hashmap \<Rightarrow> ('k, 'v) hashmap" where
  "hm_retain P m = filter (\<lambda>(k, v). P k v) m"

abbreviation hm_wf :: "('k, 'v) hashmap \<Rightarrow> bool" where
  "hm_wf m \<equiv> distinct (map fst m)"

declare map_of_eq_Some_iff [simp del]

lemma hm_get_insert [hm_simps, simp]:
  "hm_get (hm_insert k v m) j = (if j = k then Some v else hm_get m j)"
  by (simp add: AList.update_conv')

lemma hm_get_remove [hm_simps, simp]:
  "hm_get (hm_remove k m) j = (if j = k then None else hm_get m j)"
  by (simp add: AList.delete_conv')

lemma hm_wf_insert [simp, wr_invs]: "hm_wf m \<Longrightarrow> hm_wf (hm_insert k v m)"
  by (rule AList.distinct_update)

lemma hm_wf_remove [simp, wr_invs]: "hm_wf m \<Longrightarrow> hm_wf (hm_remove k m)"
  by (rule AList.distinct_delete)

lemma hm_wf_retain [simp, wr_invs]: "hm_wf m \<Longrightarrow> hm_wf (hm_retain P m)"
  by (induction m) (auto simp: hm_retain_def)

lemma hm_get_retain [hm_simps]:
  "hm_wf m \<Longrightarrow> hm_get (hm_retain P m) k =
     (case hm_get m k of None \<Rightarrow> None | Some v \<Rightarrow> if P k v then Some v else None)"
proof (induction m)
  case Nil
  then show ?case by (simp add: hm_retain_def)
next
  case (Cons p m)
  obtain j w where p: "p = (j, w)" by (cases p)
  show ?case
  proof (cases "j = k")
    case True
    with Cons.prems p have "k \<notin> fst ` set (hm_retain P m)" by (auto simp: hm_retain_def)
    then have "hm_get (hm_retain P m) k = None" by (simp add: map_of_eq_None_iff)
    with True p show ?thesis by (simp add: hm_retain_def)
  next
    case False
    with Cons p show ?thesis by (simp add: hm_retain_def)
  qed
qed

lemma hm_get_in: "hm_wf m \<Longrightarrow> hm_get m k = Some v \<longleftrightarrow> (k, v) \<in> set m"
  by (rule map_of_eq_Some_iff)

lemma hm_values_get: "hm_wf m \<Longrightarrow> v \<in> set (hm_values m) \<longleftrightarrow> (\<exists>k. hm_get m k = Some v)"
  by (force simp: hm_get_in)

lemma hm_keys_get: "k \<in> set (hm_keys m) \<longleftrightarrow> hm_get m k \<noteq> None"
  by (auto simp: map_of_eq_None_iff)

lemma hm_keys_insert [simp]: "set (hm_keys (hm_insert k v m)) = insert k (set (hm_keys m))"
  by (simp add: dom_update)

lemma hm_keys_remove [simp]: "set (hm_keys (hm_remove k m)) = set (hm_keys m) - {k}"
  by (auto simp: AList.delete_eq)

lemma hm_contains_insert [simp]: "hm_contains (hm_insert k v m) j \<longleftrightarrow> j = k \<or> hm_contains m j"
  by (simp add: hm_contains_def)

lemma hm_contains_remove [simp]: "hm_contains (hm_remove k m) j \<longleftrightarrow> j \<noteq> k \<and> hm_contains m j"
  by (simp add: hm_contains_def)

text \<open>A \<open>HashSet\<close> is a list without duplicates, in the unspecified iteration order.\<close>

definition hs_insert :: "'a \<Rightarrow> 'a list \<Rightarrow> 'a list" where
  "hs_insert x xs = (if x \<in> set xs then xs else xs @ [x])"

definition hs_remove :: "'a \<Rightarrow> 'a list \<Rightarrow> 'a list" where
  "hs_remove x xs = filter (\<lambda>y. y \<noteq> x) xs"

lemma set_hs_insert [simp]: "set (hs_insert x xs) = insert x (set xs)"
  by (auto simp: hs_insert_def)

lemma set_hs_remove [simp]: "set (hs_remove x xs) = set xs - {x}"
  by (auto simp: hs_remove_def)

lemma distinct_hs [simp]: "distinct xs \<Longrightarrow> distinct (hs_insert x xs)" "distinct xs \<Longrightarrow> distinct (hs_remove x xs)"
  by (simp_all add: hs_insert_def hs_remove_def)

subsection \<open>Unsigned words\<close>

lemma unat_u8: "unat (b :: u8) < 256"
  by (rule order.strict_trans2 [OF unsigned_less]) simp

lemma unat_u32: "unat (b :: u32) < 4294967296"
  by (rule order.strict_trans2 [OF unsigned_less]) simp

lemma unat_u64: "unat (b :: u64) < 18446744073709551616"
  by (rule order.strict_trans2 [OF unsigned_less]) simp

subsection \<open>Signed 32-bit arithmetic\<close>

text \<open>Two's complement reduction of an integer to the range of Rust's \<open>i32\<close>.\<close>

definition wrap32 :: "int \<Rightarrow> int" where
  "wrap32 x = (x + 2147483648) mod 4294967296 - 2147483648"

definition in_i32 :: "int \<Rightarrow> bool" where
  "in_i32 x \<longleftrightarrow> - 2147483648 \<le> x \<and> x < 2147483648"

lemma wrap32_id [simp]: "in_i32 x \<Longrightarrow> wrap32 x = x"
  by (simp add: wrap32_def in_i32_def)

lemma in_i32_wrap32 [simp]: "in_i32 (wrap32 x)"
  unfolding wrap32_def in_i32_def
  using pos_mod_sign [of 4294967296 "x + 2147483648"] pos_mod_bound [of 4294967296 "x + 2147483648"]
  by simp

text \<open>The casts \<open>as i64\<close> of an unsigned value and \<open>as u64\<close> of a signed one.\<close>

definition as_i64 :: "nat \<Rightarrow> int" where
  "as_i64 n = (int n + 9223372036854775808) mod 18446744073709551616 - 9223372036854775808"

definition as_u64 :: "int \<Rightarrow> u64" where
  "as_u64 i = word_of_int i"

lemma as_u64_as_i64 [simp]: "as_u64 (as_i64 (unat w)) = w"
proof -
  have "(word_of_int (as_i64 (unat w)) :: u64) = word_of_int (int (unat w))"
    unfolding word_of_int_eq_iff take_bit_eq_mod as_i64_def by (simp add: mod_diff_left_eq)
  then show ?thesis by (simp add: as_u64_def)
qed

lemma as_i64_inject [simp]: "as_i64 (unat v) = as_i64 (unat (w :: u64)) \<longleftrightarrow> v = w"
  by (metis as_u64_as_i64)

lemma as_i64_small [simp]: "n < 9223372036854775808 \<Longrightarrow> as_i64 n = int n"
  by (simp add: as_i64_def)

text \<open>\<open>Duration\<close> and \<open>Instant\<close> in whole seconds.\<close>

definition nanos_per_sec :: nat where "nanos_per_sec = 1000000000"

definition from_secs :: "nat \<Rightarrow> duration" where "from_secs n = n * nanos_per_sec"

definition as_secs :: "duration \<Rightarrow> nat" where "as_secs d = d div nanos_per_sec"

lemma as_secs_from_secs [simp]: "as_secs (from_secs n) = n"
  by (simp add: as_secs_def from_secs_def nanos_per_sec_def)

text \<open>Rust's signed division truncates towards zero.\<close>

definition trunc_div :: "int \<Rightarrow> int \<Rightarrow> int" where
  "trunc_div n d =
     (let q = \<bar>n\<bar> div \<bar>d\<bar> in if (n < 0) = (d < 0) then q else - q)"

lemma trunc_div_nonneg [simp]: "0 \<le> a \<Longrightarrow> 0 < b \<Longrightarrow> trunc_div a b = a div b"
  by (simp add: trunc_div_def)

subsection \<open>Checked slices\<close>

text \<open>\<open>xs[a..b]\<close>: \<open>None\<close> where Rust panics (start after end, or end past the length).\<close>

definition slice :: "'a list \<Rightarrow> nat \<Rightarrow> nat \<Rightarrow> 'a list option" where
  "slice xs a b = (if a \<le> b \<and> b \<le> length xs then Some (take (b - a) (drop a xs)) else None)"

text \<open>\<open>xs[a..a + ys.len()].copy_from_slice(ys)\<close>.\<close>

definition write_slice :: "'a list \<Rightarrow> nat \<Rightarrow> 'a list \<Rightarrow> 'a list option" where
  "write_slice xs a ys =
     (if a + length ys \<le> length xs
      then Some (take a xs @ ys @ drop (a + length ys) xs) else None)"

lemma slice_length: "slice xs a b = Some ys \<Longrightarrow> length ys = b - a"
  by (auto simp: slice_def split: if_splits)

lemma slice_nth: "slice xs a b = Some ys \<Longrightarrow> i < b - a \<Longrightarrow> ys ! i = xs ! (a + i)"
  by (auto simp: slice_def split: if_splits)

lemma write_slice_length: "write_slice xs a ys = Some zs \<Longrightarrow> length zs = length xs"
  by (auto simp: write_slice_def split: if_splits)

lemma write_slice_nth:
  "write_slice xs a ys = Some zs \<Longrightarrow> i < length xs \<Longrightarrow>
     zs ! i = (if a \<le> i \<and> i < a + length ys then ys ! (i - a) else xs ! i)"
  by (auto simp: write_slice_def nth_append min_def not_le not_less split: if_splits)

subsection \<open>Results\<close>

text \<open>Sequencing of fallible computations, Rust's \<open>?\<close>.\<close>

definition res_bind :: "'e + 'a \<Rightarrow> ('a \<Rightarrow> 'e + 'b) \<Rightarrow> 'e + 'b" where
  "res_bind r f = (case r of Inl e \<Rightarrow> Inl e | Inr x \<Rightarrow> f x)"

lemma res_bind_simps [simp]: "res_bind (Inl e) f = Inl e" "res_bind (Inr x) f = f x"
  by (simp_all add: res_bind_def)

lemma res_bind_Inr: "res_bind r f = Inr y \<longleftrightarrow> (\<exists>x. r = Inr x \<and> f x = Inr y)"
  by (cases r) auto

text \<open>\<open>Iterator::find\<close>.\<close>

abbreviation iter_find :: "('a \<Rightarrow> bool) \<Rightarrow> 'a list \<Rightarrow> 'a option" where
  "iter_find \<equiv> List.find"

text \<open>\<open>Iterator::position\<close>.\<close>

fun position :: "('a \<Rightarrow> bool) \<Rightarrow> 'a list \<Rightarrow> nat option" where
  "position P [] = None"
| "position P (x # xs) = (if P x then Some 0 else map_option Suc (position P xs))"

lemma position_Some:
  "position P xs = Some i \<longleftrightarrow> i < length xs \<and> P (xs ! i) \<and> (\<forall>j < i. \<not> P (xs ! j))"
proof (induction xs arbitrary: i)
  case Nil
  then show ?case by simp
next
  case (Cons x xs)
  show ?case
    by (cases i) (auto simp: Cons.IH less_Suc_eq_0_disj All_less_Suc2)
qed

lemma position_None: "position P xs = None \<longleftrightarrow> (\<forall>x \<in> set xs. \<not> P x)"
  by (induction xs) auto

lemma position_Some_in: "position P xs = Some i \<Longrightarrow> xs ! i \<in> set xs \<and> P (xs ! i)"
  by (simp add: position_Some)

lemma position_eq_in: "position (\<lambda>w. w = x) xs = Some i \<Longrightarrow> x \<in> set xs"
  using position_Some_in [of "\<lambda>w. w = x" xs i] by auto

lemma find_unique: "distinct (map f xs) \<Longrightarrow> x \<in> set xs \<Longrightarrow> f x = k \<Longrightarrow> iter_find (\<lambda>p. f p = k) xs = Some x"
proof (induction xs)
  case (Cons y ys)
  show ?case
  proof (cases "f y = k")
    case True
    with Cons.prems have "x = y" by (metis distinct.simps(2) imageI list.set_map list.simps(9) set_ConsD)
    with True show ?thesis by simp
  next
    case False
    with Cons show ?thesis by auto
  qed
qed simp

lemma find_in: "iter_find P xs = Some x \<Longrightarrow> x \<in> set xs \<and> P x"
  by (metis find_Some_iff nth_mem)

text \<open>\<open>Path::join\<close> with a relative path.\<close>

definition path_join :: "string \<Rightarrow> string \<Rightarrow> string" where
  "path_join base p =
     (if base = [] then p else if List.last base = CHR ''/'' then base @ p else base @ [CHR ''/''] @ p)"

end
