(* ===== verification/Encoding.thy ===== *)
theory Encoding
  imports Prelude
begin

text \<open>
  Frame encoding (\<open>crates/wayray-protocol/src/encoding.rs\<close>): the server copies a rectangle of
  absolute pixels out of its framebuffer and compresses it, the client decompresses it and copies
  it into its own framebuffer; both sides compute the same FNV checksum over the visible pixels.

  zstd is third-party code: it enters as two function parameters, \<open>zenc\<close> (\<open>zstd::encode_all\<close>) and
  \<open>zdec\<close> (\<open>zstd::decode_all\<close>), with \<open>None\<close> for a failure; \<open>zstd_lossless\<close> is what its documentation
  promises.  A slice out of range, and a failing \<open>expect\<close>, are the value \<open>None\<close> (a panic).
  \<open>usize\<close> quantities are \<open>nat\<close>; the wire fields are \<open>u32\<close>.
\<close>

unbundle bit_operations_syntax

text \<open>\<open>DamageRegion\<close> of \<open>messages.rs\<close>.\<close>

record damage_region =
  dr_x :: u32
  dr_y :: u32
  dr_width :: u32
  dr_height :: u32
  dr_data :: bytes

definition bpp :: nat where
  "bpp = 4"

text \<open>The row loop of \<open>encode_region\<close>: each row's bytes are appended to \<open>region_data\<close>.\<close>

fun gather_rows :: "bytes \<Rightarrow> nat \<Rightarrow> nat \<Rightarrow> nat \<Rightarrow> nat \<Rightarrow> nat list \<Rightarrow> bytes option" where
  "gather_rows pixels stride x y region_stride [] = Some []"
| "gather_rows pixels stride x y region_stride (row # rows) =
     (let src_offset = (y + row) * stride + x * bpp in
      case slice pixels src_offset (src_offset + region_stride) of
        None \<Rightarrow> None
      | Some line \<Rightarrow> map_option ((@) line) (gather_rows pixels stride x y region_stride rows))"

definition encode_region ::
  "(bytes \<Rightarrow> bytes option) \<Rightarrow> bytes \<Rightarrow> nat \<Rightarrow> u32 \<Rightarrow> u32 \<Rightarrow> u32 \<Rightarrow> u32 \<Rightarrow> damage_region option" where
  "encode_region zenc pixels stride x y width height =
     (let region_stride = unat width * bpp in
      case gather_rows pixels stride (unat x) (unat y) region_stride [0..<unat height] of
        None \<Rightarrow> None
      | Some region_data \<Rightarrow>
          (case zenc region_data of
             None \<Rightarrow> None
           | Some compressed \<Rightarrow>
               Some \<lparr>dr_x = x, dr_y = y, dr_width = width, dr_height = height, dr_data = compressed\<rparr>))"

text \<open>One chunk of at most eight bytes, packed little-endian into a \<open>u64\<close>.\<close>

fun pack_chunk :: "nat \<Rightarrow> bytes \<Rightarrow> u64" where
  "pack_chunk i [] = 0"
| "pack_chunk i (b # bs) = push_bit (i * 8) (ucast b) OR pack_chunk (Suc i) bs"

text \<open>\<open>slice::chunks(n)\<close>, the last chunk possibly shorter.\<close>

function chunks :: "nat \<Rightarrow> 'a list \<Rightarrow> 'a list list" where
  "chunks n xs = (if n = 0 \<or> xs = [] then [] else take n xs # chunks n (drop n xs))"
  by pat_completeness auto
termination
  by (relation "measure (\<lambda>(n, xs). length xs)") auto

declare chunks.simps [simp del]

definition fnv_prime :: u64 where
  "fnv_prime = 0x100000001b3"

definition fnv_basis :: u64 where
  "fnv_basis = 0xcbf29ce484222325"

definition mix_chunk :: "u64 \<Rightarrow> bytes \<Rightarrow> u64" where
  "mix_chunk h chunk = (h XOR pack_chunk 0 chunk) * fnv_prime"

definition mix_line :: "u64 \<Rightarrow> bytes \<Rightarrow> u64" where
  "mix_line h line = foldl mix_chunk h (chunks 8 line)"

fun mix_rows :: "bytes \<Rightarrow> nat \<Rightarrow> nat \<Rightarrow> u64 \<Rightarrow> nat list \<Rightarrow> u64 option" where
  "mix_rows data stride row_bytes h [] = Some h"
| "mix_rows data stride row_bytes h (row # rows) =
     (case slice data (row * stride) (row * stride + row_bytes) of
        None \<Rightarrow> None
      | Some line \<Rightarrow> mix_rows data stride row_bytes (mix_line h line) rows)"

definition checksum :: "bytes \<Rightarrow> nat \<Rightarrow> nat \<Rightarrow> nat \<Rightarrow> u32 option" where
  "checksum data stride row_bytes height =
     map_option (\<lambda>h. ucast (h XOR drop_bit 32 h)) (mix_rows data stride row_bytes fnv_basis [0..<height])"

text \<open>The row loop of \<open>apply_region\<close>.\<close>

fun scatter_rows :: "bytes \<Rightarrow> nat \<Rightarrow> nat \<Rightarrow> nat \<Rightarrow> nat \<Rightarrow> bytes \<Rightarrow> nat list \<Rightarrow> bytes option" where
  "scatter_rows fb stride x y region_stride dec [] = Some fb"
| "scatter_rows fb stride x y region_stride dec (row # rows) =
     (let dst_offset = (y + row) * stride + x * bpp; src_offset = row * region_stride in
      case slice dec src_offset (src_offset + region_stride) of
        None \<Rightarrow> None
      | Some line \<Rightarrow>
          (case write_slice fb dst_offset line of
             None \<Rightarrow> None
           | Some fb' \<Rightarrow> scatter_rows fb' stride x y region_stride dec rows))"

definition apply_region ::
  "(bytes \<Rightarrow> bytes option) \<Rightarrow> bytes \<Rightarrow> nat \<Rightarrow> damage_region \<Rightarrow> bytes option" where
  "apply_region zdec framebuffer stride region =
     (case zdec (dr_data region) of
        None \<Rightarrow> None
      | Some decompressed \<Rightarrow>
          scatter_rows framebuffer stride (unat (dr_x region)) (unat (dr_y region))
            (unat (dr_width region) * bpp) decompressed [0..<unat (dr_height region)])"

text \<open>\<open>for region in &update.regions { apply_region(..) }\<close>.\<close>

fun apply_regions ::
  "(bytes \<Rightarrow> bytes option) \<Rightarrow> bytes \<Rightarrow> nat \<Rightarrow> damage_region list \<Rightarrow> bytes option" where
  "apply_regions zdec fb stride [] = Some fb"
| "apply_regions zdec fb stride (r # rs) =
     (case apply_region zdec fb stride r of
        None \<Rightarrow> None | Some fb' \<Rightarrow> apply_regions zdec fb' stride rs)"

text \<open>zstd is lossless: compressing succeeds and decompressing gives the input back.\<close>

definition zstd_lossless :: "(bytes \<Rightarrow> bytes option) \<Rightarrow> (bytes \<Rightarrow> bytes option) \<Rightarrow> bool" where
  "zstd_lossless zenc zdec \<longleftrightarrow> (\<forall>d. \<exists>c. zenc d = Some c \<and> zdec c = Some d)"

subsection \<open>Rows of a rectangle\<close>

text \<open>A rectangle that lies inside a buffer of \<open>rows\<close> rows of \<open>stride\<close> bytes.\<close>

definition rect_fits :: "nat \<Rightarrow> nat \<Rightarrow> nat \<Rightarrow> nat \<Rightarrow> nat \<Rightarrow> nat \<Rightarrow> bool" where
  "rect_fits stride rows x y w h \<longleftrightarrow> x * bpp + w * bpp \<le> stride \<and> y + h \<le> rows"

definition rect_row :: "bytes \<Rightarrow> nat \<Rightarrow> nat \<Rightarrow> nat \<Rightarrow> nat \<Rightarrow> nat \<Rightarrow> bytes" where
  "rect_row px stride x y w row = take (w * bpp) (drop ((y + row) * stride + x * bpp) px)"

lemma row_offset_le:
  fixes row rows stride a :: nat
  assumes "row < rows" and "a \<le> stride"
  shows "row * stride + a \<le> rows * stride"
proof -
  have "row * stride + a \<le> Suc row * stride" using assms(2) by simp
  also have "\<dots> \<le> rows * stride" using assms(1) by (intro mult_le_mono1) simp
  finally show ?thesis .
qed

lemma length_rect_row:
  assumes "rect_fits stride rows x y w h" and "length px = rows * stride" and "row < h"
  shows "length (rect_row px stride x y w row) = w * bpp"
proof -
  have "(y + row) * stride + (x * bpp + w * bpp) \<le> rows * stride"
    using assms by (intro row_offset_le) (auto simp: rect_fits_def)
  then have "w * bpp \<le> length px - ((y + row) * stride + x * bpp)"
    using assms(2) by linarith
  then show ?thesis by (simp add: rect_row_def)
qed

lemma gather_rows_eq:
  assumes "rect_fits stride rows x y w h" and "length px = rows * stride"
    and "\<forall>r \<in> set rs. r < h"
  shows "gather_rows px stride x y (w * bpp) rs = Some (concat (map (rect_row px stride x y w) rs))"
  using assms(3)
proof (induction rs)
  case Nil
  then show ?case by simp
next
  case (Cons r rs)
  have "(y + r) * stride + (x * bpp + w * bpp) \<le> rows * stride"
    using assms(1) Cons.prems by (intro row_offset_le) (auto simp: rect_fits_def)
  with Cons assms(2) show ?case
    by (simp add: Let_def slice_def rect_row_def)
qed

lemma concat_block:
  assumes "\<forall>xs \<in> set xss. length xs = n" and "i < length xss"
  shows "i * n + n \<le> length (concat xss) \<and> take n (drop (i * n) (concat xss)) = xss ! i"
  using assms
proof (induction xss arbitrary: i)
  case Nil
  then show ?case by simp
next
  case (Cons xs xss)
  show ?case
  proof (cases i)
    case 0
    with Cons.prems show ?thesis by simp
  next
    case (Suc j)
    with Cons show ?thesis by (simp add: add.commute add.left_commute)
  qed
qed

lemma scatter_rows_append:
  "scatter_rows fb stride x y rs dec (as @ bs) =
     Option.bind (scatter_rows fb stride x y rs dec as) (\<lambda>fb'. scatter_rows fb' stride x y rs dec bs)"
  by (induction as arbitrary: fb) (auto simp: Let_def split: option.splits)

text \<open>A byte of row \<open>r\<close>, column byte \<open>c\<close> of a framebuffer.\<close>

abbreviation fb_at :: "bytes \<Rightarrow> nat \<Rightarrow> nat \<Rightarrow> nat \<Rightarrow> u8" where
  "fb_at fb stride r c \<equiv> fb ! (r * stride + c)"

definition in_rect :: "nat \<Rightarrow> nat \<Rightarrow> nat \<Rightarrow> nat \<Rightarrow> nat \<Rightarrow> nat \<Rightarrow> bool" where
  "in_rect x y w h r c \<longleftrightarrow> y \<le> r \<and> r < y + h \<and> x * bpp \<le> c \<and> c < x * bpp + w * bpp"

lemma flat_row_bounds:
  assumes "c < (s :: nat)" and "b \<le> s" and "a \<le> b"
  shows "q * s + a \<le> r * s + c \<and> r * s + c < q * s + b \<longleftrightarrow> q = r \<and> a \<le> c \<and> c < b"
proof (cases q r rule: linorder_cases)
  case less
  then have "Suc q * s \<le> r * s" by (intro mult_le_mono1) simp
  with assms less show ?thesis by auto
next
  case equal
  then show ?thesis by auto
next
  case greater
  then have "Suc r * s \<le> q * s" by (intro mult_le_mono1) simp
  with assms greater show ?thesis by auto
qed

text \<open>Writing one row of the rectangle.\<close>

lemma write_row_copies:
  assumes src: "rect_fits s rows x y w h" "length px = rows * s"
    and dst: "rect_fits t rows x y w h" "length fb = rows * t" and k: "k < h"
  shows "\<exists>fb'. write_slice fb ((y + k) * t + x * bpp) (rect_row px s x y w k) = Some fb' \<and> length fb' = length fb
    \<and> (\<forall>r < rows. \<forall>c < t. fb_at fb' t r c =
         (if y + k = r \<and> x * bpp \<le> c \<and> c < x * bpp + w * bpp then fb_at px s r c else fb_at fb t r c))"
proof -
  let ?line = "rect_row px s x y w k" and ?off = "(y + k) * t + x * bpp"
  have llen: "length ?line = w * bpp" using length_rect_row [OF src] k by simp
  have "?off + w * bpp \<le> rows * t"
    using row_offset_le [of "y + k" rows "x * bpp + w * bpp" t] dst k by (auto simp: rect_fits_def)
  then obtain fb' where w: "write_slice fb ?off ?line = Some fb'"
    using dst llen by (simp add: write_slice_def)
  have "fb_at fb' t r c = (if y + k = r \<and> x * bpp \<le> c \<and> c < x * bpp + w * bpp then fb_at px s r c else fb_at fb t r c)"
    if r: "r < rows" and c: "c < t" for r c
  proof -
    have i: "r * t + c < length fb" using row_offset_le [of r rows "Suc c" t] r c dst by simp
    have hit: "?off \<le> r * t + c \<and> r * t + c < ?off + length ?line \<longleftrightarrow>
        y + k = r \<and> x * bpp \<le> c \<and> c < x * bpp + w * bpp"
      using flat_row_bounds [of c t "x * bpp + w * bpp" "x * bpp" "y + k" r] c dst llen
      by (auto simp: rect_fits_def add.assoc)
    have "?line ! (c - x * bpp) = fb_at px s r c" if "y + k = r" "x * bpp \<le> c" "c < x * bpp + w * bpp"
    proof -
      have "(y + k) * s + (x * bpp + w * bpp) \<le> rows * s"
        using src k by (intro row_offset_le) (auto simp: rect_fits_def)
      with that src show ?thesis by (auto simp: rect_row_def)
    qed
    then show ?thesis using write_slice_nth [OF w i] hit by auto
  qed
  with w write_slice_length [OF w] show ?thesis by blast
qed

text \<open>
  The central lemma: scattering the rows of a rectangle gathered from a source buffer copies
  exactly that rectangle, whatever the two strides are.
\<close>

lemma scatter_rows_copies:
  assumes src: "rect_fits s rows x y w h" "length px = rows * s"
    and dst: "rect_fits t rows x y w h" "length fb = rows * t"
    and dec: "dec = concat (map (rect_row px s x y w) [0..<h])" and kh: "k \<le> h"
  shows "\<exists>fb'. scatter_rows fb t x y (w * bpp) dec [0..<k] = Some fb' \<and> length fb' = length fb
    \<and> (\<forall>r < rows. \<forall>c < t. fb_at fb' t r c =
         (if in_rect x y w k r c then fb_at px s r c else fb_at fb t r c))"
  using kh
proof (induction k)
  case 0
  have "\<not> in_rect x y w 0 r c" for r c by (auto simp: in_rect_def)
  then show ?case by simp
next
  case (Suc k)
  then obtain fb' where fb': "scatter_rows fb t x y (w * bpp) dec [0..<k] = Some fb'"
    and len: "length fb' = length fb"
    and at: "\<forall>r < rows. \<forall>c < t. fb_at fb' t r c =
               (if in_rect x y w k r c then fb_at px s r c else fb_at fb t r c)"
    by auto
  have blocks: "\<forall>xs \<in> set (map (rect_row px s x y w) [0..<h]). length xs = w * bpp"
    using length_rect_row [OF src] by auto
  from Suc.prems have k: "k < length (map (rect_row px s x y w) [0..<h])" by simp
  have line: "slice dec (k * (w * bpp)) (k * (w * bpp) + w * bpp) = Some (rect_row px s x y w k)"
    using concat_block [OF blocks k] Suc.prems dec by (simp add: slice_def)
  have "k < h" "length fb' = rows * t" using Suc.prems len dst(2) by simp_all
  from write_row_copies [OF src dst(1) this(2,1)] obtain fb''
    where w: "write_slice fb' ((y + k) * t + x * bpp) (rect_row px s x y w k) = Some fb''" "length fb'' = length fb'"
      and row: "\<And>r c. r < rows \<Longrightarrow> c < t \<Longrightarrow> fb_at fb'' t r c =
         (if y + k = r \<and> x * bpp \<le> c \<and> c < x * bpp + w * bpp then fb_at px s r c else fb_at fb' t r c)" by blast
  have "in_rect x y w (Suc k) r c \<longleftrightarrow> in_rect x y w k r c \<or> y + k = r \<and> x * bpp \<le> c \<and> c < x * bpp + w * bpp" for r c
    by (auto simp: in_rect_def)
  then have "fb_at fb'' t r c = (if in_rect x y w (Suc k) r c then fb_at px s r c else fb_at fb t r c)"
    if "r < rows" "c < t" for r c
    using row [OF that] at that by simp
  moreover have "scatter_rows fb t x y (w * bpp) dec [0..<Suc k] = Some fb''"
    using fb' line w(1) by (simp add: scatter_rows_append Let_def)
  ultimately show ?case using w(2) len by auto
qed

subsection \<open>The decoder copies, twice is once\<close>

lemma scatter_rows_length:
  "scatter_rows fb t x y rs dec rows = Some fb' \<Longrightarrow> length fb' = length fb"
  by (induction rows arbitrary: fb)
     (auto simp: Let_def write_slice_length split: option.splits)

lemma scatter_rows_same_writes:
  assumes "scatter_rows fb1 t x y rs dec rows = Some r1" and "length fb2 = length fb1"
  shows "\<exists>r2. scatter_rows fb2 t x y rs dec rows = Some r2 \<and>
     (\<forall>i < length fb1. r1 ! i = r2 ! i \<or> (r1 ! i = fb1 ! i \<and> r2 ! i = fb2 ! i))"
  using assms
proof (induction rows arbitrary: fb1 fb2)
  case Nil
  then show ?case by simp
next
  case (Cons row rows)
  let ?off = "(y + row) * t + x * bpp"
  obtain line w1 where line: "slice dec (row * rs) (row * rs + rs) = Some line"
    and w1: "write_slice fb1 ?off line = Some w1"
    and rest: "scatter_rows w1 t x y rs dec rows = Some r1"
    using Cons.prems(1) by (auto simp: Let_def split: option.splits)
  obtain w2 where w2: "write_slice fb2 ?off line = Some w2"
    using w1 Cons.prems(2) by (auto simp: write_slice_def split: if_splits)
  have lens: "length w1 = length fb1" "length w2 = length fb1"
    using write_slice_length [OF w1] write_slice_length [OF w2] Cons.prems(2) by simp_all
  then obtain r2 where r2: "scatter_rows w2 t x y rs dec rows = Some r2"
    and eq: "\<forall>i < length w1. r1 ! i = r2 ! i \<or> (r1 ! i = w1 ! i \<and> r2 ! i = w2 ! i)"
    using Cons.IH [OF rest, of w2] by auto
  have "r1 ! i = r2 ! i \<or> (r1 ! i = fb1 ! i \<and> r2 ! i = fb2 ! i)" if "i < length fb1" for i
    using eq write_slice_nth [OF w1, of i] write_slice_nth [OF w2, of i] that lens Cons.prems(2)
    by (auto split: if_splits)
  with line w2 r2 show ?case by (auto simp: Let_def)
qed

lemma encode_apply_rect:
  assumes z: "zstd_lossless zenc zdec"
    and src: "rect_fits s rows (unat x) (unat y) (unat w) (unat h)" "length px = rows * s"
    and dst: "rect_fits t rows (unat x) (unat y) (unat w) (unat h)" "length fb = rows * t"
  shows "\<exists>region fb'. encode_region zenc px s x y w h = Some region
    \<and> apply_region zdec fb t region = Some fb' \<and> length fb' = length fb
    \<and> (\<forall>r < rows. \<forall>c < t. fb_at fb' t r c =
         (if in_rect (unat x) (unat y) (unat w) (unat h) r c
          then fb_at px s r c else fb_at fb t r c))"
proof -
  let ?d = "concat (map (rect_row px s (unat x) (unat y) (unat w)) [0..<unat h])"
  have g: "gather_rows px s (unat x) (unat y) (unat w * bpp) [0..<unat h] = Some ?d"
    using gather_rows_eq [OF src] by simp
  obtain c where c: "zenc ?d = Some c" "zdec c = Some ?d"
    using z by (auto simp: zstd_lossless_def)
  let ?reg = "\<lparr>dr_x = x, dr_y = y, dr_width = w, dr_height = h, dr_data = c\<rparr>"
  have "encode_region zenc px s x y w h = Some ?reg"
    using g c by (simp add: encode_region_def Let_def)
  moreover have "apply_region zdec fb t ?reg =
      scatter_rows fb t (unat x) (unat y) (unat w * bpp) ?d [0..<unat h]"
    using c by (simp add: apply_region_def)
  ultimately show ?thesis
    using scatter_rows_copies [OF src dst refl order_refl] by auto
qed

text \<open>
  C6.  Round trip of a damage region: encoding a rectangle of the server's framebuffer and applying
  the result to a client framebuffer never panics and copies exactly the rectangle's bytes, leaving
  every other byte of the client framebuffer as it was, whatever the row strides of the two sides.
\<close>

theorem encode_apply_copies:
  assumes z: "zstd_lossless zenc zdec"
    and src: "rect_fits s rows (unat x) (unat y) (unat w) (unat h)" "length px = rows * s"
    and dst: "rect_fits t rows (unat x) (unat y) (unat w) (unat h)" "length fb = rows * t"
  shows "\<exists>region fb'. encode_region zenc px s x y w h = Some region
    \<and> apply_region zdec fb t region = Some fb' \<and> length fb' = length fb
    \<and> (\<forall>r < rows. \<forall>c < t. fb_at fb' t r c =
         (if in_rect (unat x) (unat y) (unat w) (unat h) r c
          then fb_at px s r c else fb_at fb t r c))"
  by (rule encode_apply_rect [OF z src dst])

text \<open>The witness: a 2x2 framebuffer, one pixel copied, with the identity as compressor.\<close>

theorem encode_apply_copies_witness:
  "\<exists>region fb'. encode_region Some (replicate 16 7) 8 1 0 1 1 = Some region
    \<and> apply_region Some (replicate 16 0) 8 region = Some fb' \<and> length fb' = length (replicate 16 (0 :: u8))
    \<and> (\<forall>r < 2. \<forall>c < 8. fb_at fb' 8 r c =
         (if in_rect (unat (1 :: u32)) (unat (0 :: u32)) (unat (1 :: u32)) (unat (1 :: u32)) r c
          then fb_at (replicate 16 7) 8 r c else fb_at (replicate 16 0) 8 r c))"
  by (rule encode_apply_copies) (simp_all add: zstd_lossless_def rect_fits_def bpp_def)

text \<open>
  Applying a region is idempotent: a region applied twice in a row leaves the framebuffer the
  first application left, for every region (also one whose rows overlap), and never panics the
  second time when it did not the first.
\<close>

theorem apply_region_idempotent:
  assumes "apply_region zdec fb stride region = Some fb'"
  shows "apply_region zdec fb' stride region = Some fb'"
proof -
  let ?run = "\<lambda>f d. scatter_rows f stride (unat (dr_x region)) (unat (dr_y region))
     (unat (dr_width region) * bpp) d [0..<unat (dr_height region)]"
  obtain dec where dec: "zdec (dr_data region) = Some dec" and run: "?run fb dec = Some fb'"
    using assms by (auto simp: apply_region_def split: option.splits)
  have len: "length fb' = length fb" using run by (rule scatter_rows_length)
  from scatter_rows_same_writes [OF run len] obtain r2 where r2: "?run fb' dec = Some r2"
    and eq: "\<forall>i < length fb. fb' ! i = r2 ! i \<or> (fb' ! i = fb ! i \<and> r2 ! i = fb' ! i)"
    by auto
  have "length r2 = length fb" using scatter_rows_length [OF r2] len by simp
  moreover have "\<forall>i < length fb. r2 ! i = fb' ! i" using eq by auto
  ultimately have "r2 = fb'" using len by (simp add: nth_equalityI)
  with r2 dec show ?thesis by (simp add: apply_region_def)
qed

theorem apply_region_idempotent_witness:
  "apply_region Some [9, 8, 7, 6] 4 \<lparr>dr_x = 0, dr_y = 0, dr_width = 1, dr_height = 1, dr_data = [9, 8, 7, 6]\<rparr>
     = Some [9, 8, 7, 6]"
  by (rule apply_region_idempotent [where fb = "[0, 0, 0, 0]"])
     (simp add: apply_region_def bpp_def slice_def write_slice_def)

subsection \<open>The checksum sees the visible pixels only\<close>

definition visible_row :: "bytes \<Rightarrow> nat \<Rightarrow> nat \<Rightarrow> nat \<Rightarrow> bytes" where
  "visible_row fb stride row_bytes r = take row_bytes (drop (r * stride) fb)"

lemma mix_rows_visible:
  assumes "\<forall>r \<in> set rs. r < h" and "length a = h * s" and "n \<le> s"
  shows "mix_rows a s n k rs = Some (foldl mix_line k (map (visible_row a s n) rs))"
  using assms(1)
proof (induction rs arbitrary: k)
  case Nil
  then show ?case by simp
next
  case (Cons r rs)
  have "r * s + n \<le> length a" using Cons.prems assms row_offset_le [of r h n s] by simp
  with Cons show ?case by (simp add: slice_def visible_row_def)
qed

lemma checksum_visible:
  assumes "length a = h * s" and "n \<le> s"
  shows "checksum a s n h =
    Some (let k = foldl mix_line fnv_basis (map (visible_row a s n) [0..<h]) in ucast (k XOR drop_bit 32 k))"
proof -
  have "\<forall>r \<in> set [0..<h]. r < h" by simp
  from mix_rows_visible [OF this assms, of fnv_basis] show ?thesis
    by (simp add: checksum_def Let_def del: upt_Suc)
qed

lemma checksum_same_visible:
  assumes "length a = h * s" and "n \<le> s" and "length b = h * t" and "n \<le> t"
    and "\<forall>r < h. visible_row a s n r = visible_row b t n r"
  shows "\<exists>c. checksum a s n h = Some c \<and> checksum b t n h = Some c"
proof -
  have "map (visible_row a s n) [0..<h] = map (visible_row b t n) [0..<h]"
    using assms(5) by simp
  with checksum_visible [OF assms(1,2)] checksum_visible [OF assms(3,4)] show ?thesis by simp
qed

text \<open>
  The checksum depends on the visible pixels only: two framebuffers with the same visible rows
  have the same checksum, although their strides and their padding bytes differ, and neither
  computation reads out of range.
\<close>

theorem checksum_ignores_padding:
  assumes "length a = h * s" and "n \<le> s" and "length b = h * t" and "n \<le> t"
    and "\<forall>r < h. visible_row a s n r = visible_row b t n r"
  shows "\<exists>c. checksum a s n h = Some c \<and> checksum b t n h = Some c"
  using checksum_same_visible [OF assms] .

theorem checksum_ignores_padding_witness:
  "\<exists>c. checksum [1, 2, 255, 3, 4, 255] 3 2 2 = Some c \<and> checksum [1, 2, 3, 4] 2 2 2 = Some c"
  by (rule checksum_ignores_padding)
     (auto simp: visible_row_def less_Suc_eq numeral_2_eq_2)

end
