(* ===== verification/Codec.thy ===== *)
theory Codec
  imports Prelude
begin

text \<open>
  Message framing (\<open>crates/wayray-protocol/src/codec.rs\<close>) and the stream reader and writer that
  both network layers use (\<open>read_message\<close> and \<open>write_message\<close> of \<open>crates/wrsrvd/src/network.rs\<close>
  and \<open>crates/wrclient/src/network.rs\<close>).

  postcard is third-party code: \<open>ser\<close> (\<open>to_allocvec\<close>) and \<open>de\<close> (\<open>from_bytes\<close>) are function
  parameters that return \<open>None\<close> for an error, and \<open>serde_roundtrip\<close> is what they promise.  A QUIC
  receive stream is the list of the bytes that will arrive before it ends.  \<open>quinn\<close> documents
  \<open>read_exact\<close> as not cancellation-safe: a dropped read loses the bytes it has taken from the
  stream; the \<open>reader\<close> values below are the states of such a read in progress.
\<close>

definition MAX_MESSAGE_SIZE :: nat where
  "MAX_MESSAGE_SIZE = 64 * 1024 * 1024"

datatype codec_error =
    Serialize
  | Incomplete nat nat
  | TooLarge nat nat

definition check_message_size :: "nat \<Rightarrow> codec_error + unit" where
  "check_message_size sz =
     (if MAX_MESSAGE_SIZE < sz then Inl (TooLarge sz MAX_MESSAGE_SIZE) else Inr ())"

text \<open>\<open>u32::to_le_bytes\<close> and \<open>u32::from_le_bytes\<close>.\<close>

definition to_le_bytes :: "u32 \<Rightarrow> bytes" where
  "to_le_bytes w = [ucast w, ucast (drop_bit 8 w), ucast (drop_bit 16 w), ucast (drop_bit 24 w)]"

definition from_le_bytes :: "u8 \<Rightarrow> u8 \<Rightarrow> u8 \<Rightarrow> u8 \<Rightarrow> u32" where
  "from_le_bytes a b c d =
     word_of_nat (unat a + 256 * unat b + 65536 * unat c + 16777216 * unat d)"

definition encode :: "('m \<Rightarrow> bytes option) \<Rightarrow> 'm \<Rightarrow> codec_error + bytes" where
  "encode ser msg =
     (case ser msg of
        None \<Rightarrow> Inl Serialize
      | Some payload \<Rightarrow> Inr (to_le_bytes (word_of_nat (length payload)) @ payload))"

definition decode :: "(bytes \<Rightarrow> 'm option) \<Rightarrow> bytes \<Rightarrow> codec_error + 'm" where
  "decode de data = (case de data of None \<Rightarrow> Inl Serialize | Some m \<Rightarrow> Inr m)"

fun read_length_prefix :: "bytes \<Rightarrow> (u32 \<times> bytes) option" where
  "read_length_prefix (a # b # c # d # rest) = Some (from_le_bytes a b c d, rest)"
| "read_length_prefix _ = None"

definition try_decode_framed :: "(bytes \<Rightarrow> 'm option) \<Rightarrow> bytes \<Rightarrow> codec_error + ('m \<times> nat) option" where
  "try_decode_framed de buf =
     (case read_length_prefix buf of
        None \<Rightarrow> Inr None
      | Some (l, rest) \<Rightarrow>
          (let len = unat l in
           if length rest < len then Inr None
           else res_bind (decode de (take len rest)) (\<lambda>msg. Inr (Some (msg, 4 + len)))))"

subsection \<open>Messages on a stream\<close>

datatype read_error = StreamEnded | CodecErr codec_error

text \<open>\<open>recv.read_exact(&mut buf)\<close> for a buffer of \<open>n\<close> bytes.\<close>

definition read_exact :: "nat \<Rightarrow> bytes \<Rightarrow> read_error + (bytes \<times> bytes)" where
  "read_exact n stream =
     (if length stream < n then Inl StreamEnded else Inr (take n stream, drop n stream))"

definition lift_codec :: "codec_error + 'a \<Rightarrow> read_error + 'a" where
  "lift_codec r = (case r of Inl e \<Rightarrow> Inl (CodecErr e) | Inr x \<Rightarrow> Inr x)"

text \<open>\<open>u32::from_le_bytes(len_buf) as usize\<close> for the four-byte length buffer.\<close>

definition prefix_len :: "bytes \<Rightarrow> nat" where
  "prefix_len len_buf = unat (from_le_bytes (len_buf ! 0) (len_buf ! 1) (len_buf ! 2) (len_buf ! 3))"

definition read_message :: "(bytes \<Rightarrow> 'm option) \<Rightarrow> bytes \<Rightarrow> read_error + ('m \<times> bytes)" where
  "read_message de stream =
     res_bind (read_exact 4 stream) (\<lambda>(len_buf, s1).
       let len = prefix_len len_buf in
       res_bind (lift_codec (check_message_size len)) (\<lambda>_.
         res_bind (read_exact len s1) (\<lambda>(payload, s2).
           res_bind (lift_codec (decode de payload)) (\<lambda>msg. Inr (msg, s2)))))"

definition write_message :: "('m \<Rightarrow> bytes option) \<Rightarrow> bytes \<Rightarrow> 'm \<Rightarrow> codec_error + bytes" where
  "write_message ser stream msg = res_bind (encode ser msg) (\<lambda>encoded. Inr (stream @ encoded))"

fun write_messages :: "('m \<Rightarrow> bytes option) \<Rightarrow> bytes \<Rightarrow> 'm list \<Rightarrow> codec_error + bytes" where
  "write_messages ser stream [] = Inr stream"
| "write_messages ser stream (m # ms) =
     res_bind (write_message ser stream m) (\<lambda>s. write_messages ser s ms)"

text \<open>Reading until the stream is used up; the fuel is the number of bytes left.\<close>

fun read_all :: "(bytes \<Rightarrow> 'm option) \<Rightarrow> nat \<Rightarrow> bytes \<Rightarrow> (read_error + 'm list)" where
  "read_all de 0 stream = Inr []"
| "read_all de (Suc fuel) stream =
     (if stream = [] then Inr []
      else res_bind (read_message de stream) (\<lambda>(m, rest).
             res_bind (read_all de fuel rest) (\<lambda>ms. Inr (m # ms))))"

definition serde_roundtrip :: "('m \<Rightarrow> bytes option) \<Rightarrow> (bytes \<Rightarrow> 'm option) \<Rightarrow> bool" where
  "serde_roundtrip ser de \<longleftrightarrow> (\<forall>m p. ser m = Some p \<longrightarrow> de p = Some m)"

subsection \<open>A read in progress\<close>

datatype reader = ReadLen bytes | ReadPayload nat bytes

text \<open>
  One poll of a read that has already taken some bytes: it takes what is available, up to what it
  needs, and is either still pending (a new \<open>reader\<close>) or done.  The second component is what it
  leaves on the stream.
\<close>

definition poll_payload :: "(bytes \<Rightarrow> 'm option) \<Rightarrow> nat \<Rightarrow> bytes \<Rightarrow> bytes \<Rightarrow> (reader + (codec_error + 'm)) \<times> bytes" where
  "poll_payload de len got avail =
     (let need = len - length got; got' = got @ take need avail; rest = drop need avail in
      if length got' < len then (Inl (ReadPayload len got'), rest) else (Inr (decode de got'), rest))"

fun poll_read :: "(bytes \<Rightarrow> 'm option) \<Rightarrow> reader \<Rightarrow> bytes \<Rightarrow> (reader + (codec_error + 'm)) \<times> bytes" where
  "poll_read de (ReadLen got) avail =
     (let need = 4 - length got; got' = got @ take need avail; rest = drop need avail in
      if length got' < 4 then (Inl (ReadLen got'), rest)
      else let len = prefix_len got' in
           (case check_message_size len of
              Inl e \<Rightarrow> (Inr (Inl e), rest)
            | Inr _ \<Rightarrow> poll_payload de len [] rest))"
| "poll_read de (ReadPayload len got) avail = poll_payload de len got avail"

text \<open>A read that is kept across polls while the bytes arrive in chunks.\<close>

fun run_reader :: "(bytes \<Rightarrow> 'm option) \<Rightarrow> reader \<Rightarrow> bytes list \<Rightarrow> (reader + (codec_error + 'm)) \<times> bytes" where
  "run_reader de rd [] = (Inl rd, [])"
| "run_reader de rd (chunk # chunks) =
     (case poll_read de rd chunk of
        (Inl rd', _) \<Rightarrow> run_reader de rd' chunks
      | (Inr res, rest) \<Rightarrow> (Inr res, rest @ concat chunks))"

text \<open>
  A read that is dropped and started afresh whenever it is pending after a poll: what a
  \<open>tokio::select!\<close> arm or a \<open>tokio::time::timeout\<close> does to \<open>read_message\<close> when another arm, or
  the timer, wins.  The bytes it had taken are gone.
\<close>

fun run_cancelled :: "(bytes \<Rightarrow> 'm option) \<Rightarrow> bytes list \<Rightarrow> (codec_error + 'm) list" where
  "run_cancelled de [] = []"
| "run_cancelled de (chunk # chunks) =
     (case poll_read de (ReadLen []) chunk of
        (Inl _, _) \<Rightarrow> run_cancelled de chunks
      | (Inr res, _) \<Rightarrow> res # run_cancelled de chunks)"

subsection \<open>Lengths\<close>

lemma unat_drop_bit_u32: "unat (drop_bit k (w :: u32)) = unat w div 2 ^ k"
  unfolding unat_drop_bit_eq by (rule drop_bit_eq_div)

lemma unat_byte: "unat (ucast (drop_bit k (w :: u32)) :: u8) = unat w div 2 ^ k mod 256"
  unfolding unsigned_ucast_eq unat_drop_bit_u32 by (simp add: take_bit_eq_mod)

lemma unat_byte0: "unat (ucast (w :: u32) :: u8) = unat w mod 256"
  unfolding unsigned_ucast_eq by (simp add: take_bit_eq_mod)

lemma four_bytes:
  fixes n :: nat
  assumes "n < 4294967296"
  shows "n mod 256 + 256 * (n div 256 mod 256) + 65536 * (n div 65536 mod 256)
     + 16777216 * (n div 16777216 mod 256) = n"
proof -
  define a b c where "a = n div 256" and "b = a div 256" and "c = b div 256"
  have divs: "n div 65536 = b" "n div 16777216 = c"
    by (simp_all add: a_def b_def c_def div_mult2_eq [symmetric])
  have "c < 256" using assms by (simp flip: divs add: div_less_iff_less_mult)
  then have "c mod 256 = c" by simp
  moreover have "256 * a + n mod 256 = n" "256 * b + a mod 256 = a" "256 * c + b mod 256 = b"
    unfolding a_def b_def c_def by (rule mult_div_mod_eq)+
  ultimately show ?thesis unfolding divs a_def [symmetric] by linarith
qed

lemma two_powers: "(2 :: nat) ^ 8 = 256" "(2 :: nat) ^ 16 = 65536" "(2 :: nat) ^ 24 = 16777216"
  by simp_all

lemma from_to_le_bytes:
  "from_le_bytes (ucast w) (ucast (drop_bit 8 w)) (ucast (drop_bit 16 w)) (ucast (drop_bit 24 w)) = (w :: u32)"
proof -
  have "unat w mod 256 + 256 * (unat w div 2 ^ 8 mod 256) + 65536 * (unat w div 2 ^ 16 mod 256)
     + 16777216 * (unat w div 2 ^ 24 mod 256) = unat w"
    using four_bytes [OF unat_u32 [of w]] by (simp only: two_powers)
  then show ?thesis
    unfolding from_le_bytes_def unat_byte unat_byte0 unat_drop_bit_u32 by (simp only: of_nat_unat ucast_id)
qed

lemma length_to_le_bytes [simp]: "length (to_le_bytes w) = 4"
  by (simp add: to_le_bytes_def)

lemma prefix_len_to_le_bytes: "prefix_len (to_le_bytes w) = unat w"
  by (simp add: prefix_len_def to_le_bytes_def from_to_le_bytes)

lemma read_length_prefix_encoded: "read_length_prefix (to_le_bytes w @ rest) = Some (w, rest)"
  by (simp add: to_le_bytes_def from_to_le_bytes)


lemma wf_prefix_length: "length xs = 4 \<Longrightarrow> \<exists>a b c d. xs = [a, b, c, d]"
  by (auto simp: length_Suc_conv numeral_eq_Suc)

lemma unat_of_payload_length:
  "length p \<le> MAX_MESSAGE_SIZE \<Longrightarrow> unat (word_of_nat (length p) :: u32) = length p"
  by (simp add: MAX_MESSAGE_SIZE_def unsigned_of_nat take_bit_eq_mod)

lemma check_message_size_ok [simp]: "check_message_size n = Inr u \<longleftrightarrow> n \<le> MAX_MESSAGE_SIZE"
  by (simp add: check_message_size_def)

lemma check_message_size_fails [simp]:
  "check_message_size n = Inl e \<longleftrightarrow> MAX_MESSAGE_SIZE < n \<and> e = TooLarge n MAX_MESSAGE_SIZE"
  by (auto simp: check_message_size_def)

lemma lift_codec_simps [simp]: "lift_codec (Inl e) = Inl (CodecErr e)" "lift_codec (Inr x) = Inr x"
  by (simp_all add: lift_codec_def)

lemma encode_Inr:
  "encode ser m = Inr enc \<longleftrightarrow>
     (\<exists>p. ser m = Some p \<and> enc = to_le_bytes (word_of_nat (length p)) @ p)"
  by (auto simp: encode_def split: option.splits)

subsection \<open>The length prefix\<close>

lemma read_message_prefix:
  "read_message de (to_le_bytes w @ rest) =
     (if MAX_MESSAGE_SIZE < unat w then Inl (CodecErr (TooLarge (unat w) MAX_MESSAGE_SIZE))
      else if length rest < unat w then Inl StreamEnded
      else res_bind (lift_codec (decode de (take (unat w) rest)))
             (\<lambda>msg. Inr (msg, drop (unat w) rest)))"
  by (simp add: read_message_def read_exact_def prefix_len_to_le_bytes check_message_size_def Let_def)

lemma read_message_encoded:
  assumes "serde_roundtrip ser de" "ser m = Some p" "length p \<le> MAX_MESSAGE_SIZE"
  shows "read_message de (to_le_bytes (word_of_nat (length p)) @ p @ rest) = Inr (m, rest)"
  using assms by (simp add: read_message_prefix unat_of_payload_length serde_roundtrip_def decode_def)

definition small_payloads :: "('m \<Rightarrow> bytes option) \<Rightarrow> 'm list \<Rightarrow> bool" where
  "small_payloads ser ms \<longleftrightarrow>
     (\<forall>m \<in> set ms. case ser m of None \<Rightarrow> True | Some p \<Rightarrow> length p \<le> MAX_MESSAGE_SIZE)"

lemma write_messages_append:
  "write_messages ser s ms = res_bind (write_messages ser [] ms) (\<lambda>u. Inr (s @ u))"
proof (induction ms arbitrary: s)
  case (Cons m ms)
  show ?case
  proof (cases "encode ser m")
    case (Inr enc)
    then show ?thesis using Cons.IH [of "s @ enc"] Cons.IH [of enc]
      by (cases "write_messages ser [] ms") (simp_all add: write_message_def)
  qed (simp add: write_message_def)
qed simp

lemma encode_nonempty: "encode ser m = Inr enc \<Longrightarrow> 4 \<le> length enc"
  by (auto simp: encode_Inr)

lemma write_messages_Cons:
  "write_messages ser [] (m # ms) = Inr s \<Longrightarrow>
     \<exists>enc u. encode ser m = Inr enc \<and> write_messages ser [] ms = Inr u \<and> s = enc @ u"
proof -
  assume s: "write_messages ser [] (m # ms) = Inr s"
  then obtain enc where enc: "encode ser m = Inr enc" and "write_messages ser enc ms = Inr s"
    by (auto simp: write_message_def res_bind_Inr)
  with write_messages_append [of ser enc ms] show ?thesis
    by (cases "write_messages ser [] ms") auto
qed

lemma read_all_fuel:
  assumes "serde_roundtrip ser de" "write_messages ser [] ms = Inr s" "small_payloads ser ms"
    "length s \<le> fuel"
  shows "read_all de fuel s = Inr ms"
  using assms(2-4)
proof (induction ms arbitrary: s fuel)
  case Nil
  then show ?case by (cases fuel) auto
next
  case (Cons m ms)
  from write_messages_Cons [OF Cons.prems(1)] obtain enc u where
    enc: "encode ser m = Inr enc" and u: "write_messages ser [] ms = Inr u" and s: "s = enc @ u" by blast
  from enc obtain p where p: "ser m = Some p" "enc = to_le_bytes (word_of_nat (length p)) @ p"
    by (auto simp: encode_Inr)
  have len: "length p \<le> MAX_MESSAGE_SIZE" and small: "small_payloads ser ms"
    using Cons.prems(2) p by (auto simp: small_payloads_def)
  have read: "read_message de s = Inr (m, u)"
    using read_message_encoded [OF assms(1) p(1) len] by (simp add: s p(2))
  obtain f where f: "fuel = Suc f" "length u \<le> f"
    using Cons.prems(3) encode_nonempty [OF enc] by (cases fuel) (auto simp: s)
  have "s \<noteq> []" using encode_nonempty [OF enc] by (auto simp: s)
  with read Cons.IH [OF u small f(2)] show ?case by (simp add: f(1))
qed


text \<open>
  C10.  Any sequence of messages written one after the other with \<open>write_message\<close> is read back by
  repeated \<open>read_message\<close> as the same messages in the same order, and the stream is then used up.
  The payloads must fit \<open>MAX_MESSAGE_SIZE\<close>: the writer does not check this, the reader does.
\<close>
theorem stream_roundtrip:
  assumes "serde_roundtrip ser de" "write_messages ser [] ms = Inr s" "small_payloads ser ms"
  shows "read_all de (length s) s = Inr ms"
  using read_all_fuel [OF assms order_refl] .

definition ser_bytes :: "bytes \<Rightarrow> bytes option" where "ser_bytes m = Some (m @ [0])"
definition de_bytes :: "bytes \<Rightarrow> bytes option" where
  "de_bytes p = (if p = [] then None else Some (butlast p))"

lemma serde_bytes: "serde_roundtrip ser_bytes de_bytes"
  by (auto simp: serde_roundtrip_def ser_bytes_def de_bytes_def)

theorem stream_roundtrip_witness:
  "let s = [3, 0, 0, 0, 7, 8, 0, 1, 0, 0, 0, 0]
   in read_all de_bytes (length s) s = Inr [[7, 8], []]"
proof -
  have "write_messages ser_bytes [] [[7, 8], []] = Inr [3, 0, 0, 0, 7, 8, 0, 1, 0, 0, 0, 0]"
    by code_simp
  moreover have "small_payloads ser_bytes [[7, 8], []]"
    by (simp add: small_payloads_def ser_bytes_def MAX_MESSAGE_SIZE_def)
  ultimately show ?thesis unfolding Let_def by (intro stream_roundtrip [OF serde_bytes])
qed

text \<open>
  An oversized length prefix is rejected with \<open>TooLarge\<close>, whatever follows it and however much
  of the body has arrived: no payload buffer is allocated and no payload byte is read.
\<close>
theorem oversized_prefix_rejected:
  assumes "MAX_MESSAGE_SIZE < unat w"
  shows "read_message de (to_le_bytes w @ rest)
           = Inl (CodecErr (TooLarge (unat w) MAX_MESSAGE_SIZE))
       \<and> poll_read de (ReadLen []) (to_le_bytes w @ rest)
           = (Inr (Inl (TooLarge (unat w) MAX_MESSAGE_SIZE)), rest)"
  using assms by (simp_all add: read_message_prefix check_message_size_def prefix_len_to_le_bytes Let_def)

theorem oversized_prefix_rejected_witness:
  "read_message de_bytes (to_le_bytes 0x4000001 @ [1]) = Inl (CodecErr (TooLarge 67108865 67108864))"
  using oversized_prefix_rejected [of "0x4000001" de_bytes "[1]"] by (simp add: MAX_MESSAGE_SIZE_def)

subsection \<open>Reads in progress\<close>

fun reader_ok :: "reader \<Rightarrow> bool" where
  "reader_ok (ReadLen got) = (length got < 4)"
| "reader_ok (ReadPayload len got) = (length got < len)"

lemma poll_payload_append:
  assumes "length got \<le> len"
  shows "poll_payload de len got (a @ b) =
     (case poll_payload de len got a of
        (Inl (ReadPayload l g), _) \<Rightarrow> poll_payload de l g b
      | (Inl (ReadLen g), _) \<Rightarrow> undefined
      | (Inr r, rest) \<Rightarrow> (Inr r, rest @ b))"
proof (cases "length (got @ a) < len")
  case True
  then have "len - length (got @ a) = len - length got - length a" "length a \<le> len - length got"
    by simp_all
  with True show ?thesis by (simp add: poll_payload_def Let_def)
next
  case False
  with assms show ?thesis by (simp add: poll_payload_def Let_def)
qed

lemma poll_payload_pending:
  "poll_payload de len got a = (Inl rd, rest) \<Longrightarrow>
     rest = [] \<and> rd = ReadPayload len (got @ a) \<and> length (got @ a) < len"
  by (auto simp: poll_payload_def Let_def split: if_splits)

lemma poll_len_pending:
  "length (got @ a) < 4 \<Longrightarrow> poll_read de (ReadLen got) a = (Inl (ReadLen (got @ a)), [])"
  by (simp add: Let_def)

lemma poll_len_done:
  "length got \<le> 4 \<Longrightarrow> 4 \<le> length (got @ a) \<Longrightarrow>
   poll_read de (ReadLen got) a =
     (let len = prefix_len (got @ take (4 - length got) a); rest = drop (4 - length got) a in
      case check_message_size len of
        Inl e \<Rightarrow> (Inr (Inl e), rest)
      | Inr _ \<Rightarrow> poll_payload de len [] rest)"
  by (simp add: Let_def)

lemma poll_read_pending:
  assumes "poll_read de rd a = (Inl rd', rest)"
  shows "rest = [] \<and> reader_ok rd'"
  using assms
  by (cases rd) (auto simp: Let_def split: if_splits sum.splits dest: poll_payload_pending)

lemma poll_read_append:
  assumes "reader_ok rd"
  shows "poll_read de rd (a @ b) =
     (case poll_read de rd a of
        (Inl rd', _) \<Rightarrow> poll_read de rd' b
      | (Inr r, rest) \<Rightarrow> (Inr r, rest @ b))"
proof (cases rd)
  case (ReadPayload len got)
  with assms poll_payload_append [of got len de a b] show ?thesis
    by (auto split: prod.splits sum.splits reader.splits dest: poll_payload_pending)
next
  case (ReadLen got)
  show ?thesis
  proof (cases "length (got @ a) < 4")
    case True
    then have pending: "poll_read de (ReadLen got) a = (Inl (ReadLen (got @ a)), [])"
      by (rule poll_len_pending)
    show ?thesis
    proof (cases "length (got @ a @ b) < 4")
      case False
      from True have rest: "take (4 - length got) (a @ b) = a @ take (4 - length (got @ a)) b"
        "drop (4 - length got) (a @ b) = drop (4 - length (got @ a)) b" by simp_all
      have "length got \<le> 4" "4 \<le> length (got @ a @ b)" "length (got @ a) \<le> 4"
        "4 \<le> length ((got @ a) @ b)" using True False by simp_all
      then show ?thesis
        unfolding ReadLen pending by (simp only: poll_len_done rest prod.case sum.case append_assoc)
    qed (unfold ReadLen pending, simp add: poll_len_pending del: poll_read.simps)
  next
    case False
    then have len: "length got \<le> 4" "4 \<le> length (got @ a)" "4 \<le> length (got @ a @ b)"
      using assms ReadLen by simp_all
    have rest: "take (4 - length got) (a @ b) = take (4 - length got) a"
      "drop (4 - length got) (a @ b) = drop (4 - length got) a @ b" using False by simp_all
    define l where "l = prefix_len (got @ take (4 - length got) a)"
    define r where "r = drop (4 - length got) a"
    show ?thesis
      unfolding ReadLen poll_len_done [OF len(1,2)] poll_len_done [OF len(1,3)] rest Let_def
      unfolding l_def [symmetric] r_def [symmetric]
      using poll_payload_append [of "[]" l de r b]
      by (auto split: prod.splits sum.splits reader.splits dest: poll_payload_pending)
  qed
qed

lemma poll_read_nothing: "reader_ok rd \<Longrightarrow> poll_read de rd [] = (Inl rd, [])"
  by (cases rd) (simp_all add: poll_payload_def)

lemma run_reader_one_poll:
  "reader_ok rd \<Longrightarrow> run_reader de rd chunks = poll_read de rd (concat chunks)"
proof (induction chunks arbitrary: rd)
  case Nil
  then show ?case by (simp add: poll_read_nothing)
next
  case (Cons c cs)
  show ?case
    using Cons.IH poll_read_append [OF Cons.prems, of de c "concat cs"]
    by (auto split: prod.splits sum.splits dest: poll_read_pending)
qed

definition finished_read :: "(reader + (codec_error + 'm)) \<times> bytes \<Rightarrow> read_error + ('m \<times> bytes)" where
  "finished_read r =
     (case r of (Inl _, _) \<Rightarrow> Inl StreamEnded
      | (Inr (Inl e), _) \<Rightarrow> Inl (CodecErr e)
      | (Inr (Inr m), rest) \<Rightarrow> Inr (m, rest))"

lemma read_message_one_poll: "read_message de s = finished_read (poll_read de (ReadLen []) s)"
proof (cases "length s < 4")
  case True
  then show ?thesis by (simp add: read_message_def read_exact_def finished_read_def)
next
  case False
  then show ?thesis
    by (cases "decode de (take (prefix_len (take 4 s)) (drop 4 s))")
       (auto simp: read_message_def read_exact_def finished_read_def check_message_size_def
          poll_payload_def Let_def)
qed


text \<open>
  A read that is restarted when another branch of the surrounding \<open>select!\<close> (or a timer) wins
  is not such a read: a message whose last one, two or three bytes arrive late is delivered by the
  read that is kept, and lost by the one that is restarted.
\<close>
theorem restarted_read_loses_message:
  assumes "serde_roundtrip ser de" "ser m = Some p" "length p \<le> MAX_MESSAGE_SIZE"
    and "to_le_bytes (word_of_nat (length p)) @ p = early @ late" "late \<noteq> []" "length late < 4"
  shows "run_reader de (ReadLen []) [early, late] = (Inr (Inr m), [])
       \<and> run_cancelled de [early, late] = []"
proof -
  have read: "read_message de (early @ late) = Inr (m, [])"
    using read_message_encoded [OF assms(1-3), of "[]"] assms(4) by simp
  have kept: "run_reader de (ReadLen []) [early, late] = poll_read de (ReadLen []) (early @ late)"
    using run_reader_one_poll [of "ReadLen []" de "[early, late]"]
    by (simp del: run_reader.simps poll_read.simps)
  have ended: "read_message de early = Inl StreamEnded"
  proof -
    show ?thesis
    proof (cases "length early < 4")
      case False
      then have "length early = 4 + length (drop 4 early)" by simp
      moreover have "early = to_le_bytes (word_of_nat (length p)) @ drop 4 early"
        using assms(4) False append_take_drop_id [of 4 early]
        unfolding append_eq_append_conv_if length_to_le_bytes by (metis not_less)
      moreover have "length early < 4 + length p"
        using arg_cong [OF assms(4), of length] assms(5) by (cases late) auto
      ultimately show ?thesis
        using read_message_prefix [of de "word_of_nat (length p)" "drop 4 early"]
          unat_of_payload_length [OF assms(3)] assms(3) by simp
    qed (simp add: read_message_def read_exact_def)
  qed
  then obtain rd where "poll_read de (ReadLen []) early = (Inl rd, [])"
    unfolding read_message_one_poll finished_read_def
    by (auto split: prod.splits sum.splits dest: poll_read_pending simp del: poll_read.simps)
  moreover have "poll_read de (ReadLen []) late = (Inl (ReadLen late), [])"
    using assms(6) by simp
  ultimately have "run_cancelled de [early, late] = []" by (simp del: poll_read.simps)
  moreover have "poll_read de (ReadLen []) (early @ late) = (Inr (Inr m), [])"
    using read unfolding read_message_one_poll finished_read_def
    by (auto split: prod.splits sum.splits simp del: poll_read.simps)
  ultimately show ?thesis using kept by simp
qed

theorem restarted_read_loses_message_witness:
  "run_cancelled de_bytes [[3, 0, 0, 0, 7], [8, 0]] = []"
  using restarted_read_loses_message [OF serde_bytes, of "[7, 8]" "[7, 8, 0]" "[3, 0, 0, 0, 7]" "[8, 0]"]
  by (simp add: ser_bytes_def to_le_bytes_def MAX_MESSAGE_SIZE_def)

end
