(* ===== verification/AdminProtocol.thy ===== *)
theory AdminProtocol
  imports Prelude
begin

text \<open>
  The admin control protocol (\<open>crates/wayray-protocol/src/admin.rs\<close>): requests, responses and the
  redaction of session tokens.  A \<open>String\<close> is its UTF-8 bytes; \<open>str::chars\<close> cuts it before every
  byte that is not a continuation byte.
\<close>

definition default_admin_socket_path :: "string option \<Rightarrow> string" where
  "default_admin_socket_path xdg_runtime_dir =
     path_join (case xdg_runtime_dir of None \<Rightarrow> ''/tmp'' | Some d \<Rightarrow> d) ''wrsrvd-admin.sock''"

definition TOKEN_PREFIX_LEN :: nat where "TOKEN_PREFIX_LEN = 8"

definition is_utf8_cont :: "char \<Rightarrow> bool" where
  "is_utf8_cont c \<longleftrightarrow> 128 \<le> (of_char c :: nat) \<and> (of_char c :: nat) < 192"

text \<open>The characters of a UTF-8 string, each as its bytes.\<close>

function str_chars :: "string \<Rightarrow> string list" where
  "str_chars [] = []"
| "str_chars (c # cs) = (c # takeWhile is_utf8_cont cs) # str_chars (dropWhile is_utf8_cont cs)"
  by pat_completeness auto
termination
  by (relation "measure length") (auto simp: le_imp_less_Suc length_dropWhile_le)

definition ellipsis :: string where
  "ellipsis = [char_of (226 :: nat), char_of (128 :: nat), char_of (166 :: nat)]"

definition redact_token :: "string \<Rightarrow> string" where
  "redact_token token =
     (let prefix = concat (take TOKEN_PREFIX_LEN (str_chars token)) in
      if TOKEN_PREFIX_LEN < length (str_chars token) then prefix @ ellipsis else prefix)"

datatype admin_request = ListSessions | ServerStatusReq

record session_entry =
  se_id :: "64 word"
  se_token_prefix :: string
  se_user :: "string option"
  se_state :: string
  se_created_at_epoch_secs :: nat
  se_last_active_epoch_secs :: nat
  se_uptime_secs :: nat
  se_client_addr :: "string option"

record session_counts =
  sc_creating :: nat
  sc_active :: nat
  sc_suspended :: nat
  sc_destroyed :: nat

definition session_counts_default :: session_counts where
  "session_counts_default = \<lparr> sc_creating = 0, sc_active = 0, sc_suspended = 0, sc_destroyed = 0 \<rparr>"

record server_status =
  ss_version :: string
  ss_uptime_secs :: nat
  ss_sessions :: session_counts
  ss_cluster_peers :: nat

datatype admin_response =
    SessionList "session_entry list"
  | ServerStatus server_status
  | AdminError string

subsection \<open>Redaction\<close>

lemma concat_str_chars [simp]: "concat (str_chars s) = s"
  by (induction s rule: str_chars.induct) simp_all

lemma str_chars_ascii: "(\<forall>c \<in> set s. \<not> is_utf8_cont c) \<Longrightarrow> str_chars s = map (\<lambda>c. [c]) s"
proof (induction s)
  case (Cons c s)
  then have "takeWhile is_utf8_cont s = []" "dropWhile is_utf8_cont s = s"
    by (cases s; simp)+
  with Cons show ?case by simp
qed simp

text \<open>The text that follows the prefix, the part of a long token that redaction hides.\<close>

definition hidden_part :: "string \<Rightarrow> string" where
  "hidden_part token = concat (drop TOKEN_PREFIX_LEN (str_chars token))"

lemma prefix_hidden:
  "concat (take TOKEN_PREFIX_LEN (str_chars token)) @ hidden_part token = token"
  unfolding hidden_part_def concat_append [symmetric] by simp

text \<open>
  Redaction shows the first eight characters of a token and nothing else: two tokens that agree
  on them, and are both longer, are shown alike, however their hidden parts differ; only a token
  of at most eight characters is shown whole.
\<close>
theorem redact_token_hides:
  assumes "take 8 (str_chars a) = take 8 (str_chars b)"
    and "8 < length (str_chars a)" "8 < length (str_chars b)"
  shows "redact_token a = redact_token b
       \<and> redact_token a @ hidden_part a \<noteq> a
       \<and> (length (str_chars c) \<le> 8 \<longrightarrow> redact_token c = c)"
proof -
  have "redact_token a = concat (take TOKEN_PREFIX_LEN (str_chars a)) @ ellipsis"
    using assms(2) by (simp add: redact_token_def TOKEN_PREFIX_LEN_def Let_def)
  then have "length (redact_token a @ hidden_part a) = 3 + length a"
    using arg_cong [OF prefix_hidden [of a], of length] by (simp add: ellipsis_def)
  then have "redact_token a @ hidden_part a \<noteq> a" by (metis add_cancel_left_left numeral_eq_iff zero_neq_numeral)
  with assms show ?thesis by (simp add: redact_token_def TOKEN_PREFIX_LEN_def Let_def)
qed

theorem redact_token_hides_witness:
  "redact_token ''abcdefgh-secret-1'' = redact_token ''abcdefgh-other''"
proof -
  have "str_chars ''abcdefgh-secret-1'' = map (\<lambda>c. [c]) ''abcdefgh-secret-1''"
    "str_chars ''abcdefgh-other'' = map (\<lambda>c. [c]) ''abcdefgh-other''"
    by (rule str_chars_ascii, simp add: is_utf8_cont_def)+
  then show ?thesis by (intro redact_token_hides [THEN conjunct1]) simp_all
qed

end
