(* ===== verification/Messages.thy ===== *)
theory Messages
  imports Encoding
begin

text \<open>
  The wire messages of \<open>crates/wayray-protocol/src/messages.rs\<close> and the version rule of
  \<open>lib.rs\<close>, with the clipboard helpers both sides call.  The Rust structs with named fields are
  records, the enums are datatypes with the constructors of the source.  The \<open>f64\<close> pointer
  coordinates are carried, never computed with, except for the test against zero: they are
  rationals here (NaN, the infinities and the sign of zero are not modelled).
\<close>

unbundle bit_operations_syntax

type_synonym f64 = rat

subsection \<open>Protocol versions (\<open>lib.rs\<close>)\<close>

definition PROTOCOL_VERSION :: u32 where
  "PROTOCOL_VERSION = 2"

definition MIN_PROTOCOL_VERSION :: u32 where
  "MIN_PROTOCOL_VERSION = 1"

definition version_compatible :: "u32 \<Rightarrow> bool" where
  "version_compatible peer_version \<longleftrightarrow>
     MIN_PROTOCOL_VERSION \<le> peer_version \<and> peer_version \<le> PROTOCOL_VERSION"

definition close_code_VERSION_MISMATCH :: u32 where
  "close_code_VERSION_MISMATCH = 1"

subsection \<open>Capabilities\<close>

definition cap_DISPLAY :: string where "cap_DISPLAY = ''display''"
definition cap_CLIPBOARD :: string where "cap_CLIPBOARD = ''clipboard''"
definition cap_AUDIO :: string where "cap_AUDIO = ''audio''"

subsection \<open>Control channel\<close>

record client_hello =
  ch_version :: u32
  ch_capabilities :: "string list"
  ch_token :: "string option"

record server_hello =
  sh_version :: u32
  sh_session_id :: u64
  sh_output_width :: u32
  sh_output_height :: u32
  sh_resumed :: bool
  sh_token :: string

datatype session_status = StCreating | StActive | StResuming

datatype session_event =
    StateChanged u64 session_status
  | Suspending u64
  | SessionDestroyed u64
  | Resumed u64
  | Redirected string string

record server_info_msg =
  si_server_id :: string
  si_active_sessions :: u32
  si_capacity :: u32

record session_lookup_response =
  sl_server_id :: string
  sl_hosts :: bool

datatype protocol_error_code = VersionMismatch | OtherError

record protocol_error =
  pe_code :: protocol_error_code
  pe_reason :: string

record clipboard_offer =
  co_mime_types :: "string list"

record clipboard_data =
  cd_mime_type :: string
  cd_data :: bytes

datatype control_message =
    ClientHello client_hello
  | ServerHello server_hello
  | Ping u64
  | Pong u64
  | FrameAck u64
  | SessionEvent session_event
  | ServerInfoRequest string
  | ServerInfo server_info_msg
  | SessionLookupRequest string string
  | SessionLookupResponse session_lookup_response
  | RequestKeyframe
  | SessionRedirect string string
  | ProtocolError protocol_error
  | ClipboardOffer clipboard_offer
  | ClipboardData clipboard_data

subsection \<open>Display, audio and input channels\<close>

record frame_update =
  fu_sequence :: u64
  fu_regions :: "damage_region list"
  fu_checksum :: u32

datatype display_message = FrameUpdate frame_update

datatype audio_codec = PcmS16Le | Opus

record audio_start =
  as_sample_rate :: u32
  as_channels :: u8
  as_codec :: audio_codec

record audio_chunk =
  ac_pts_micros :: u64
  ac_payload :: bytes

datatype audio_message = AudioStart audio_start | AudioChunk audio_chunk | AudioStop

datatype key_state = KeyPressed | KeyReleased
datatype button_state = ButtonPressed | ButtonReleased
datatype axis = Horizontal | Vertical

record keyboard_event =
  ke_keycode :: u32
  ke_state :: key_state
  ke_time :: u32

record pointer_motion =
  pm_x :: f64
  pm_y :: f64
  pm_time :: u32

record pointer_button =
  pb_button :: u32
  pb_state :: button_state
  pb_time :: u32

record pointer_axis =
  pa_axis :: axis
  pa_value :: f64
  pa_time :: u32

datatype input_message =
    Keyboard keyboard_event
  | PointerMotion pointer_motion
  | PointerButton pointer_button
  | PointerAxis pointer_axis

subsection \<open>Clipboard helpers\<close>

definition MAX_CLIPBOARD_DATA :: nat where
  "MAX_CLIPBOARD_DATA = 1024 * 1024"

definition to_ascii_lowercase_char :: "char \<Rightarrow> char" where
  "to_ascii_lowercase_char c =
     (let n = of_char c :: nat in if 65 \<le> n \<and> n \<le> 90 then char_of (n + 32) else c)"

definition to_ascii_lowercase :: "string \<Rightarrow> string" where
  "to_ascii_lowercase s = map to_ascii_lowercase_char s"

definition eq_ignore_ascii_case :: "string \<Rightarrow> string \<Rightarrow> bool" where
  "eq_ignore_ascii_case a b \<longleftrightarrow> to_ascii_lowercase a = to_ascii_lowercase b"

definition starts_with :: "string \<Rightarrow> string \<Rightarrow> bool" where
  "starts_with s p \<longleftrightarrow> take (length p) s = p"

definition PREFERRED :: "string list" where
  "PREFERRED = [''text/plain;charset=utf-8'', ''UTF8_STRING'', ''text/plain'']"

text \<open>The loop over \<open>PREFERRED\<close> returns the first offered type equal to the wanted one.\<close>

fun find_preferred :: "string list \<Rightarrow> string list \<Rightarrow> string option" where
  "find_preferred offered [] = None"
| "find_preferred offered (want # wants) =
     (case iter_find (\<lambda>m. eq_ignore_ascii_case m want) offered of
        Some m \<Rightarrow> Some m
      | None \<Rightarrow> find_preferred offered wants)"

definition preferred_mime_type :: "string list \<Rightarrow> string option" where
  "preferred_mime_type offered =
     (case find_preferred offered PREFERRED of
        Some m \<Rightarrow> Some m
      | None \<Rightarrow>
          (case iter_find (\<lambda>m. starts_with (to_ascii_lowercase m) ''text/'') offered of
             Some m \<Rightarrow> Some m
           | None \<Rightarrow> (case offered of [] \<Rightarrow> None | m # _ \<Rightarrow> Some m)))"

definition is_text_mime :: "string \<Rightarrow> bool" where
  "is_text_mime mime \<longleftrightarrow>
     (let lower = to_ascii_lowercase mime in
      starts_with lower ''text/'' \<or> lower = ''utf8_string'' \<or> lower = ''string'' \<or> lower = ''text'')"

definition TEXT_OFFERS :: "string list" where
  "TEXT_OFFERS = [''text/plain;charset=utf-8'', ''text/plain'', ''UTF8_STRING'', ''STRING'', ''TEXT'']"

definition clipboard_offer_mimes :: "string \<Rightarrow> string list" where
  "clipboard_offer_mimes mime =
     (if is_text_mime mime then
        (if list_ex (\<lambda>m. eq_ignore_ascii_case m mime) TEXT_OFFERS then TEXT_OFFERS else mime # TEXT_OFFERS)
      else [mime])"

text \<open>
  The \<open>while let Some(&last) = data.last()\<close> loop of \<open>cap_clipboard_payload\<close>, on the reversed
  buffer: continuation bytes are popped, then a leading byte of a multi-byte sequence.
\<close>

definition is_continuation :: "u8 \<Rightarrow> bool" where
  "is_continuation b \<longleftrightarrow> b AND 0xC0 = 0x80"

fun pop_split_char :: "bytes \<Rightarrow> bytes" where
  "pop_split_char [] = []"
| "pop_split_char (b # before) =
     (if is_continuation b then pop_split_char before
      else if 0x80 \<le> b then before else b # before)"

definition cap_clipboard_payload :: "bytes \<Rightarrow> string \<Rightarrow> bytes \<times> bool" where
  "cap_clipboard_payload data mime =
     (if length data \<le> MAX_CLIPBOARD_DATA then (data, False)
      else let cut = take MAX_CLIPBOARD_DATA data in
           (if is_text_mime mime then rev (pop_split_char (rev cut)) else cut, True))"

subsection \<open>UTF-8\<close>

text \<open>One well-formed UTF-8 sequence (Unicode, table 3-7), the bytes of one \<open>char\<close>.\<close>

fun utf8_char :: "bytes \<Rightarrow> bool" where
  "utf8_char [a] = (a < 0x80)"
| "utf8_char [a, b] = (0xC2 \<le> a \<and> a \<le> 0xDF \<and> is_continuation b)"
| "utf8_char [a, b, c] = (is_continuation b \<and> is_continuation c \<and>
     (a = 0xE0 \<and> 0xA0 \<le> b \<or> 0xE1 \<le> a \<and> a \<le> 0xEC \<or> a = 0xED \<and> b \<le> 0x9F \<or> 0xEE \<le> a \<and> a \<le> 0xEF))"
| "utf8_char [a, b, c, d] = (is_continuation b \<and> is_continuation c \<and> is_continuation d \<and>
     (a = 0xF0 \<and> 0x90 \<le> b \<or> 0xF1 \<le> a \<and> a \<le> 0xF3 \<or> a = 0xF4 \<and> b \<le> 0x8F))"
| "utf8_char _ = False"

lemma is_continuation_range: "is_continuation b \<longleftrightarrow> 0x80 \<le> b \<and> b < 0xC0"
proof -
  have all: "list_all (\<lambda>n. is_continuation (of_nat n) \<longleftrightarrow> 0x80 \<le> (of_nat n :: u8) \<and> (of_nat n :: u8) < 0xC0) [0..<256]"
    by code_simp
  have "unat b \<in> set [0..<256]" using unat_u8 [of b] by simp
  with all have "is_continuation (of_nat (unat b)) \<longleftrightarrow>
      0x80 \<le> (of_nat (unat b) :: u8) \<and> (of_nat (unat b) :: u8) < 0xC0"
    by (simp only: list_all_iff)
  then show ?thesis by simp
qed

text \<open>The shape of a character: a leading byte and at most three continuation bytes.\<close>

lemma utf8_char_shape:
  assumes "utf8_char c"
  shows "\<exists>a cs. c = a # cs \<and> length cs \<le> 3 \<and> list_all is_continuation cs \<and> \<not> is_continuation a
    \<and> (if cs = [] then a < 0x80 else 0x80 \<le> a)"
  using assms
  by (cases c rule: utf8_char.cases)
     (auto simp: is_continuation_range not_less not_le word_less_nat_alt word_le_nat_alt)

subsection \<open>Truncation keeps whole characters\<close>

lemma pop_continuations: "list_all is_continuation ks \<Longrightarrow> pop_split_char (ks @ xs) = pop_split_char xs"
  by (induction ks) auto

lemma take_concat:
  "\<exists>j p. j \<le> length cs \<and> take n (concat cs) = concat (take j cs) @ p \<and>
     (p = [] \<or> (j < length cs \<and> (\<exists>q. q \<noteq> [] \<and> cs ! j = p @ q)))"
proof (induction cs arbitrary: n)
  case Nil
  then show ?case by simp
next
  case (Cons c cs)
  show ?case
  proof (cases "n < length c")
    case True
    then have "(c # cs) ! 0 = take n c @ drop n c" "drop n c \<noteq> []" by simp_all
    then have "\<exists>q. q \<noteq> [] \<and> (c # cs) ! 0 = take n c @ q" by blast
    moreover have "take n (concat (c # cs)) = concat (take 0 (c # cs)) @ take n c" using True by simp
    ultimately show ?thesis by (metis length_greater_0_conv list.discI zero_le)
  next
    case False
    obtain j p where "j \<le> length cs" "take (n - length c) (concat cs) = concat (take j cs) @ p"
      "p = [] \<or> (j < length cs \<and> (\<exists>q. q \<noteq> [] \<and> cs ! j = p @ q))"
      using Cons.IH by blast
    with False show ?thesis by (intro exI [of _ "Suc j"] exI [of _ p]) auto
  qed
qed

lemma pop_split_prefix:
  assumes "utf8_char (p @ q)" and "p \<noteq> []" and "q \<noteq> []"
  shows "pop_split_char (rev p @ xs) = xs"
proof -
  obtain a cs where c: "p @ q = a # cs" "list_all is_continuation cs" "\<not> is_continuation a"
    "if cs = [] then a < 0x80 else 0x80 \<le> a"
    using utf8_char_shape [OF assms(1)] by blast
  then obtain ks where p: "p = a # ks" and ks: "cs = ks @ q"
    using assms(2) by (cases p) auto
  then have "list_all is_continuation (rev ks)" "cs \<noteq> []" using c(2) assms(3) by auto
  with c p show ?thesis by (simp add: pop_continuations)
qed

lemma pop_split_full:
  assumes "utf8_char c"
  shows "pop_split_char (rev c @ xs) = xs \<or> (length c = 1 \<and> pop_split_char (rev c @ xs) = rev c @ xs)"
proof -
  obtain a cs where c: "c = a # cs" "list_all is_continuation cs" "\<not> is_continuation a"
    "if cs = [] then a < 0x80 else 0x80 \<le> a"
    using utf8_char_shape [OF assms] by blast
  then have "list_all is_continuation (rev cs)" by simp
  with c show ?thesis by (cases "cs = []") (auto simp: pop_continuations not_le)
qed

lemma length_utf8_char: "utf8_char c \<Longrightarrow> length c \<le> 4"
  using utf8_char_shape by fastforce

lemma pop_split_whole:
  assumes cs: "\<forall>c \<in> set cs. utf8_char c"
  shows "\<exists>k. rev (pop_split_char (rev (take n (concat cs)))) = concat (take k cs)
    \<and> length (take n (concat cs)) \<le> length (concat (take k cs)) + 4"
proof -
  obtain j p where j: "j \<le> length cs" and t: "take n (concat cs) = concat (take j cs) @ p"
    and p: "p = [] \<or> (j < length cs \<and> (\<exists>q. q \<noteq> [] \<and> cs ! j = p @ q))"
    using take_concat [of cs n] by blast
  show ?thesis
  proof (cases "p = []")
    case False
    with p obtain q where q: "q \<noteq> []" "cs ! j = p @ q" and jl: "j < length cs" by auto
    then have u: "utf8_char (p @ q)" using cs nth_mem [OF jl] by simp
    then have "pop_split_char (rev p @ rev (concat (take j cs))) = rev (concat (take j cs))"
      using pop_split_prefix False q by blast
    moreover have "length p \<le> 4" using length_utf8_char [OF u] by simp
    ultimately show ?thesis using t by (intro exI [of _ j]) simp
  next
    case True
    show ?thesis
    proof (cases j)
      case 0
      with True t have "take n (concat cs) = []" by simp
      then show ?thesis by (intro exI [of _ 0]) (simp only: rev.simps pop_split_char.simps, simp)
    next
      case (Suc i)
      then have i: "i < length cs" using j by simp
      then have tk: "take j cs = take i cs @ [cs ! i]" using Suc by (simp add: take_Suc_conv_app_nth)
      have u: "utf8_char (cs ! i)" using cs i by simp
      have len: "length (cs ! i) \<le> 4" by (rule length_utf8_char [OF u])
      from pop_split_full [OF u, of "rev (concat (take i cs))"] show ?thesis
      proof
        assume "pop_split_char (rev (cs ! i) @ rev (concat (take i cs))) = rev (concat (take i cs))"
        then show ?thesis using t True tk len by (intro exI [of _ i]) simp
      next
        assume "length (cs ! i) = 1 \<and>
          pop_split_char (rev (cs ! i) @ rev (concat (take i cs))) = rev (cs ! i) @ rev (concat (take i cs))"
        then show ?thesis using t True tk by (intro exI [of _ j]) simp
      qed
    qed
  qed
qed


lemma concat_replicate_single: "concat (replicate n [x]) = replicate n x"
  by (induction n) auto



lemma find_preferred_Some:
  "find_preferred offered wants = Some m \<Longrightarrow>
     m \<in> set offered \<and> (\<exists>w \<in> set wants. eq_ignore_ascii_case m w)"
  by (induction wants) (auto split: option.splits simp: find_Some_iff)

lemma find_preferred_None:
  "find_preferred offered wants = None \<longleftrightarrow>
     (\<forall>m \<in> set offered. \<forall>w \<in> set wants. \<not> eq_ignore_ascii_case m w)"
  by (induction wants) (auto split: option.splits simp: find_None_iff find_Some_iff)

lemma PREFERRED_text:
  assumes "w \<in> set PREFERRED" and "eq_ignore_ascii_case m w"
  shows "is_text_mime m"
proof -
  have "list_all is_text_mime PREFERRED" by code_simp
  with assms(1) have "is_text_mime w" by (simp only: list_all_iff)
  with assms(2) show ?thesis by (simp add: is_text_mime_def eq_ignore_ascii_case_def)
qed

definition offers_preferred_text :: "string \<Rightarrow> bool" where
  "offers_preferred_text m \<longleftrightarrow>
     starts_with (to_ascii_lowercase m) ''text/'' \<or> to_ascii_lowercase m = ''utf8_string''"

lemma find_some_iff_ex: "(\<exists>m. iter_find P xs = Some m) \<longleftrightarrow> (\<exists>m \<in> set xs. P m)"
  using find_None_iff [of P xs] by (cases "iter_find P xs") auto

text \<open>
  Choosing the clipboard type: the mime type picked from an offer is one of the offered types;
  nothing is picked only from an empty offer, and when any offered type is text the picked one is
  text.
\<close>
theorem preferred_mime_type_choice:
  "(preferred_mime_type offered = None \<longleftrightarrow> offered = [])
   \<and> (\<forall>m. preferred_mime_type offered = Some m \<longrightarrow> m \<in> set offered)
   \<and> ((\<exists>m \<in> set offered. offers_preferred_text m) \<longrightarrow>
        (\<exists>m. preferred_mime_type offered = Some m \<and> is_text_mime m))"
proof (cases "find_preferred offered PREFERRED")
  case (Some p)
  then show ?thesis
    using find_preferred_Some [OF Some] PREFERRED_text by (auto simp: preferred_mime_type_def)
next
  case None
  have utf8: "\<not> (to_ascii_lowercase m = ''utf8_string'')" if "m \<in> set offered" for m
  proof -
    have "''UTF8_STRING'' \<in> set PREFERRED" by (simp add: PREFERRED_def)
    with None that have "\<not> eq_ignore_ascii_case m ''UTF8_STRING''"
      by (metis find_preferred_None)
    moreover have "to_ascii_lowercase ''UTF8_STRING'' = ''utf8_string''" by code_simp
    ultimately show ?thesis by (simp add: eq_ignore_ascii_case_def)
  qed
  show ?thesis
  proof (cases "iter_find (\<lambda>m. starts_with (to_ascii_lowercase m) ''text/'') offered")
    case (Some t)
    then have "t \<in> set offered" "starts_with (to_ascii_lowercase t) ''text/''"
      by (auto simp: find_Some_iff)
    then show ?thesis
      using Some \<open>find_preferred offered PREFERRED = None\<close>
      by (auto simp: preferred_mime_type_def is_text_mime_def Let_def)
  next
    case None
    with utf8 have "\<not> (\<exists>m \<in> set offered. offers_preferred_text m)"
      by (auto simp: find_None_iff offers_preferred_text_def)
    with None \<open>find_preferred offered PREFERRED = None\<close> show ?thesis
      by (auto simp: preferred_mime_type_def split: list.splits)
  qed
qed

theorem preferred_mime_type_choice_witness:
  "\<exists>m. preferred_mime_type [''image/png'', ''text/html''] = Some m \<and> is_text_mime m"
proof -
  have "\<exists>m \<in> set [''image/png'', ''text/html'']. offers_preferred_text m"
    by (simp add: offers_preferred_text_def to_ascii_lowercase_def to_ascii_lowercase_char_def
      starts_with_def)
  with preferred_mime_type_choice [of "[''image/png'', ''text/html'']"] show ?thesis by blast
qed

end
