(* ===== verification/RustStr.thy ===== *)
theory RustStr
  imports AdminProtocol Messages
begin

text \<open>
  The methods of \<open>str\<close> that the configuration and pin-store code uses: \<open>trim\<close>, \<open>strip_prefix\<close>,
  \<open>split_once\<close> and \<open>lines\<close>.  A string is its UTF-8 bytes and \<open>str_chars\<close> its characters, so that
  \<open>char::is_whitespace\<close> can be the Unicode property the standard library documents.
\<close>

definition utf8 :: "nat list \<Rightarrow> string" where
  "utf8 ns = map char_of ns"

text \<open>\<open>char::is_whitespace\<close>: the code points of Unicode's White\_Space property, in UTF-8.\<close>

definition whitespace :: "string list" where
  "whitespace = map utf8
     ([[9], [10], [11], [12], [13], [32], [194, 133], [194, 160], [225, 154, 128]]
      @ map (\<lambda>n. [226, 128, n]) [128..<139]
      @ [[226, 128, 168], [226, 128, 169], [226, 128, 175], [226, 129, 159], [227, 128, 128]])"

definition is_whitespace :: "string \<Rightarrow> bool" where
  "is_whitespace c \<longleftrightarrow> c \<in> set whitespace"

definition trim_end_chars :: "string list \<Rightarrow> string list" where
  "trim_end_chars cs = rev (dropWhile is_whitespace (rev cs))"

definition trim :: "string \<Rightarrow> string" where
  "trim s = concat (trim_end_chars (dropWhile is_whitespace (str_chars s)))"

definition strip_prefix :: "string \<Rightarrow> string \<Rightarrow> string option" where
  "strip_prefix p s = (if starts_with s p then Some (drop (length p) s) else None)"

text \<open>\<open>split_once(char::is_whitespace)\<close>: the text before and after the first white space.\<close>

definition split_once_whitespace :: "string \<Rightarrow> (string \<times> string) option" where
  "split_once_whitespace s =
     (case dropWhile (\<lambda>c. \<not> is_whitespace c) (str_chars s) of
        [] \<Rightarrow> None
      | c # rest \<Rightarrow> Some (concat (takeWhile (\<lambda>c. \<not> is_whitespace c) (str_chars s)), concat rest))"

definition newline :: char where "newline = char_of (10 :: nat)"
definition carriage_return :: char where "carriage_return = char_of (13 :: nat)"

definition strip_cr :: "string \<Rightarrow> string" where
  "strip_cr l = (if l \<noteq> [] \<and> List.last l = carriage_return then butlast l else l)"

text \<open>\<open>str::lines\<close>: a final line without a newline is kept as it is, an empty one is none.\<close>

function str_lines :: "string \<Rightarrow> string list" where
  "str_lines s =
     (if s = [] then []
      else if newline \<in> set s
      then strip_cr (takeWhile (\<lambda>c. c \<noteq> newline) s) # str_lines (tl (dropWhile (\<lambda>c. c \<noteq> newline) s))
      else [s])"
  by pat_completeness auto
termination
proof (relation "measure length")
  fix s :: string
  assume "s \<noteq> []"
  then show "(tl (dropWhile (\<lambda>c. c \<noteq> newline) s), s) \<in> measure length"
    using length_dropWhile_le [of "\<lambda>c. c \<noteq> newline" s]
    by (cases s) (auto simp: less_Suc_eq_le intro: le_trans [OF diff_le_self] le_trans [OF length_dropWhile_le])
qed simp

declare str_lines.simps [simp del]

subsection \<open>Characters of a concatenation\<close>

definition char_start :: "string \<Rightarrow> bool" where
  "char_start s \<longleftrightarrow> s = [] \<or> \<not> is_utf8_cont (hd s)"

lemma takeWhile_start: "char_start t \<Longrightarrow> takeWhile is_utf8_cont t = []" "char_start t \<Longrightarrow> dropWhile is_utf8_cont t = t"
  by (cases t; simp add: char_start_def)+

lemma str_chars_append: "char_start t \<Longrightarrow> str_chars (s @ t) = str_chars s @ str_chars t"
proof (induction s rule: str_chars.induct)
  case (2 c cs)
  show ?case
  proof (cases "\<forall>x \<in> set cs. is_utf8_cont x")
    case True
    then have cs: "takeWhile is_utf8_cont (cs @ t) = cs @ takeWhile is_utf8_cont t"
      "dropWhile is_utf8_cont (cs @ t) = dropWhile is_utf8_cont t"
      "takeWhile is_utf8_cont cs = cs" "dropWhile is_utf8_cont cs = []"
      by (simp_all add: takeWhile_append2 dropWhile_append2)
    show ?thesis by (simp only: append_Cons str_chars.simps cs takeWhile_start [OF 2(2)]) simp
  next
    case False
    then obtain x where x: "x \<in> set cs" "\<not> is_utf8_cont x" by blast
    then have "takeWhile is_utf8_cont (cs @ t) = takeWhile is_utf8_cont cs"
      "dropWhile is_utf8_cont (cs @ t) = dropWhile is_utf8_cont cs @ t"
      by (auto simp: takeWhile_append1 dropWhile_append1)
    with 2 show ?thesis by simp
  qed
qed simp

lemma is_whitespace_ascii:
  "is_whitespace [char_of (32 :: nat)]" "is_whitespace [char_of (10 :: nat)]"
  by (auto simp: is_whitespace_def whitespace_def utf8_def)

text \<open>
  A word: no white space in it, and it starts with a whole character.  (That it has no newline byte
  follows for well-formed UTF-8.)
\<close>

definition word_str :: "string \<Rightarrow> bool" where
  "word_str s \<longleftrightarrow> s \<noteq> [] \<and> char_start s \<and> newline \<notin> set s
     \<and> (\<forall>c \<in> set (str_chars s). \<not> is_whitespace c)"

lemma dropWhile_none: "(\<forall>x \<in> set xs. \<not> P x) \<Longrightarrow> dropWhile P xs = xs"
  by (cases xs) auto

lemma trim_word: "(\<forall>c \<in> set (str_chars s). \<not> is_whitespace c) \<Longrightarrow> trim s = s"
  by (simp add: trim_def trim_end_chars_def dropWhile_none)

lemma str_chars_space: "str_chars [char_of (32 :: nat)] = [[char_of (32 :: nat)]]"
  by simp

lemma char_start_space: "char_start (char_of (32 :: nat) # s)"
  by (simp add: char_start_def is_utf8_cont_def)

lemma str_chars_pair:
  assumes "char_start b"
  shows "str_chars (a @ char_of (32 :: nat) # b) = str_chars a @ [char_of (32 :: nat)] # str_chars b"
proof -
  have "str_chars (a @ [char_of (32 :: nat)] @ b) = str_chars a @ str_chars ([char_of (32 :: nat)] @ b)"
    using str_chars_append [OF char_start_space] by simp
  also have "str_chars ([char_of (32 :: nat)] @ b) = [char_of (32 :: nat)] # str_chars b"
    by (simp only: str_chars_append [OF assms] str_chars_space) simp
  finally show ?thesis by simp
qed

lemma str_chars_nonempty: "s \<noteq> [] \<Longrightarrow> str_chars s \<noteq> []"
  by (cases s) simp_all

lemma trim_pair:
  assumes "word_str a" "word_str b"
  shows "trim (a @ char_of (32 :: nat) # b) = a @ char_of (32 :: nat) # b"
proof -
  have "dropWhile is_whitespace (str_chars a @ [char_of (32 :: nat)] # str_chars b)
      = str_chars a @ [char_of (32 :: nat)] # str_chars b"
    using assms(1) str_chars_nonempty [of a] by (cases "str_chars a") (auto simp: word_str_def)
  moreover have "dropWhile is_whitespace (rev (str_chars b) @ [char_of (32 :: nat)] # rev (str_chars a))
      = rev (str_chars b) @ [char_of (32 :: nat)] # rev (str_chars a)"
  proof (cases "rev (str_chars b)")
    case Nil
    then show ?thesis using assms(2) str_chars_nonempty [of b] by (simp add: word_str_def)
  next
    case (Cons c cs)
    then have "c \<in> set (str_chars b)" by (metis list.set_intros(1) set_rev)
    with Cons assms(2) show ?thesis by (auto simp: word_str_def)
  qed
  ultimately show ?thesis
    using assms(2) by (simp add: trim_def trim_end_chars_def str_chars_pair word_str_def)
qed

lemma split_pair:
  assumes "word_str a" "word_str b"
  shows "split_once_whitespace (a @ char_of (32 :: nat) # b) = Some (a, b)"
proof -
  have "\<forall>c \<in> set (str_chars a). \<not> is_whitespace c" using assms(1) by (simp add: word_str_def)
  then show ?thesis
    using assms(2) is_whitespace_ascii(1)
    by (simp add: split_once_whitespace_def str_chars_pair word_str_def dropWhile_append2 takeWhile_append2)
qed

lemma strip_cr_word:
  assumes "\<forall>c \<in> set (str_chars b). \<not> is_whitespace c" "b \<noteq> []"
  shows "strip_cr (a @ b) = a @ b"
proof -
  have "List.last b \<noteq> carriage_return"
  proof
    assume "List.last b = carriage_return"
    with assms(2) have b: "b = butlast b @ [carriage_return]" by (metis append_butlast_last_id)
    have "char_start [carriage_return]" by (simp add: char_start_def carriage_return_def is_utf8_cont_def)
    from str_chars_append [OF this, of "butlast b"] b have "[carriage_return] \<in> set (str_chars b)" by simp
    moreover have "is_whitespace [carriage_return]"
      by (auto simp: is_whitespace_def whitespace_def utf8_def carriage_return_def)
    ultimately show False using assms(1) by blast
  qed
  with assms(2) show ?thesis by (simp add: strip_cr_def)
qed

lemma str_lines_Nil [simp]: "str_lines [] = []"
  by (simp add: str_lines.simps)

lemma str_lines_line:
  "newline \<notin> set l \<Longrightarrow> str_lines (l @ newline # rest) = strip_cr l # str_lines rest"
  by (subst str_lines.simps) (auto simp: takeWhile_append dropWhile_append)

lemma is_whitespace_single:
  "is_whitespace [c] \<longleftrightarrow> (of_char c :: nat) \<in> {9, 10, 11, 12, 13, 32}"
proof -
  define codes where "codes = [[9], [10], [11], [12], [13], [32], [194, 133], [194, 160], [225, 154, 128]]
      @ map (\<lambda>n. [226, 128, n]) [128..<139]
      @ [[226, 128, 168], [226, 128, 169], [226, 128, 175], [226, 129, 159], [227, 128, 128 :: nat]]"
  have single: "[n] \<in> set codes \<longleftrightarrow> n \<in> set [9, 10, 11, 12, 13, 32]" for n
    by (auto simp: codes_def)
  have one: "[c] = utf8 ns \<longleftrightarrow> (\<exists>n. ns = [n] \<and> c = char_of n)" for ns
    by (cases ns) (auto simp: utf8_def)
  have "is_whitespace [c] \<longleftrightarrow> (\<exists>ns \<in> set codes. [c] = utf8 ns)"
    unfolding is_whitespace_def whitespace_def codes_def [symmetric] set_map by (rule image_iff)
  also have "\<dots> \<longleftrightarrow> (\<exists>n. [n] \<in> set codes \<and> c = char_of n)" unfolding one by blast
  also have "\<dots> \<longleftrightarrow> c \<in> set (map char_of [9, 10, 11, 12, 13, 32 :: nat])"
    unfolding single set_map image_iff by blast
  also have "\<dots> \<longleftrightarrow> (of_char c :: nat) \<in> set [9, 10, 11, 12, 13, 32 :: nat]"
  proof -
    have "c = char_of n \<longleftrightarrow> of_char c = n" if "n < 256" for n :: nat
      using that char_of_eq_iff [of n c] by (auto simp: take_bit_nat_eq_self_iff)
    then show ?thesis by simp
  qed
  finally show ?thesis by simp
qed

end
