(* ===== verification/Tls.thy ===== *)
theory Tls
  imports RustStr "HOL-Library.Char_ord" "HOL-Library.List_Lexorder"
begin

text \<open>
  Certificate pinning (\<open>crates/wayray-protocol/src/tls.rs\<close>): fingerprints, the trust-on-first-use
  pin store with its \<open>known_hosts\<close> file, and the verifier's pin check.  SHA-256 is a parameter; the
  file is the text at the store's path, and the outcome of a write is an argument.  The handshake
  signature checks are delegated to rustls and not modelled.
\<close>

subsection \<open>Fingerprints\<close>

definition hex_digit :: "nat \<Rightarrow> char" where
  "hex_digit n = ''0123456789abcdef'' ! n"

definition hex_byte :: "u8 \<Rightarrow> string" where
  "hex_byte b = [hex_digit (unat b div 16), hex_digit (unat b mod 16)]"

definition hex :: "bytes \<Rightarrow> string" where
  "hex bs = concat (map hex_byte bs)"

definition fingerprint :: "(bytes \<Rightarrow> bytes) \<Rightarrow> bytes \<Rightarrow> string" where
  "fingerprint sha256 cert_der = ''sha256:'' @ hex (sha256 cert_der)"

definition normalize_fingerprint :: "string \<Rightarrow> string" where
  "normalize_fingerprint fp0 =
     (let fp = trim fp0;
          fp = (case strip_prefix ''sha256:'' fp of None \<Rightarrow> fp | Some rest \<Rightarrow> rest)
      in concat (map to_ascii_lowercase
           (filter (\<lambda>c. \<not> is_whitespace c \<and> c \<noteq> '':'') (str_chars fp))))"

definition fingerprints_match :: "string \<Rightarrow> string \<Rightarrow> bool" where
  "fingerprints_match presented expected \<longleftrightarrow> normalize_fingerprint presented = normalize_fingerprint expected"

subsection \<open>The pin store\<close>

datatype pin_outcome = PinMatch | FirstUse | Mismatch string string

record pin_store =
  ps_file :: "string option"
  ps_pins :: "(string, string) hashmap"

text \<open>
  What a write of the file did: all of it, nothing (the directory or the file could not be
  opened), or an error after truncating and writing the first bytes.
\<close>

datatype write_result = Written | NotWritten | PartlyWritten nat

definition parse_line :: "string \<Rightarrow> (string, string) hashmap \<Rightarrow> (string, string) hashmap" where
  "parse_line line0 pins =
     (let line = trim line0 in
      if line = [] \<or> starts_with line ''#'' then pins
      else case split_once_whitespace line of
             None \<Rightarrow> pins
           | Some (identity, fp) \<Rightarrow> hm_insert (trim identity) (trim fp) pins)"

definition parse_known_hosts :: "string \<Rightarrow> (string, string) hashmap" where
  "parse_known_hosts contents = fold parse_line (str_lines contents) []"

datatype file_read = FileText string | FileNotFound | FileError

fun pin_store_open :: "file_read \<Rightarrow> pin_store option" where
  "pin_store_open (FileText s) = Some \<lparr> ps_file = Some s, ps_pins = parse_known_hosts s \<rparr>"
| "pin_store_open FileNotFound = Some \<lparr> ps_file = None, ps_pins = [] \<rparr>"
| "pin_store_open FileError = None"

definition pin_store_get :: "string \<Rightarrow> pin_store \<Rightarrow> string option" where
  "pin_store_get identity st = hm_get (ps_pins st) identity"

definition pin_line :: "string \<times> string \<Rightarrow> string" where
  "pin_line e = fst e @ [CHR '' ''] @ snd e @ [newline]"

definition pin_body :: "(string, string) hashmap \<Rightarrow> string" where
  "pin_body pins = concat (map pin_line (sort_key fst pins))"

definition persist :: "write_result \<Rightarrow> pin_store \<Rightarrow> pin_store \<times> bool" where
  "persist w st =
     (case w of
        Written \<Rightarrow> (st\<lparr> ps_file := Some (pin_body (ps_pins st)) \<rparr>, True)
      | NotWritten \<Rightarrow> (st, False)
      | PartlyWritten n \<Rightarrow> (st\<lparr> ps_file := Some (take n (pin_body (ps_pins st))) \<rparr>, False))"

text \<open>\<open>None\<close> is the I/O error of the write; the pin has been inserted in memory all the same.\<close>

definition verify_or_remember ::
  "write_result \<Rightarrow> string \<Rightarrow> string \<Rightarrow> pin_store \<Rightarrow> pin_store \<times> pin_outcome option" where
  "verify_or_remember w identity presented st =
     (case hm_get (ps_pins st) identity of
        Some expected \<Rightarrow>
          (st, Some (if fingerprints_match presented expected then PinMatch else Mismatch expected presented))
      | None \<Rightarrow>
          (let (st1, ok) = persist w (st\<lparr> ps_pins := hm_insert identity presented (ps_pins st) \<rparr>)
           in (st1, if ok then Some FirstUse else None)))"

definition default_known_hosts_path :: "string option \<Rightarrow> string option \<Rightarrow> string" where
  "default_known_hosts_path xdg_config_home home =
     (let base = (case xdg_config_home of
                    Some base \<Rightarrow> base
                  | None \<Rightarrow> path_join (case home of None \<Rightarrow> ''/tmp'' | Some h \<Rightarrow> h) ''.config'')
      in path_join (path_join base ''wayray'') ''known_hosts'')"

subsection \<open>The verifier\<close>

datatype pin_policy = Fixed string | Tofu string

datatype tls_error =
    ConfiguredPinMismatch string string
  | PinnedMismatch string string string
  | PinStoreLocked
  | PinStoreError

definition check_pin ::
  "(bytes \<Rightarrow> bytes) \<Rightarrow> pin_policy \<Rightarrow> bool \<Rightarrow> write_result \<Rightarrow> bytes \<Rightarrow> pin_store \<Rightarrow> pin_store \<times> (tls_error + unit)" where
  "check_pin sha256 policy poisoned w end_entity st =
     (let presented = fingerprint sha256 end_entity in
      case policy of
        Fixed expected \<Rightarrow>
          (st, if fingerprints_match presented expected then Inr () else Inl (ConfiguredPinMismatch presented expected))
      | Tofu identity \<Rightarrow>
          if poisoned then (st, Inl PinStoreLocked)
          else (case verify_or_remember w identity presented st of
                  (st1, Some PinMatch) \<Rightarrow> (st1, Inr ())
                | (st1, Some FirstUse) \<Rightarrow> (st1, Inr ())
                | (st1, Some (Mismatch e p)) \<Rightarrow> (st1, Inl (PinnedMismatch identity p e))
                | (st1, None) \<Rightarrow> (st1, Inl PinStoreError)))"

subsection \<open>Fingerprints determine the digest\<close>

definition hex_digits :: "char set" where
  "hex_digits = set ''0123456789abcdef''"

lemma hex_digit_in: "n < 16 \<Longrightarrow> hex_digit n \<in> hex_digits"
  unfolding hex_digit_def hex_digits_def by (rule nth_mem) simp

lemma hex_digit_inject: "m < 16 \<Longrightarrow> n < 16 \<Longrightarrow> hex_digit m = hex_digit n \<longleftrightarrow> m = n"
proof -
  assume "m < 16" "n < 16"
  moreover have "distinct ''0123456789abcdef''" by simp
  ultimately show ?thesis by (simp add: hex_digit_def nth_eq_iff_index_eq)
qed

lemma hex_byte_inject: "hex_byte a = hex_byte b \<longleftrightarrow> a = b"
proof
  assume "hex_byte a = hex_byte b"
  then have "unat a div 16 = unat b div 16" "unat a mod 16 = unat b mod 16"
    using unat_u8 [of a] unat_u8 [of b] by (auto simp: hex_byte_def hex_digit_inject)
  then have "unat a = unat b" by (metis mult_div_mod_eq)
  then show "a = b" by (simp add: word_unat_eq_iff)
qed simp

lemma length_hex_byte: "length (hex_byte b) = 2"
  by (simp add: hex_byte_def)

lemma hex_inject: "hex as = hex bs \<longleftrightarrow> as = bs"
proof (induction as arbitrary: bs)
  case Nil
  show ?case by (cases bs) (simp_all add: hex_def hex_byte_def)
next
  case (Cons a as)
  show ?case
  proof (cases bs)
    case Nil
    then show ?thesis by (simp add: hex_def hex_byte_def)
  next
    case C: (Cons b bs')
    have "hex (a # as) = hex (b # bs') \<longleftrightarrow> hex_byte a = hex_byte b \<and> hex as = hex bs'"
      by (simp add: hex_def append_eq_append_conv length_hex_byte)
    with C Cons.IH show ?thesis by (simp add: hex_byte_inject)
  qed
qed

lemma hex_chars: "set (hex bs) \<subseteq> hex_digits"
proof -
  have "set (hex_byte b) \<subseteq> hex_digits" for b
    using unat_u8 [of b] by (simp add: hex_byte_def hex_digit_in)
  then show ?thesis by (auto simp: hex_def)
qed

text \<open>The characters a fingerprint is written with, and what normalisation does to them.\<close>

definition fp_chars :: "char set" where
  "fp_chars = set ''sha256:0123456789abcdef''"

lemma fp_char_range: "c \<in> fp_chars \<Longrightarrow> (of_char c :: nat) \<in> {48..58} \<union> {97..122}"
  by (auto simp: fp_chars_def)

lemma fp_char_facts:
  assumes "c \<in> fp_chars"
  shows "\<not> is_utf8_cont c" "\<not> is_whitespace [c]" "to_ascii_lowercase_char c = c"
  using fp_char_range [OF assms] by (auto simp: is_utf8_cont_def is_whitespace_single to_ascii_lowercase_char_def)

lemma hex_in_fp: "hex_digits \<subseteq> fp_chars"
  by (auto simp: hex_digits_def fp_chars_def)

lemma fingerprint_chars: "set (fingerprint sha256 d) \<subseteq> fp_chars"
  using hex_chars hex_in_fp by (fastforce simp: fingerprint_def fp_chars_def)

lemma fp_str_chars: "set s \<subseteq> fp_chars \<Longrightarrow> str_chars s = map (\<lambda>c. [c]) s"
  using fp_char_facts(1) by (intro str_chars_ascii) blast

lemma fp_trim: "set s \<subseteq> fp_chars \<Longrightarrow> trim s = s"
  using fp_char_facts(2) by (intro trim_word) (auto simp: fp_str_chars)

lemma clean_hex:
  assumes "set s \<subseteq> hex_digits"
  shows "concat (map to_ascii_lowercase
           (filter (\<lambda>c. \<not> is_whitespace c \<and> c \<noteq> '':'') (str_chars s))) = s"
proof -
  have colon: "CHR '':'' \<notin> hex_digits" by (simp add: hex_digits_def)
  have "c \<in> fp_chars" "c \<noteq> CHR '':''" if "c \<in> set s" for c
    using that assms hex_in_fp colon by blast+
  then have facts: "\<not> is_whitespace [c]" "[c] \<noteq> '':''" "to_ascii_lowercase [c] = [c]" if "c \<in> set s" for c
    using that fp_char_facts by (simp_all add: to_ascii_lowercase_def)
  then have "filter (\<lambda>c. \<not> is_whitespace c \<and> c \<noteq> '':'') (map (\<lambda>c. [c]) s) = map (\<lambda>c. [c]) s"
    unfolding filter_id_conv set_map by blast
  moreover have "map to_ascii_lowercase (map (\<lambda>c. [c]) s) = map (\<lambda>c. [c]) s"
    unfolding map_map by (rule map_cong) (simp_all add: facts(3))
  moreover have "concat (map (\<lambda>c. [c]) s) = s" by (induction s) simp_all
  moreover have "str_chars s = map (\<lambda>c. [c]) s" using assms hex_in_fp by (intro fp_str_chars) blast
  ultimately show ?thesis by (simp only:)
qed

lemma normalize_fingerprint_own: "normalize_fingerprint (fingerprint sha256 d) = hex (sha256 d)"
proof -
  have "strip_prefix ''sha256:'' (fingerprint sha256 d) = Some (hex (sha256 d))"
    by (simp add: strip_prefix_def starts_with_def fingerprint_def)
  then show ?thesis
    by (simp add: normalize_fingerprint_def Let_def fp_trim [OF fingerprint_chars] clean_hex [OF hex_chars])
qed

lemma normalize_hex: "normalize_fingerprint (hex bs) = hex bs"
proof -
  have h: "CHR ''s'' \<notin> set (hex bs)" using hex_chars by (auto simp: hex_digits_def)
  have "strip_prefix ''sha256:'' (hex bs) = None"
  proof (rule ccontr)
    assume "strip_prefix ''sha256:'' (hex bs) \<noteq> None"
    then have "take (length ''sha256:'') (hex bs) = ''sha256:''"
      unfolding strip_prefix_def starts_with_def by (metis option.distinct(1))
    then have "CHR ''s'' \<in> set (take (length ''sha256:'') (hex bs))" by simp
    then show False using h by (metis in_set_takeD)
  qed
  then show ?thesis
    using fp_trim [of "hex bs"] hex_chars hex_in_fp
    by (simp add: normalize_fingerprint_def Let_def clean_hex [OF hex_chars] subset_trans [OF hex_chars])
qed

text \<open>The form openssl prints: upper-case bytes separated by colons.\<close>

definition upper_byte :: "u8 \<Rightarrow> string" where
  "upper_byte b = [''0123456789ABCDEF'' ! (unat b div 16), ''0123456789ABCDEF'' ! (unat b mod 16)]"

fun colon_form :: "bytes \<Rightarrow> string" where
  "colon_form [] = []"
| "colon_form [b] = upper_byte b"
| "colon_form (b # bs) = upper_byte b @ [CHR '':''] @ colon_form bs"

definition colon_chars :: "char set" where
  "colon_chars = set ''0123456789ABCDEF:''"

lemma colon_char_facts:
  assumes "c \<in> colon_chars"
  shows "\<not> is_utf8_cont c" "\<not> is_whitespace [c]"
proof -
  have "(of_char c :: nat) \<in> {48..58} \<union> {65..90}" using assms by (auto simp: colon_chars_def)
  then show "\<not> is_utf8_cont c" "\<not> is_whitespace [c]"
    by (auto simp: is_utf8_cont_def is_whitespace_single)
qed

lemma upper_digit: "n < 16 \<Longrightarrow> ''0123456789ABCDEF'' ! n \<in> colon_chars - {CHR '':''}"
proof -
  assume "n < 16"
  then have "''0123456789ABCDEF'' ! n \<in> set ''0123456789ABCDEF''" by (intro nth_mem) simp
  moreover have "set ''0123456789ABCDEF'' \<subseteq> colon_chars - {CHR '':''}" by (simp add: colon_chars_def)
  ultimately show ?thesis by blast
qed

lemma lower_upper_digit:
  "n < 16 \<Longrightarrow> to_ascii_lowercase_char (''0123456789ABCDEF'' ! n) = hex_digit n"
proof -
  assume "n < 16"
  then have "n \<in> set [0..<16]" by simp
  moreover have "\<forall>n \<in> set [0..<16]. to_ascii_lowercase_char (''0123456789ABCDEF'' ! n) = hex_digit n"
    by code_simp
  ultimately show ?thesis by blast
qed

lemma colon_form_chars: "set (colon_form bs) \<subseteq> colon_chars"
proof -
  have "set (upper_byte b) \<subseteq> colon_chars" for b
    using upper_digit [of "unat b div 16"] upper_digit [of "unat b mod 16"] unat_u8 [of b]
    by (simp add: upper_byte_def)
  moreover have "CHR '':'' \<in> colon_chars" by (simp add: colon_chars_def)
  ultimately show ?thesis by (induction bs rule: colon_form.induct) auto
qed

lemma colon_form_clean: "map to_ascii_lowercase_char (filter (\<lambda>c. c \<noteq> CHR '':'') (colon_form bs)) = hex bs"
proof -
  have "filter (\<lambda>c. c \<noteq> CHR '':'') (upper_byte b) = upper_byte b"
    "map to_ascii_lowercase_char (upper_byte b) = hex_byte b" for b
    using upper_digit [of "unat b div 16"] upper_digit [of "unat b mod 16"] unat_u8 [of b]
    by (simp_all add: upper_byte_def hex_byte_def lower_upper_digit)
  then show ?thesis by (induction bs rule: colon_form.induct) (simp_all add: hex_def)
qed

lemma clean_singles:
  assumes "\<forall>c \<in> set s. \<not> is_utf8_cont c \<and> \<not> is_whitespace [c]"
  shows "concat (map to_ascii_lowercase (filter (\<lambda>c. \<not> is_whitespace c \<and> c \<noteq> '':'') (str_chars s)))
       = map to_ascii_lowercase_char (filter (\<lambda>c. c \<noteq> CHR '':'') s)"
proof -
  have "str_chars s = map (\<lambda>c. [c]) s" using assms by (intro str_chars_ascii) blast
  moreover have "concat (map to_ascii_lowercase (filter (\<lambda>c. \<not> is_whitespace c \<and> c \<noteq> '':'') (map (\<lambda>c. [c]) s)))
       = map to_ascii_lowercase_char (filter (\<lambda>c. c \<noteq> CHR '':'') s)"
    using assms by (induction s) (simp_all add: to_ascii_lowercase_def)
  ultimately show ?thesis by (simp only:)
qed

lemma no_prefix: "p \<notin> set s \<Longrightarrow> strip_prefix (p # ps) s = None"
  by (cases s) (auto simp: strip_prefix_def starts_with_def)

lemma normalize_clean:
  assumes "\<forall>c \<in> set s. \<not> is_utf8_cont c \<and> \<not> is_whitespace [c]" "CHR ''s'' \<notin> set s"
  shows "normalize_fingerprint s = map to_ascii_lowercase_char (filter (\<lambda>c. c \<noteq> CHR '':'') s)"
proof -
  have "str_chars s = map (\<lambda>c. [c]) s" using assms(1) by (intro str_chars_ascii) blast
  then have "trim s = s" using assms(1) by (intro trim_word) auto
  then show ?thesis
    unfolding normalize_fingerprint_def Let_def
    by (simp only: no_prefix [OF assms(2)] option.case clean_singles [OF assms(1)])
qed

lemma normalize_colon: "normalize_fingerprint (colon_form bs) = hex bs"
proof -
  have "CHR ''s'' \<notin> colon_chars" by (simp add: colon_chars_def)
  then have "normalize_fingerprint (colon_form bs)
      = map to_ascii_lowercase_char (filter (\<lambda>c. c \<noteq> CHR '':'') (colon_form bs))"
    using colon_form_chars [of bs] colon_char_facts by (intro normalize_clean) blast+
  then show ?thesis by (simp only: colon_form_clean)
qed

lemma normalize_upper_prefix: "normalize_fingerprint (''SHA256:'' @ hex bs) = ''sha256'' @ hex bs"
proof -
  have hex: "c \<in> fp_chars" "c \<noteq> CHR '':''" "c \<noteq> CHR ''s''" if "c \<in> set (hex bs)" for c
  proof -
    have "c \<in> hex_digits" using that hex_chars by blast
    then show "c \<in> fp_chars" "c \<noteq> CHR '':''" "c \<noteq> CHR ''s''"
      using hex_in_fp by (auto simp: hex_digits_def)
  qed
  have pre: "\<forall>c \<in> set ''SHA256:''. \<not> is_utf8_cont c \<and> \<not> is_whitespace [c]"
    by (simp add: is_utf8_cont_def is_whitespace_single)
  have "normalize_fingerprint (''SHA256:'' @ hex bs)
      = map to_ascii_lowercase_char (filter (\<lambda>c. c \<noteq> CHR '':'') (''SHA256:'' @ hex bs))"
  proof (rule normalize_clean)
    show "\<forall>c \<in> set (''SHA256:'' @ hex bs). \<not> is_utf8_cont c \<and> \<not> is_whitespace [c]"
      unfolding set_append using pre hex(1) fp_char_facts by blast
    show "CHR ''s'' \<notin> set (''SHA256:'' @ hex bs)"
      unfolding set_append using hex(3) by fastforce
  qed
  also have "\<dots> = ''sha256'' @ map to_ascii_lowercase_char (filter (\<lambda>c. c \<noteq> CHR '':'') (hex bs))"
  proof -
    have "map to_ascii_lowercase_char (filter (\<lambda>c. c \<noteq> CHR '':'') ''SHA256:'') = ''sha256''" by code_simp
    then show ?thesis unfolding filter_append map_append by (simp only:)
  qed
  also have "map to_ascii_lowercase_char (filter (\<lambda>c. c \<noteq> CHR '':'') (hex bs)) = hex bs"
  proof -
    have "filter (\<lambda>c. c \<noteq> CHR '':'') (hex bs) = hex bs" using hex(2) by (simp add: filter_id_conv)
    moreover have "map to_ascii_lowercase_char (hex bs) = hex bs"
      using hex(1) fp_char_facts(3) by (intro map_idI) blast
    ultimately show ?thesis by (simp only:)
  qed
  finally show ?thesis .
qed

text \<open>
  C23.  A configured pin admits exactly the certificates with the pinned digest, in any of the forms
  \<open>sha256:aabb\<close>, \<open>aabb\<close> and \<open>AA:BB\<close>, and the check leaves the pin store alone.  The prefix is
  stripped before the case is folded, though: a pin written with an upper-case \<open>SHA256:\<close> prefix
  rejects the certificate it names.
\<close>
theorem configured_pin_exact:
  "check_pin h (Fixed (fingerprint h cert)) poisoned w der st
     = (st, if h der = h cert then Inr () else Inl (ConfiguredPinMismatch (fingerprint h der) (fingerprint h cert)))
   \<and> (snd (check_pin h (Fixed (hex digest)) poisoned w der st) = Inr () \<longleftrightarrow> h der = digest)
   \<and> (snd (check_pin h (Fixed (colon_form digest)) poisoned w der st) = Inr () \<longleftrightarrow> h der = digest)
   \<and> snd (check_pin h (Fixed (''SHA256:'' @ hex (h der))) poisoned w der st) \<noteq> Inr ()"
proof -
  have "hex (h der) \<noteq> ''sha256'' @ hex (h der)" by (metis append_self_conv2 list.distinct(1))
  then show ?thesis
    by (simp add: check_pin_def Let_def fingerprints_match_def normalize_fingerprint_own normalize_hex
        normalize_colon normalize_upper_prefix hex_inject del: append_Cons append.simps)
qed

subsection \<open>Trust on first use\<close>

type_synonym pin_query = "write_result \<times> string \<times> string"

fun pin_step :: "pin_query \<Rightarrow> pin_store \<Rightarrow> pin_store" where
  "pin_step (w, identity, fp) st = fst (verify_or_remember w identity fp st)"

definition pin_answer :: "string \<Rightarrow> string \<Rightarrow> pin_outcome" where
  "pin_answer recorded fp = (if fingerprints_match fp recorded then PinMatch else Mismatch recorded fp)"

lemma verify_known:
  "hm_get (ps_pins st) i = Some e \<Longrightarrow> verify_or_remember w i fp st = (st, Some (pin_answer e fp))"
  by (simp add: verify_or_remember_def pin_answer_def)

lemma verify_unknown:
  "hm_get (ps_pins st) i = None \<Longrightarrow>
     ps_pins (fst (verify_or_remember w i fp st)) = hm_insert i fp (ps_pins st)
   \<and> snd (verify_or_remember w i fp st) = (if w = Written then Some FirstUse else None)"
  by (simp add: verify_or_remember_def persist_def Let_def split: write_result.split)

lemma pin_step_keeps:
  "hm_get (ps_pins st) i = Some e \<Longrightarrow> hm_get (ps_pins (pin_step q st)) i = Some e"
proof (cases q)
  case (fields w j fp)
  assume e: "hm_get (ps_pins st) i = Some e"
  show ?thesis
  proof (cases "hm_get (ps_pins st) j")
    case None
    with e fields show ?thesis by (auto simp: verify_unknown)
  next
    case (Some e')
    with e fields show ?thesis by (simp add: verify_known)
  qed
qed

lemma pins_keep: "hm_get (ps_pins st) i = Some e \<Longrightarrow> hm_get (ps_pins (fold pin_step qs st)) i = Some e"
  by (induction qs arbitrary: st) (simp_all add: pin_step_keeps)

text \<open>
  Trust on first use.  The first fingerprint an unknown identity presents is recorded, also when
  writing the file fails and the connection is refused, and whatever other peers present
  afterwards, that identity is accepted exactly with a fingerprint that matches the first one;
  a mismatch never overwrites the pin.
\<close>
theorem trust_on_first_use:
  assumes "hm_get (ps_pins st) i = None"
    and "st1 = fst (verify_or_remember w i fp st)" "st2 = fold pin_step qs st1"
  shows "snd (verify_or_remember w i fp st) = (if w = Written then Some FirstUse else None)
       \<and> verify_or_remember w' i fp' st2 = (st2, Some (pin_answer fp fp'))
       \<and> (snd (check_pin h (Tofu i) False w' der st2) = Inr () \<longleftrightarrow> normalize_fingerprint fp = hex (h der))"
proof -
  have "hm_get (ps_pins st2) i = Some fp"
    unfolding assms(3) by (rule pins_keep) (simp add: assms(1,2) verify_unknown)
  note known = verify_known [OF this]
  show ?thesis
    using assms(1)
    by (auto simp: verify_unknown known check_pin_def Let_def pin_answer_def fingerprints_match_def
        normalize_fingerprint_own)
qed

theorem trust_on_first_use_witness:
  "let st1 = fst (verify_or_remember Written ''10.0.0.1:4433'' (fingerprint id [1, 2]) \<lparr> ps_file = None, ps_pins = [] \<rparr>);
       st2 = fold pin_step [(Written, ''10.0.0.2:4433'', ''sha256:ff'')] st1
   in snd (check_pin id (Tofu ''10.0.0.1:4433'') False Written [1, 2] st2) = Inr ()
    \<and> snd (check_pin id (Tofu ''10.0.0.1:4433'') False Written [1, 3] st2) \<noteq> Inr ()"
proof -
  let ?st = "\<lparr> ps_file = None, ps_pins = [] \<rparr>"
  have "hm_get (ps_pins ?st) ''10.0.0.1:4433'' = None" by simp
  note t = trust_on_first_use [OF this refl refl, of Written "fingerprint id [1, 2]" Written _
      "[(Written, ''10.0.0.2:4433'', ''sha256:ff'')]" id, THEN conjunct2, THEN conjunct2]
  show ?thesis unfolding Let_def using t [of "[1, 2]"] t [of "[1, 3]"]
    by (simp only: normalize_fingerprint_own hex_inject) simp
qed

subsection \<open>The file\<close>

definition identity_ok :: "string \<Rightarrow> bool" where
  "identity_ok i \<longleftrightarrow> word_str i \<and> hd i \<noteq> CHR ''#''"

definition pins_ok :: "(string, string) hashmap \<Rightarrow> bool" where
  "pins_ok pins \<longleftrightarrow> hm_wf pins \<and> (\<forall>(i, fp) \<in> set pins. identity_ok i \<and> word_str fp)"

lemma parse_pin_line:
  assumes "identity_ok i" "word_str fp"
  shows "str_lines (pin_line (i, fp) @ rest) = (i @ CHR '' '' # fp) # str_lines rest"
    and "parse_line (i @ CHR '' '' # fp) pins = hm_insert i fp pins"
proof -
  have sp: "CHR '' '' = char_of (32 :: nat)" by code_simp
  have w: "word_str i" using assms(1) by (simp add: identity_ok_def)
  have "newline \<notin> set (i @ CHR '' '' # fp)"
  proof -
    have "newline \<noteq> CHR '' ''" unfolding newline_def by code_simp
    then show ?thesis using w assms(2) by (simp add: word_str_def)
  qed
  moreover have "strip_cr ((i @ [CHR '' '']) @ fp) = (i @ [CHR '' '']) @ fp"
    using assms(2) by (intro strip_cr_word) (auto simp: word_str_def)
  ultimately show "str_lines (pin_line (i, fp) @ rest) = (i @ CHR '' '' # fp) # str_lines rest"
    using str_lines_line [of "i @ CHR '' '' # fp" rest] by (simp add: pin_line_def)
  have tr: "trim i = i" "trim fp = fp" using w assms(2) by (auto simp: word_str_def intro: trim_word)
  have ne: "i @ CHR '' '' # fp \<noteq> []" "\<not> starts_with (i @ CHR '' '' # fp) ''#''"
    using assms(1) by (cases i; auto simp: identity_ok_def word_str_def starts_with_def)+
  note f = trim_pair [OF w assms(2)] split_pair [OF w assms(2)]
  show "parse_line (i @ CHR '' '' # fp) pins = hm_insert i fp pins"
    unfolding parse_line_def Let_def using ne tr by (simp add: f [folded sp])
qed

lemma parse_body:
  "\<forall>(i, fp) \<in> set es. identity_ok i \<and> word_str fp \<Longrightarrow>
     fold parse_line (str_lines (concat (map pin_line es))) m = fold (\<lambda>(i, fp). hm_insert i fp) es m"
proof (induction es arbitrary: m)
  case (Cons e es)
  obtain i fp where e: "e = (i, fp)" by fastforce
  with Cons.prems have "identity_ok i" "word_str fp" by auto
  with Cons show ?case by (simp add: e parse_pin_line)
qed simp

lemma fold_insert_get:
  "distinct (map fst es) \<Longrightarrow>
     hm_get (fold (\<lambda>(i, fp). hm_insert i fp) es m) k = (case map_of es k of None \<Rightarrow> hm_get m k | Some v \<Rightarrow> Some v)"
proof (induction es arbitrary: m)
  case (Cons e es)
  obtain i fp where e: "e = (i, fp)" by fastforce
  with Cons.prems have "map_of es i = None" "distinct (map fst es)"
    by (auto simp: map_of_eq_None_iff)
  with Cons.IH show ?case by (auto simp: e split: option.split)
qed simp

lemma sort_key_map:
  assumes "hm_wf m"
  shows "hm_wf (sort_key f m)" "hm_get (sort_key f m) k = hm_get m k"
proof -
  show wf: "hm_wf (sort_key f m)" using assms by (simp add: distinct_map)
  have "hm_get (sort_key f m) k = Some v \<longleftrightarrow> hm_get m k = Some v" for v
    by (simp add: hm_get_in [OF wf] hm_get_in [OF assms])
  then show "hm_get (sort_key f m) k = hm_get m k" by (metis not_None_eq)
qed

lemma known_hosts_parsed:
  assumes "pins_ok pins"
  shows "hm_get (parse_known_hosts (pin_body pins)) k = hm_get pins k"
proof -
  have wf: "hm_wf pins" and ok: "\<forall>(i, fp) \<in> set (sort_key fst pins). identity_ok i \<and> word_str fp"
    using assms by (auto simp: pins_ok_def)
  show ?thesis
    unfolding parse_known_hosts_def pin_body_def parse_body [OF ok] fold_insert_get [OF sort_key_map(1) [OF wf]]
    by (simp add: sort_key_map [OF wf] split: option.split)
qed

definition store_saved :: "pin_store \<Rightarrow> bool" where
  "store_saved st \<longleftrightarrow> pins_ok (ps_pins st)
     \<and> (case ps_file st of None \<Rightarrow> ps_pins st = []
        | Some s \<Rightarrow> \<forall>k. hm_get (parse_known_hosts s) k = hm_get (ps_pins st) k)"

lemma pins_ok_insert:
  assumes "pins_ok m" "identity_ok i" "word_str fp"
  shows "pins_ok (hm_insert i fp m)"
proof -
  have wf: "hm_wf m" using assms(1) by (simp add: pins_ok_def)
  have "identity_ok j \<and> word_str g" if "(j, g) \<in> set (hm_insert i fp m)" for j g
  proof -
    from that have "hm_get (hm_insert i fp m) j = Some g" using hm_get_in [OF hm_wf_insert [OF wf]] by blast
    then have "j = i \<and> g = fp \<or> (j, g) \<in> set m" by (auto simp: hm_get_in [OF wf] split: if_splits)
    with assms show ?thesis by (auto simp: pins_ok_def)
  qed
  with wf show ?thesis by (auto simp: pins_ok_def)
qed

fun good_query :: "pin_query \<Rightarrow> bool" where
  "good_query (w, i, fp) \<longleftrightarrow> w = Written \<and> identity_ok i \<and> word_str fp"

lemma store_saved_step: "store_saved st \<Longrightarrow> good_query q \<Longrightarrow> store_saved (pin_step q st)"
proof (cases q)
  case (fields w i fp)
  assume st: "store_saved st" and q: "good_query q"
  show ?thesis
  proof (cases "hm_get (ps_pins st) i")
    case (Some e)
    then show ?thesis using st by (simp add: fields verify_known)
  next
    case None
    have "pins_ok (hm_insert i fp (ps_pins st))"
      using st q fields by (intro pins_ok_insert) (simp_all add: store_saved_def)
    with None q fields show ?thesis
      by (simp add: store_saved_def verify_or_remember_def persist_def known_hosts_parsed)
  qed
qed

lemma store_saved_run: "store_saved st \<Longrightarrow> list_all good_query qs \<Longrightarrow> store_saved (fold pin_step qs st)"
  by (induction qs arbitrary: st) (simp_all add: store_saved_step)

text \<open>The pin store as the next process sees it: opened from the file this one left.\<close>

definition reopened :: "pin_store \<Rightarrow> pin_store" where
  "reopened st = the (pin_store_open (case ps_file st of None \<Rightarrow> FileNotFound | Some s \<Rightarrow> FileText s))"

text \<open>
  The \<open>known_hosts\<close> file is a faithful copy of the store.  Starting without a file, after any
  connections whose identities and fingerprints are single words and whose writes succeed, a
  process that opens the file answers every later query as this process would.
\<close>
theorem pins_survive_restart:
  assumes "list_all good_query qs" "st = fold pin_step qs \<lparr> ps_file = None, ps_pins = [] \<rparr>"
  shows "snd (verify_or_remember w i fp (reopened st)) = snd (verify_or_remember w i fp st)
       \<and> pin_store_get i (reopened st) = pin_store_get i st
       \<and> pin_store_open FileError = None"
proof -
  have "store_saved st"
    unfolding assms(2) by (rule store_saved_run [OF _ assms(1)]) (simp add: store_saved_def pins_ok_def)
  then have same: "hm_get (ps_pins (reopened st)) k = hm_get (ps_pins st) k" for k
    by (auto simp: reopened_def store_saved_def split: option.splits)
  show ?thesis
  proof (cases "hm_get (ps_pins st) i")
    case None
    then show ?thesis by (simp add: verify_unknown pin_store_get_def same)
  next
    case (Some e)
    then show ?thesis by (simp add: verify_known pin_store_get_def same)
  qed
qed

lemma ascii_word:
  "s \<noteq> [] \<Longrightarrow> \<forall>c \<in> set s. 32 < (of_char c :: nat) \<and> (of_char c :: nat) < 128 \<Longrightarrow> word_str s"
proof -
  assume s: "s \<noteq> []" "\<forall>c \<in> set s. 32 < (of_char c :: nat) \<and> (of_char c :: nat) < 128"
  have c: "\<not> is_utf8_cont c" "\<not> is_whitespace [c]" "c \<noteq> newline" if "c \<in> set s" for c
    using s(2) that by (auto simp: is_utf8_cont_def is_whitespace_single newline_def)
  then have "str_chars s = map (\<lambda>c. [c]) s" by (intro str_chars_ascii) blast
  with s(1) c show ?thesis by (auto simp: word_str_def char_start_def)
qed

theorem pins_survive_restart_witness:
  "let st = fold pin_step [(Written, ''10.0.0.1:4433'', ''sha256:aa''), (Written, ''10.0.0.1:4433'', ''sha256:bb'')]
              \<lparr> ps_file = None, ps_pins = [] \<rparr>
   in snd (verify_or_remember Written ''10.0.0.1:4433'' ''sha256:bb'' (reopened st))
      = snd (verify_or_remember Written ''10.0.0.1:4433'' ''sha256:bb'' st)"
proof -
  have "word_str ''10.0.0.1:4433''" "word_str ''sha256:aa''" "word_str ''sha256:bb''"
    by (rule ascii_word; simp)+
  then have "list_all good_query [(Written, ''10.0.0.1:4433'', ''sha256:aa''), (Written, ''10.0.0.1:4433'', ''sha256:bb'')]"
    by (simp add: identity_ok_def)
  from pins_survive_restart [OF this refl, THEN conjunct1] show ?thesis unfolding Let_def .
qed

end
