(* ===== verification/Identity.thy ===== *)
theory Identity
  imports Tls
begin

text \<open>
  The server's certificate (\<open>cert_dir\<close>, \<open>load_or_generate_cert\<close> and \<open>build_server_config\<close> in
  \<open>crates/wrsrvd/src/network.rs\<close>): the identity that clients and peers pin.  Of rustls and rcgen there are
  parameters: which bytes parse as a key, which certificate belongs to which key, and the fresh pair a
  start would generate.
\<close>

subsection \<open>The files\<close>

definition cert_dir :: "string option \<Rightarrow> string option \<Rightarrow> string" where
  "cert_dir xdg_config_home home =
     (case xdg_config_home of
        Some xdg \<Rightarrow> path_join xdg ''wayray''
      | None \<Rightarrow>
          (case home of
             Some h \<Rightarrow> path_join (path_join h ''.config'') ''wayray''
           | None \<Rightarrow> ''/etc/wayray''))"

text \<open>\<open>cert.der\<close> and \<open>key.der\<close>, if they exist.\<close>

record identity_files =
  idf_cert :: "bytes option"
  idf_key :: "bytes option"

text \<open>
  What a start meets: whether each file can be read, the identity it would generate, whether the directory
  can be made, and how the two writes go.
\<close>

record start_env =
  st_cert_readable :: bool
  st_key_readable :: bool
  st_fresh :: "bytes \<times> bytes"
  st_dir_ok :: bool
  st_cert_write :: write_result
  st_key_write :: write_result

fun write_file :: "write_result \<Rightarrow> bytes \<Rightarrow> bytes option \<Rightarrow> bytes option" where
  "write_file Written data file = Some data"
| "write_file NotWritten data file = file"
| "write_file (PartlyWritten n) data file = Some (take n data)"

text \<open>A fresh identity and what is kept of it: the key is written only if the certificate was.\<close>

definition generate_cert :: "start_env \<Rightarrow> identity_files \<Rightarrow> identity_files \<times> bytes \<times> bytes" where
  "generate_cert env files =
     (case st_fresh env of (cert, key) \<Rightarrow>
        let files1 = (if st_dir_ok env then files\<lparr> idf_cert := write_file (st_cert_write env) cert (idf_cert files) \<rparr> else files);
            files2 = (if st_dir_ok env \<and> st_cert_write env = Written
                      then files1\<lparr> idf_key := write_file (st_key_write env) key (idf_key files1) \<rparr> else files1)
        in (files2, cert, key))"

text \<open>The files afterwards, and the certificate and key the server uses.\<close>

definition load_or_generate_cert ::
  "(bytes \<Rightarrow> bool) \<Rightarrow> start_env \<Rightarrow> identity_files \<Rightarrow> identity_files \<times> bytes \<times> bytes" where
  "load_or_generate_cert key_parses env files =
     (case (if st_cert_readable env then idf_cert files else None, if st_key_readable env then idf_key files else None) of
        (Some cert, Some key) \<Rightarrow>
          if key_parses key then (files, cert, key)
          else generate_cert env files
      | _ \<Rightarrow> generate_cert env files)"

text \<open>
  \<open>build_server_config\<close>: the fingerprint that is logged and the certificate that is presented; \<open>None\<close> where the
  configuration is refused (a key that does not belong to the certificate) and the network thread panics.
\<close>

definition build_server_config ::
  "(bytes \<Rightarrow> bytes) \<Rightarrow> (bytes \<Rightarrow> bool) \<Rightarrow> (bytes \<Rightarrow> bytes \<Rightarrow> bool) \<Rightarrow> start_env \<Rightarrow> identity_files \<Rightarrow> identity_files \<times> (bytes \<times> string) option" where
  "build_server_config sha256 key_parses key_of env files =
     (case load_or_generate_cert key_parses env files of
        (files1, cert, key) \<Rightarrow> (files1, if key_of cert key then Some (cert, fingerprint sha256 cert) else None))"

text \<open>Starts of the server one after the other; the certificates presented.\<close>

fun server_starts ::
  "(bytes \<Rightarrow> bytes) \<Rightarrow> (bytes \<Rightarrow> bool) \<Rightarrow> (bytes \<Rightarrow> bytes \<Rightarrow> bool) \<Rightarrow> start_env list \<Rightarrow> identity_files \<Rightarrow> identity_files \<times> bytes option list" where
  "server_starts sha256 key_parses key_of [] files = (files, [])"
| "server_starts sha256 key_parses key_of (env # envs) files =
     (case build_server_config sha256 key_parses key_of env files of
        (files1, r) \<Rightarrow>
          (case server_starts sha256 key_parses key_of envs files1 of
             (files2, rs) \<Rightarrow> (files2, map_option fst r # rs)))"

subsection \<open>A stable identity\<close>

text \<open>What is used of rcgen: a generated key parses and belongs to its certificate.\<close>

definition sound_identity :: "(bytes \<Rightarrow> bool) \<Rightarrow> (bytes \<Rightarrow> bytes \<Rightarrow> bool) \<Rightarrow> start_env \<Rightarrow> bool" where
  "sound_identity key_parses key_of env \<longleftrightarrow> (case st_fresh env of (cert, key) \<Rightarrow> key_parses key \<and> key_of cert key)"

definition readable :: "start_env \<Rightarrow> bool" where
  "readable env \<longleftrightarrow> st_cert_readable env \<and> st_key_readable env"

lemma kept_identity:
  assumes "list_all readable envs" "key_parses key" "key_of cert key"
    and "idf_cert files = Some cert" "idf_key files = Some key"
  shows "server_starts sha256 key_parses key_of envs files = (files, map (\<lambda>_. Some cert) envs)"
  using assms(1)
  by (induction envs) (simp_all add: build_server_config_def load_or_generate_cert_def readable_def assms(2-5))

text \<open>
  C24.  A server that could save its identity when it made it presents the same certificate at every later start; and
  a client that trusted it on first use accepts it at each of them, whatever else the client connected to
  in between.
\<close>
theorem identity_stable:
  assumes "sound_identity key_parses key_of env" "st_dir_ok env" "st_cert_write env = Written" "st_key_write env = Written"
    and "idf_cert files = None" "list_all readable envs"
    and "hm_get (ps_pins pins) server = None"
    and "pins1 = fst (check_pin sha256 (Tofu server) False w (fst (st_fresh env)) pins)" "pins2 = fold pin_step qs pins1"
  shows "snd (server_starts sha256 key_parses key_of (env # envs) files) = map (\<lambda>_. Some (fst (st_fresh env))) (env # envs)
       \<and> (\<forall>c \<in> set (snd (server_starts sha256 key_parses key_of (env # envs) files)). c \<noteq> None
            \<and> check_pin sha256 (Tofu server) False w' (the c) pins2 = (pins2, Inr ()))"
proof -
  obtain cert key where fresh: "st_fresh env = (cert, key)" by fastforce
  have k: "key_parses key" "key_of cert key" using assms(1) by (simp_all add: sound_identity_def fresh)
  define files1 where "files1 = files\<lparr> idf_cert := Some cert, idf_key := Some key \<rparr>"
  have "build_server_config sha256 key_parses key_of env files = (files1, Some (cert, fingerprint sha256 cert))"
    using assms(2-5) k by (simp add: build_server_config_def load_or_generate_cert_def generate_cert_def fresh files1_def)
  moreover have "server_starts sha256 key_parses key_of envs files1 = (files1, map (\<lambda>_. Some cert) envs)"
    using assms(6) k by (intro kept_identity) (simp_all add: files1_def)
  ultimately have starts: "snd (server_starts sha256 key_parses key_of (env # envs) files) = map (\<lambda>_. Some cert) (env # envs)"
    by simp
  have "hm_get (ps_pins pins1) server = Some (fingerprint sha256 cert)"
    unfolding assms(8) using assms(7)
    by (cases w) (simp_all add: check_pin_def Let_def verify_or_remember_def persist_def fresh)
  then have "hm_get (ps_pins pins2) server = Some (fingerprint sha256 cert)"
    unfolding assms(9) by (rule pins_keep)
  then have "check_pin sha256 (Tofu server) False w' cert pins2 = (pins2, Inr ())"
    by (simp add: check_pin_def Let_def verify_or_remember_def fingerprints_match_def)
  with starts show ?thesis by (simp add: fresh)
qed

subsection \<open>A torn identity\<close>

text \<open>
  The certificate is replaced before the key.  If a start cannot read the key, generates an identity and then
  fails to write the key, the new certificate stays beside the old key: every later start that reads both
  refuses its own configuration, and the server does not come up until the files are removed by hand.
\<close>
theorem torn_identity:
  assumes "sound_identity key_parses key_of env" "idf_key files = Some key" "key_parses key" "\<not> key_of (fst (st_fresh env)) key"
    and "\<not> st_key_readable env" "st_dir_ok env" "st_cert_write env = Written" "st_key_write env = NotWritten"
    and "list_all readable envs"
  shows "snd (server_starts sha256 key_parses key_of (env # envs) files) = Some (fst (st_fresh env)) # map (\<lambda>_. None) envs"
proof -
  obtain cert fresh_key where fresh: "st_fresh env = (cert, fresh_key)" by fastforce
  define files1 where "files1 = files\<lparr> idf_cert := Some cert \<rparr>"
  have "snd (server_starts sha256 key_parses key_of envs files1) = map (\<lambda>_. None) envs"
    using assms(9) fresh assms(2-4)
    by (induction envs) (simp_all add: build_server_config_def load_or_generate_cert_def readable_def files1_def split_beta)
  moreover have "build_server_config sha256 key_parses key_of env files = (files1, Some (cert, fingerprint sha256 cert))"
    using assms(1,5-8) by (simp add: build_server_config_def load_or_generate_cert_def generate_cert_def fresh files1_def sound_identity_def
        split: option.split)
  ultimately show ?thesis by (simp add: fresh split_beta)
qed

text \<open>The witnesses: keys are certificates with a leading zero.\<close>

definition sample_start :: "bytes \<Rightarrow> start_env" where
  "sample_start cert = \<lparr> st_cert_readable = True, st_key_readable = True, st_fresh = (cert, 0 # cert), st_dir_ok = True,
     st_cert_write = Written, st_key_write = Written \<rparr>"

definition zero_key :: "bytes \<Rightarrow> bytes \<Rightarrow> bool" where "zero_key cert key \<longleftrightarrow> key = 0 # cert"

lemma sample_start_sound: "sound_identity (\<lambda>k. k \<noteq> []) zero_key (sample_start cert)" "readable (sample_start cert)"
  by (simp_all add: sound_identity_def sample_start_def zero_key_def readable_def)

theorem identity_stable_witness:
  "let files = \<lparr> idf_cert = None, idf_key = None \<rparr>;
       pins = fst (check_pin id (Tofu ''home'') False Written [7] \<lparr> ps_file = None, ps_pins = [] \<rparr>)
   in snd (server_starts id (\<lambda>k. k \<noteq> []) zero_key (map sample_start [[7], [8], [9]]) files) = [Some [7], Some [7], Some [7]]
    \<and> check_pin id (Tofu ''home'') False Written [7] pins = (pins, Inr ())"
proof -
  let ?files = "\<lparr> idf_cert = None, idf_key = None \<rparr>"
  let ?pins = "\<lparr> ps_file = None, ps_pins = [] \<rparr> :: pin_store"
  have start: "fst (st_fresh (sample_start [7])) = [7]" "st_dir_ok (sample_start [7])"
    "st_cert_write (sample_start [7]) = Written" "st_key_write (sample_start [7]) = Written" by (simp_all add: sample_start_def)
  have "idf_cert ?files = None" "list_all readable (map sample_start [[8], [9]])" "hm_get (ps_pins ?pins) ''home'' = None"
    by (simp_all add: sample_start_sound)
  note stable = identity_stable [OF sample_start_sound(1) start(2-4) this refl refl, of id Written "[]" Written]
  then have certs: "snd (server_starts id (\<lambda>k. k \<noteq> []) zero_key (map sample_start [[7], [8], [9]]) ?files) = [Some [7], Some [7], Some [7]]"
    by (simp only: start list.map)
  then have "Some [7] \<in> set (snd (server_starts id (\<lambda>k. k \<noteq> []) zero_key (sample_start [7] # map sample_start [[8], [9]]) ?files))"
    by (simp del: server_starts.simps)
  from stable [THEN conjunct2, THEN bspec, OF this] certs show ?thesis
    by (simp del: server_starts.simps add: Let_def start)
qed

theorem torn_identity_witness:
  "let env = (sample_start [8])\<lparr> st_key_readable := False, st_key_write := NotWritten \<rparr> in
   snd (server_starts id (\<lambda>k. k \<noteq> []) zero_key (env # map sample_start [[9], [10]]) \<lparr> idf_cert = Some [7], idf_key = Some [0, 7] \<rparr>)
     = [Some [8], None, None]"
proof -
  let ?env = "(sample_start [8])\<lparr> st_key_readable := False, st_key_write := NotWritten \<rparr>"
  have "sound_identity (\<lambda>k. k \<noteq> []) zero_key ?env" "\<not> zero_key (fst (st_fresh ?env)) [0, 7]" "\<not> st_key_readable ?env"
    "st_dir_ok ?env" "st_cert_write ?env = Written" "st_key_write ?env = NotWritten" "fst (st_fresh ?env) = [8]"
    by (simp_all add: sound_identity_def sample_start_def zero_key_def)
  from torn_identity [OF this(1) _ _ this(2-6), of "\<lparr> idf_cert = Some [7], idf_key = Some [0, 7] \<rparr>" "map sample_start [[9], [10]]" id] this(7)
  show ?thesis by (simp add: sample_start_sound list_all_iff del: server_starts.simps)
qed

end
