(* ===== verification/SessionTypes.thy ===== *)
theory SessionTypes
  imports Prelude
begin

text \<open>
  Compositor sessions and their lifecycle (\<open>crates/wrsrvd/src/session/types.rs\<close>).  The current
  time is an argument where the code calls \<open>Instant::now()\<close>.  A session id is the \<open>u64\<close> inside
  \<open>SessionId\<close>, a token the string inside \<open>SessionToken\<close>.
\<close>

type_synonym session_id = u64
type_synonym session_token = string

datatype session_state = Creating | Active | Suspended | Destroyed

fun can_transition_to :: "session_state \<Rightarrow> session_state \<Rightarrow> bool" where
  "can_transition_to Creating Active = True"
| "can_transition_to Creating Destroyed = True"
| "can_transition_to Active Suspended = True"
| "can_transition_to Active Destroyed = True"
| "can_transition_to Suspended Active = True"
| "can_transition_to Suspended Destroyed = True"
| "can_transition_to _ _ = False"

fun session_state_display :: "session_state \<Rightarrow> string" where
  "session_state_display Creating = ''creating''"
| "session_state_display Active = ''active''"
| "session_state_display Suspended = ''suspended''"
| "session_state_display Destroyed = ''destroyed''"

record session =
  s_id :: session_id
  s_token :: session_token
  s_state :: session_state
  s_created_at :: instant
  s_suspended_at :: "instant option"
  s_suspend_timeout :: duration
  s_user :: "string option"
  s_home_server :: string

definition session_new :: "instant \<Rightarrow> session_id \<Rightarrow> session_token \<Rightarrow> string \<Rightarrow> session" where
  "session_new now i tok home =
     \<lparr> s_id = i, s_token = tok, s_state = Creating, s_created_at = now, s_suspended_at = None,
       s_suspend_timeout = from_secs (24 * 60 * 60), s_user = None, s_home_server = home \<rparr>"

record transition_error =
  te_session_id :: session_id
  te_from :: session_state
  te_to :: session_state

definition session_transition ::
  "instant \<Rightarrow> session \<Rightarrow> session_state \<Rightarrow> transition_error + session" where
  "session_transition now s nxt =
     (if \<not> can_transition_to (s_state s) nxt
      then Inl \<lparr> te_session_id = s_id s, te_from = s_state s, te_to = nxt \<rparr>
      else Inr (s\<lparr> s_suspended_at := (if nxt = Suspended then Some now else None),
                  s_state := nxt \<rparr>))"

definition elapsed :: "instant \<Rightarrow> instant \<Rightarrow> duration" where
  "elapsed now t = now - t"

definition is_suspend_expired :: "instant \<Rightarrow> session \<Rightarrow> bool" where
  "is_suspend_expired now s =
     (if s_state s \<noteq> Suspended then False
      else case s_suspended_at s of
             None \<Rightarrow> False
           | Some t \<Rightarrow> s_suspend_timeout s \<le> elapsed now t)"

subsection \<open>The lifecycle\<close>

fun_cases can_transitionE: "can_transition_to st nxt"

lemma can_transition_iff:
  "can_transition_to st nxt \<longleftrightarrow>
     st \<noteq> Destroyed \<and> st \<noteq> nxt \<and> nxt \<noteq> Creating \<and> \<not> (st = Creating \<and> nxt = Suspended)"
  by (cases st; cases nxt) simp_all

lemma destroyed_is_final [simp]: "\<not> can_transition_to Destroyed nxt"
  by (cases nxt) simp_all

lemma session_transition_Inr:
  "session_transition now s nxt = Inr s' \<longleftrightarrow>
     can_transition_to (s_state s) nxt \<and>
     s' = s\<lparr> s_suspended_at := (if nxt = Suspended then Some now else None), s_state := nxt \<rparr>"
  by (auto simp: session_transition_def)

lemma session_transition_Inl:
  "session_transition now s nxt = Inl e \<longleftrightarrow>
     \<not> can_transition_to (s_state s) nxt \<and>
     e = \<lparr> te_session_id = s_id s, te_from = s_state s, te_to = nxt \<rparr>"
  by (auto simp: session_transition_def)

text \<open>A session carries a suspension time exactly while it is suspended.\<close>

definition session_ok :: "session \<Rightarrow> bool" where
  "session_ok s \<longleftrightarrow> (s_suspended_at s \<noteq> None) = (s_state s = Suspended)"

lemma session_new_ok [wr_invs]: "session_ok (session_new now i tok home)"
  by (simp add: session_ok_def session_new_def)

lemma session_transition_ok [wr_invs]: "session_transition now s nxt = Inr s' \<Longrightarrow> session_ok s'"
  by (auto simp: session_transition_Inr session_ok_def)

lemma is_suspend_expired_iff:
  "is_suspend_expired now s \<longleftrightarrow>
     s_state s = Suspended \<and> (\<exists>t. s_suspended_at s = Some t \<and> s_suspend_timeout s \<le> now - t)"
  by (auto simp: is_suspend_expired_def elapsed_def split: option.splits)

text \<open>
  A sequence of transition requests, each applied when it is allowed and ignored otherwise, as the
  callers of \<open>transition\<close> do.
\<close>

fun apply_transitions :: "session \<Rightarrow> (instant \<times> session_state) list \<Rightarrow> session" where
  "apply_transitions s [] = s"
| "apply_transitions s ((now, nxt) # ts) =
     (case session_transition now s nxt of
        Inl _ \<Rightarrow> apply_transitions s ts
      | Inr s' \<Rightarrow> apply_transitions s' ts)"

lemma apply_transitions_destroyed:
  "s_state s = Destroyed \<Longrightarrow> apply_transitions s ts = s"
  by (induction s ts rule: apply_transitions.induct) (auto simp: session_transition_def)

lemma apply_transitions_append:
  "apply_transitions s (ts @ us) = apply_transitions (apply_transitions s ts) us"
  by (induction s ts rule: apply_transitions.induct) (auto split: sum.splits)

lemma apply_transitions_ok [wr_invs]: "session_ok s \<Longrightarrow> session_ok (apply_transitions s ts)"
  by (induction s ts rule: apply_transitions.induct)
     (auto split: sum.splits dest: session_transition_ok)

lemma apply_transitions_fixed [simp]:
  "s_id (apply_transitions s ts) = s_id s"
  "s_token (apply_transitions s ts) = s_token s"
  "s_suspend_timeout (apply_transitions s ts) = s_suspend_timeout s"
  by (induction s ts rule: apply_transitions.induct)
     (auto split: sum.splits simp: session_transition_Inr)

text \<open>
  The lifecycle of a session from its creation, under any sequence of requested transitions:
  it never returns to \<open>Creating\<close>, a destroyed session stays destroyed and unchanged whatever is
  requested, it carries a suspension time exactly while it is suspended, and it can only expire
  while suspended.
\<close>
theorem session_lifecycle:
  "let s = apply_transitions (session_new now i tok home) ts; s' = apply_transitions s us in
     (s_state s = Destroyed \<longrightarrow> s' = s) \<and>
     (s_state s \<noteq> Creating \<longrightarrow> s_state s' \<noteq> Creating) \<and>
     (s_suspended_at s \<noteq> None) = (s_state s = Suspended) \<and>
     (\<forall>later. is_suspend_expired later s \<longrightarrow> s_state s = Suspended)"
proof -
  have "s_state s \<noteq> Creating \<Longrightarrow> s_state (apply_transitions s us) \<noteq> Creating" for s
    by (induction s us rule: apply_transitions.induct)
       (auto split: sum.splits simp: session_transition_Inr can_transition_iff)
  moreover have "session_ok (apply_transitions (session_new now i tok home) ts)"
    by (intro wr_invs)
  ultimately show ?thesis
    by (auto simp: apply_transitions_destroyed session_ok_def is_suspend_expired_iff)
qed

theorem session_lifecycle_witness:
  "s_state (apply_transitions (session_new 0 1 ''t'' ''h'') [(1, Active), (2, Suspended), (3, Destroyed)])
     = Destroyed
   \<and> apply_transitions (apply_transitions (session_new 0 1 ''t'' ''h'')
        [(1, Active), (2, Suspended), (3, Destroyed)]) [(4, Active)]
     = apply_transitions (session_new 0 1 ''t'' ''h'') [(1, Active), (2, Suspended), (3, Destroyed)]"
proof -
  have "s_state (apply_transitions (session_new 0 1 ''t'' ''h'')
    [(1, Active), (2, Suspended), (3, Destroyed)]) = Destroyed"
    by (simp add: session_new_def session_transition_def)
  then show ?thesis
    using session_lifecycle [of 0 1 "''t''" "''h''" "[(1, Active), (2, Suspended), (3, Destroyed)]" "[(4, Active)]"]
    unfolding Let_def by blast
qed

end
