(* ===== verification/Persistence.thy ===== *)
theory Persistence
  imports SessionTypes
begin

text \<open>
  Session persistence (\<open>crates/wrsrvd/src/session/persistence.rs\<close> and \<open>entity.rs\<close>): the
  \<open>SessionStore\<close> trait with its two implementations, \<open>NullStore\<close> and \<open>SqliteStore\<close>.

  The SQLite table is keyed by the session id; an insert with \<open>on_conflict(Id).update_columns(...)\<close>
  replaces the row of that id.  A statement may fail: \<open>sq_fault\<close> says which writer operations and
  \<open>sq_load_fault\<close> whether the query does.  The writer task drains its queue in order; \<open>sq_writer\<close>
  is whether it still runs.  \<open>flush\<close> is modelled as completing: its five-second timeout is the
  case where the writer is stuck, which the code treats like a writer that is gone.
  The contract of the trait is the locale \<open>session_store\<close>.
\<close>

record clock =
  ck_now :: instant
  ck_epoch :: nat

record persisted_session =
  ps_id :: u64
  ps_token :: string
  ps_state :: session_state
  ps_user :: "string option"
  ps_home_server :: string
  ps_created_at_epoch :: int
  ps_suspend_timeout :: duration

text \<open>The row of a session, the struct \<open>SessionRecord\<close> and the entity \<open>Model\<close> alike.\<close>

record session_record =
  sr_id :: int
  sr_token :: string
  sr_state :: string
  sr_user :: "string option"
  sr_home_server :: string
  sr_created_at :: int
  sr_suspended_at :: "int option"
  sr_suspend_timeout_secs :: int

datatype op = Save session_record | Delete int

record sqlite_store =
  sq_table :: "(int, session_record) hashmap"
  sq_queue :: "op list"
  sq_writer :: bool
  sq_fault :: "op \<Rightarrow> bool"
  sq_load_fault :: bool

definition state_str :: "session_state \<Rightarrow> string" where
  "state_str st = (case st of Creating \<Rightarrow> ''creating'' | Active \<Rightarrow> ''active''
     | Suspended \<Rightarrow> ''suspended'' | Destroyed \<Rightarrow> ''destroyed'')"

definition parse_state :: "string \<Rightarrow> session_state option" where
  "parse_state s =
     (if s = ''creating'' then Some Creating
      else if s = ''active'' then Some Active
      else if s = ''suspended'' then Some Suspended
      else if s = ''destroyed'' then Some Destroyed
      else None)"

definition record_of :: "clock \<Rightarrow> session \<Rightarrow> session_record" where
  "record_of ck s =
     (let now_epoch = as_i64 (ck_epoch ck) in
      \<lparr> sr_id = as_i64 (unat (s_id s)), sr_token = s_token s, sr_state = state_str (s_state s),
        sr_user = s_user s, sr_home_server = s_home_server s,
        sr_created_at = now_epoch - as_i64 (as_secs (elapsed (ck_now ck) (s_created_at s))),
        sr_suspended_at = map_option (\<lambda>t. now_epoch - as_i64 (as_secs (elapsed (ck_now ck) t)))
                            (s_suspended_at s),
        sr_suspend_timeout_secs = as_i64 (as_secs (s_suspend_timeout s)) \<rparr>)"

definition save_record :: "session_record \<Rightarrow> (int, session_record) hashmap \<Rightarrow> (int, session_record) hashmap" where
  "save_record r table = hm_insert (sr_id r) r table"

text \<open>One round of the writer task's loop.\<close>

definition writer_step :: "(op \<Rightarrow> bool) \<Rightarrow> op \<Rightarrow> (int, session_record) hashmap \<Rightarrow> (int, session_record) hashmap" where
  "writer_step fault operation table =
     (if fault operation then table
      else case operation of
             Save r \<Rightarrow> save_record r table
           | Delete i \<Rightarrow> hm_remove i table)"

definition sqlite_send :: "op \<Rightarrow> sqlite_store \<Rightarrow> sqlite_store" where
  "sqlite_send operation st =
     (if sq_writer st then st\<lparr> sq_queue := sq_queue st @ [operation] \<rparr> else st)"

definition sqlite_persist :: "clock \<Rightarrow> session \<Rightarrow> sqlite_store \<Rightarrow> sqlite_store" where
  "sqlite_persist ck s st = sqlite_send (Save (record_of ck s)) st"

definition sqlite_remove :: "session_id \<Rightarrow> sqlite_store \<Rightarrow> sqlite_store" where
  "sqlite_remove i st = sqlite_send (Delete (as_i64 (unat i))) st"

definition sqlite_flush :: "sqlite_store \<Rightarrow> sqlite_store" where
  "sqlite_flush st =
     (if sq_writer st
      then st\<lparr> sq_table := fold (writer_step (sq_fault st)) (sq_queue st) (sq_table st), sq_queue := [] \<rparr>
      else st)"

definition persisted_of_row :: "session_record \<Rightarrow> persisted_session option" where
  "persisted_of_row r =
     (case parse_state (sr_state r) of
        None \<Rightarrow> None
      | Some state \<Rightarrow> Some
          \<lparr> ps_id = as_u64 (sr_id r), ps_token = sr_token r, ps_state = state, ps_user = sr_user r,
            ps_home_server = sr_home_server r, ps_created_at_epoch = sr_created_at r,
            ps_suspend_timeout = from_secs (nat (max (sr_suspend_timeout_secs r) 0)) \<rparr>)"

definition sqlite_load_all :: "sqlite_store \<Rightarrow> sqlite_store \<times> persisted_session list" where
  "sqlite_load_all st =
     (let st' = sqlite_flush st in
      (st', if sq_load_fault st' then []
            else List.map_filter persisted_of_row (hm_values (sq_table st'))))"

definition sqlite_open :: "(int, session_record) hashmap \<Rightarrow> sqlite_store" where
  "sqlite_open file =
     \<lparr> sq_table = file, sq_queue = [], sq_writer = True, sq_fault = (\<lambda>_. False), sq_load_fault = False \<rparr>"

text \<open>\<open>Arc<dyn SessionStore>\<close>: the registry's store is one of the two implementations.\<close>

datatype store = NullStore | SqliteStore sqlite_store

fun store_persist :: "clock \<Rightarrow> session \<Rightarrow> store \<Rightarrow> store" where
  "store_persist ck s NullStore = NullStore"
| "store_persist ck s (SqliteStore st) = SqliteStore (sqlite_persist ck s st)"

fun store_remove :: "session_id \<Rightarrow> store \<Rightarrow> store" where
  "store_remove i NullStore = NullStore"
| "store_remove i (SqliteStore st) = SqliteStore (sqlite_remove i st)"

fun store_load_all :: "store \<Rightarrow> store \<times> persisted_session list" where
  "store_load_all NullStore = (NullStore, [])"
| "store_load_all (SqliteStore st) = (case sqlite_load_all st of (st', rows) \<Rightarrow> (SqliteStore st', rows))"

fun store_flush :: "store \<Rightarrow> store" where
  "store_flush NullStore = NullStore"
| "store_flush (SqliteStore st) = SqliteStore (sqlite_flush st)"

subsection \<open>Rows\<close>

lemma parse_state_str [simp]: "parse_state (state_str st) = Some st"
  by (cases st) (simp_all add: parse_state_def state_str_def)

lemma state_str_display: "state_str st = session_state_display st"
  by (cases st) (simp_all add: state_str_def)

lemma parse_state_Some: "parse_state s = Some st \<longleftrightarrow> s = state_str st"
  by (cases st) (auto simp: parse_state_def state_str_def split: if_splits)

text \<open>What is left of a session after it has been written and loaded back.\<close>

definition durable :: "clock \<Rightarrow> session \<Rightarrow> persisted_session" where
  "durable ck s =
     \<lparr> ps_id = s_id s, ps_token = s_token s, ps_state = s_state s, ps_user = s_user s,
       ps_home_server = s_home_server s,
       ps_created_at_epoch = as_i64 (ck_epoch ck) - as_i64 (as_secs (elapsed (ck_now ck) (s_created_at s))),
       ps_suspend_timeout = from_secs (nat (max (as_i64 (as_secs (s_suspend_timeout s))) 0)) \<rparr>"

lemma persisted_record_of [simp]: "persisted_of_row (record_of ck s) = Some (durable ck s)"
  by (simp add: persisted_of_row_def record_of_def durable_def Let_def)

lemma sr_id_record_of [simp]: "sr_id (record_of ck s) = as_i64 (unat (s_id s))"
  by (simp add: record_of_def Let_def)

lemma persisted_of_row_id: "persisted_of_row r = Some p \<Longrightarrow> ps_id p = as_u64 (sr_id r)"
  by (auto simp: persisted_of_row_def split: option.splits)

subsection \<open>The contract of a session store\<close>

text \<open>
  \<open>view s\<close> is what a load will give once the operations issued so far have been applied: a map
  from session ids.  The first locale is what every implementation promises; \<open>durable_store\<close>
  adds that a persisted session can be loaded again.
\<close>

locale session_store =
  fixes persist :: "clock \<Rightarrow> session \<Rightarrow> 's \<Rightarrow> 's"
    and remove :: "session_id \<Rightarrow> 's \<Rightarrow> 's"
    and load_all :: "'s \<Rightarrow> 's \<times> persisted_session list"
    and flush :: "'s \<Rightarrow> 's"
    and inv :: "'s \<Rightarrow> bool"
    and view :: "'s \<Rightarrow> session_id \<Rightarrow> persisted_session option"
  assumes inv_persist: "inv s \<Longrightarrow> inv (persist ck x s)"
    and inv_remove: "inv s \<Longrightarrow> inv (remove i s)"
    and inv_load: "inv s \<Longrightarrow> inv (fst (load_all s))"
    and inv_flush: "inv s \<Longrightarrow> inv (flush s)"
    and view_persist_other: "inv s \<Longrightarrow> i \<noteq> s_id x \<Longrightarrow> view (persist ck x s) i = view s i"
    and view_remove: "inv s \<Longrightarrow> view (remove i s) = (view s)(i := None)"
    and view_load: "inv s \<Longrightarrow> view (fst (load_all s)) = view s"
    and view_flush: "inv s \<Longrightarrow> view (flush s) = view s"
    and load_distinct: "inv s \<Longrightarrow> distinct (map ps_id (snd (load_all s)))"
    and load_view: "inv s \<Longrightarrow> p \<in> set (snd (load_all s)) \<longleftrightarrow> view s (ps_id p) = Some p"
begin

lemma load_after_remove: "inv s \<Longrightarrow> p \<in> set (snd (load_all (remove i s))) \<Longrightarrow> ps_id p \<noteq> i"
  by (auto simp: load_view inv_remove view_remove split: if_splits)

lemma reload: "inv s \<Longrightarrow> set (snd (load_all (fst (load_all s)))) = set (snd (load_all s))"
  by (simp add: set_eq_iff load_view inv_load view_load)

end

locale durable_store = session_store +
  assumes view_persist: "inv s \<Longrightarrow> view (persist ck x s) (s_id x) = Some (durable ck x)"
begin

text \<open>The registry's calls, in order.\<close>

fun run_op :: "(clock \<times> session) + session_id \<Rightarrow> 'a \<Rightarrow> 'a" where
  "run_op (Inl (ck, x)) s = persist ck x s"
| "run_op (Inr i) s = remove i s"

fun op_id :: "(clock \<times> session) + session_id \<Rightarrow> session_id" where
  "op_id (Inl (ck, x)) = s_id x"
| "op_id (Inr i) = i"

fun op_result :: "(clock \<times> session) + session_id \<Rightarrow> persisted_session option" where
  "op_result (Inl (ck, x)) = Some (durable ck x)"
| "op_result (Inr i) = None"

lemma run_op_inv: "inv s \<Longrightarrow> inv (run_op operation s)"
  by (cases "(operation, s)" rule: run_op.cases) (simp_all add: inv_persist inv_remove)

lemma run_op_view: "inv s \<Longrightarrow> view (run_op operation s) = (view s)(op_id operation := op_result operation)"
  by (cases "(operation, s)" rule: run_op.cases)
     (auto simp: view_persist view_persist_other view_remove fun_eq_iff)

lemma run_ops_inv: "inv s \<Longrightarrow> inv (fold run_op ops s)"
  by (induction ops arbitrary: s) (simp_all add: run_op_inv)

lemma run_ops_other: "inv s \<Longrightarrow> i \<notin> op_id ` set ops \<Longrightarrow> view (fold run_op ops s) i = view s i"
  by (induction ops arbitrary: s) (auto simp: run_op_inv run_op_view)

text \<open>The last call about an id decides what a load gives for it.\<close>

lemma last_op_wins:
  assumes "inv s" "op_id operation \<notin> op_id ` set later"
  shows "view (fold run_op (earlier @ operation # later) s) (op_id operation) = op_result operation"
  using assms by (simp add: run_ops_inv run_op_inv run_ops_other run_op_view)

lemma last_op_loaded:
  assumes "inv s" "op_id operation \<notin> op_id ` set later"
  shows "{p \<in> set (snd (load_all (fold run_op (earlier @ operation # later) s))). ps_id p = op_id operation}
           = set_option (op_result operation)"
  using last_op_wins [OF assms, of earlier] run_ops_inv [OF assms(1), of "earlier @ operation # later"]
  by (cases operation) (auto simp: load_view durable_def split: prod.splits)

end

subsection \<open>The SQLite store keeps the contract\<close>

text \<open>
  \<open>sqlite_ok\<close>: the writer runs, no statement fails, the table is keyed by the ids its rows carry,
  every row has a state the loader knows and an id that is the image of a \<open>u64\<close>.
\<close>

definition row_ok :: "int \<Rightarrow> session_record \<Rightarrow> bool" where
  "row_ok k r \<longleftrightarrow> sr_id r = k \<and> as_i64 (unat (as_u64 k)) = k \<and> persisted_of_row r \<noteq> None"

definition op_ok :: "op \<Rightarrow> bool" where
  "op_ok operation = (case operation of Save r \<Rightarrow> row_ok (sr_id r) r | Delete i \<Rightarrow> True)"

definition table_ok :: "(int, session_record) hashmap \<Rightarrow> bool" where
  "table_ok t \<longleftrightarrow> hm_wf t \<and> (\<forall>(k, r) \<in> set t. row_ok k r)"

definition sqlite_ok :: "sqlite_store \<Rightarrow> bool" where
  "sqlite_ok st \<longleftrightarrow> sq_writer st \<and> (\<forall>operation. \<not> sq_fault st operation) \<and> \<not> sq_load_fault st
     \<and> table_ok (sq_table st) \<and> list_all op_ok (sq_queue st)"

definition table_view :: "(int, session_record) hashmap \<Rightarrow> session_id \<Rightarrow> persisted_session option" where
  "table_view t i = (case hm_get t (as_i64 (unat i)) of None \<Rightarrow> None | Some r \<Rightarrow> persisted_of_row r)"

definition sqlite_view :: "sqlite_store \<Rightarrow> session_id \<Rightarrow> persisted_session option" where
  "sqlite_view st = table_view (sq_table (sqlite_flush st))"

lemma row_ok_record_of [simp]: "row_ok (as_i64 (unat (s_id x))) (record_of ck x)"
  by (simp add: row_ok_def)

lemma table_ok_get: "table_ok t \<Longrightarrow> hm_get t k = Some r \<Longrightarrow> row_ok k r"
  by (auto simp: table_ok_def dest: map_of_SomeD)

lemma table_ok_iff: "table_ok t \<longleftrightarrow> hm_wf t \<and> (\<forall>k r. hm_get t k = Some r \<longrightarrow> row_ok k r)"
  by (auto simp: table_ok_def hm_get_in)

lemma writer_step_ok: "op_ok operation \<Longrightarrow> table_ok t \<Longrightarrow> table_ok (writer_step fault operation t)"
  by (auto simp: table_ok_iff writer_step_def save_record_def op_ok_def split: op.splits)

lemma fold_writer_ok:
  "list_all op_ok ops \<Longrightarrow> table_ok t \<Longrightarrow> table_ok (fold (writer_step fault) ops t)"
  by (induction ops arbitrary: t) (simp_all add: writer_step_ok)

lemma sqlite_flush_ok [wr_invs]: "sqlite_ok st \<Longrightarrow> sqlite_ok (sqlite_flush st)"
  by (simp add: sqlite_ok_def sqlite_flush_def fold_writer_ok)

lemma sqlite_flush_queue: "sqlite_ok st \<Longrightarrow> sq_queue (sqlite_flush st) = []"
  by (simp add: sqlite_ok_def sqlite_flush_def)

lemma sqlite_flush_again: "sqlite_ok st \<Longrightarrow> sqlite_flush (sqlite_flush st) = sqlite_flush st"
  by (simp add: sqlite_ok_def sqlite_flush_def)

lemma sqlite_flush_send:
  "sqlite_ok st \<Longrightarrow> sq_table (sqlite_flush (sqlite_send operation st))
     = writer_step (sq_fault st) operation (sq_table (sqlite_flush st))"
  by (simp add: sqlite_ok_def sqlite_flush_def sqlite_send_def)

lemma sqlite_send_ok: "sqlite_ok st \<Longrightarrow> op_ok operation \<Longrightarrow> sqlite_ok (sqlite_send operation st)"
  by (simp add: sqlite_ok_def sqlite_send_def)

lemma sqlite_persist_ok [wr_invs]: "sqlite_ok st \<Longrightarrow> sqlite_ok (sqlite_persist ck x st)"
  by (simp add: sqlite_persist_def sqlite_send_ok op_ok_def)

lemma sqlite_remove_ok [wr_invs]: "sqlite_ok st \<Longrightarrow> sqlite_ok (sqlite_remove i st)"
  by (simp add: sqlite_remove_def sqlite_send_ok op_ok_def)

lemma sqlite_view_persist:
  assumes "sqlite_ok st"
  shows "sqlite_view (sqlite_persist ck x st) = (sqlite_view st)(s_id x \<mapsto> durable ck x)"
proof -
  have "\<not> sq_fault st operation" for operation using assms by (simp add: sqlite_ok_def)
  then show ?thesis
    using assms
    by (auto simp: sqlite_view_def sqlite_persist_def sqlite_flush_send writer_step_def
        save_record_def table_view_def fun_eq_iff)
qed

lemma sqlite_view_remove:
  assumes "sqlite_ok st"
  shows "sqlite_view (sqlite_remove i st) = (sqlite_view st)(i := None)"
proof -
  have "\<not> sq_fault st operation" for operation using assms by (simp add: sqlite_ok_def)
  then show ?thesis
    using assms
    by (auto simp: sqlite_view_def sqlite_remove_def sqlite_flush_send writer_step_def
        table_view_def fun_eq_iff)
qed

lemma table_loaded:
  assumes "table_ok t"
  shows "p \<in> set (List.map_filter persisted_of_row (hm_values t)) \<longleftrightarrow> table_view t (ps_id p) = Some p"
proof
  assume "p \<in> set (List.map_filter persisted_of_row (hm_values t))"
  then obtain k r where kr: "(k, r) \<in> set t" "persisted_of_row r = Some p"
    by (auto simp: List.map_filter_def)
  then have "hm_get t k = Some r" "row_ok k r" using assms by (auto simp: table_ok_def hm_get_in)
  then show "table_view t (ps_id p) = Some p"
    using kr(2) persisted_of_row_id [OF kr(2)] by (simp add: table_view_def row_ok_def)
next
  assume "table_view t (ps_id p) = Some p"
  then obtain k r where "hm_get t k = Some r" "persisted_of_row r = Some p"
    by (auto simp: table_view_def split: option.splits)
  then show "p \<in> set (List.map_filter persisted_of_row (hm_values t))"
    by (force simp: List.map_filter_def dest: map_of_SomeD)
qed

lemma map_filter_all_Some:
  "(\<forall>x \<in> set xs. f x \<noteq> None) \<Longrightarrow> List.map_filter f xs = map (the \<circ> f) xs"
  by (induction xs) (auto simp: List.map_filter_simps)

lemma table_loaded_distinct:
  assumes "table_ok t"
  shows "distinct (map ps_id (List.map_filter persisted_of_row (hm_values t)))"
proof -
  have rows: "\<forall>(k, r) \<in> set t. row_ok k r" using assms by (simp add: table_ok_def)
  then have "List.map_filter persisted_of_row (hm_values t)
      = map (the \<circ> persisted_of_row) (hm_values t)"
    by (intro map_filter_all_Some) (auto simp: row_ok_def)
  moreover have "map (ps_id \<circ> (the \<circ> persisted_of_row) \<circ> snd) t = map (as_u64 \<circ> fst) t"
  proof (rule map_cong [OF refl])
    fix p assume "p \<in> set t"
    with rows have "row_ok (fst p) (snd p)" by auto
    then show "(ps_id \<circ> (the \<circ> persisted_of_row) \<circ> snd) p = (as_u64 \<circ> fst) p"
      using persisted_of_row_id [of "snd p"] by (auto simp: row_ok_def)
  qed
  moreover have inj: "inj_on as_u64 (fst ` set t)"
  proof (rule inj_onI)
    fix a b assume "a \<in> fst ` set t" "b \<in> fst ` set t" "as_u64 a = as_u64 b"
    moreover from this rows have "as_i64 (unat (as_u64 a)) = a" "as_i64 (unat (as_u64 b)) = b"
      by (auto simp: row_ok_def)
    ultimately show "a = b" by metis
  qed
  ultimately have "map ps_id (List.map_filter persisted_of_row (hm_values t)) = map as_u64 (hm_keys t)"
    by (simp add: o_assoc)
  moreover have "distinct (map as_u64 (hm_keys t))"
    unfolding distinct_map [of as_u64] using assms inj by (simp add: table_ok_def)
  ultimately show ?thesis by simp
qed

interpretation sqlite: durable_store sqlite_persist sqlite_remove sqlite_load_all sqlite_flush
  sqlite_ok sqlite_view
proof unfold_locales
  fix st :: sqlite_store
  assume ok: "sqlite_ok st"
  then have table: "table_ok (sq_table (sqlite_flush st))"
    using sqlite_flush_ok [OF ok] by (simp add: sqlite_ok_def)
  have load: "sqlite_load_all st
      = (sqlite_flush st, List.map_filter persisted_of_row (hm_values (sq_table (sqlite_flush st))))"
    using sqlite_flush_ok [OF ok] by (simp add: sqlite_load_all_def sqlite_ok_def Let_def)
  show "sqlite_ok (fst (sqlite_load_all st))" using ok by (simp add: load sqlite_flush_ok)
  show "sqlite_view (fst (sqlite_load_all st)) = sqlite_view st" "sqlite_view (sqlite_flush st) = sqlite_view st"
    using ok by (simp_all add: load sqlite_view_def sqlite_flush_again)
  show "distinct (map ps_id (snd (sqlite_load_all st)))" by (simp add: load table_loaded_distinct [OF table])
  show "p \<in> set (snd (sqlite_load_all st)) \<longleftrightarrow> sqlite_view st (ps_id p) = Some p" for p
    by (simp add: load table_loaded [OF table] sqlite_view_def)
qed (simp_all add: wr_invs sqlite_view_persist sqlite_view_remove)

text \<open>The registry's store is one of the two; the null store shows nothing and keeps nothing.\<close>

fun store_ok :: "store \<Rightarrow> bool" where
  "store_ok NullStore = True"
| "store_ok (SqliteStore st) = sqlite_ok st"

fun store_view :: "store \<Rightarrow> session_id \<Rightarrow> persisted_session option" where
  "store_view NullStore = Map.empty"
| "store_view (SqliteStore st) = sqlite_view st"

lemma store_load_sqlite [simp]:
  "fst (store_load_all (SqliteStore st)) = SqliteStore (fst (sqlite_load_all st))"
  "snd (store_load_all (SqliteStore st)) = snd (sqlite_load_all st)"
  by (simp_all add: split_beta)

declare store_load_all.simps(2) [simp del]

interpretation store: session_store store_persist store_remove store_load_all store_flush
  store_ok store_view
proof unfold_locales
  show "store_ok s \<Longrightarrow> store_ok (fst (store_load_all s))" for s
    using sqlite.inv_load by (cases s) simp_all
  show "store_ok s \<Longrightarrow> store_view (fst (store_load_all s)) = store_view s" for s
    using sqlite.view_load by (cases s) simp_all
  show "store_ok s \<Longrightarrow> distinct (map ps_id (snd (store_load_all s)))" for s
    using sqlite.load_distinct by (cases s) simp_all
  show "store_ok s \<Longrightarrow> p \<in> set (snd (store_load_all s)) \<longleftrightarrow> store_view s (ps_id p) = Some p" for s p
    using sqlite.load_view by (cases s) simp_all
  show "store_ok s \<Longrightarrow> store_ok (store_persist ck x s)" for s ck x
    by (cases s) (simp_all add: sqlite_persist_ok)
  show "store_ok s \<Longrightarrow> store_ok (store_remove i s)" for s i
    by (cases s) (simp_all add: sqlite_remove_ok)
  show "store_ok s \<Longrightarrow> store_ok (store_flush s)" for s
    by (cases s) (simp_all add: sqlite_flush_ok)
  show "store_ok s \<Longrightarrow> i \<noteq> s_id x \<Longrightarrow> store_view (store_persist ck x s) i = store_view s i" for s i ck x
    by (cases s) (simp_all add: sqlite_view_persist)
  show "store_ok s \<Longrightarrow> store_view (store_remove i s) = (store_view s)(i := None)" for s i
    by (cases s) (simp_all add: sqlite_view_remove)
  show "store_ok s \<Longrightarrow> store_view (store_flush s) = store_view s" for s
    using sqlite.view_flush by (cases s) simp_all
qed

end
