(* ===== verification/Registry.thy ===== *)
theory Registry
  imports Persistence AdminProtocol
begin

text \<open>
  The session registry (\<open>crates/wrsrvd/src/session/registry.rs\<close>): sessions by id, the token index,
  remote affinity with its expiry, the write-through to the session store, the restore at
  startup and the admin snapshot.  The clock is an argument of the operations that read it.
  \<open>load_factor\<close> is exact (\<open>rat\<close>); the code divides two small integers in \<open>f32\<close>.
\<close>

definition REMOTE_SESSION_TTL :: duration where
  "REMOTE_SESSION_TTL = from_secs 30"

definition DEFAULT_CAPACITY :: nat where
  "DEFAULT_CAPACITY = 50"

record remote_entry =
  re_server_id :: string
  re_noted_at :: instant

datatype session_location = Local session_id | Remote string | Unknown

record registry =
  rg_sessions :: "(session_id, session) hashmap"
  rg_token_index :: "(session_token, session_id) hashmap"
  rg_next_id :: u64
  rg_local_server_id :: string
  rg_remote_sessions :: "(session_token, remote_entry) hashmap"
  rg_capacity :: nat
  rg_store :: store

definition registry_new :: registry where
  "registry_new =
     \<lparr> rg_sessions = [], rg_token_index = [], rg_next_id = 1, rg_local_server_id = [],
       rg_remote_sessions = [], rg_capacity = DEFAULT_CAPACITY, rg_store = NullStore \<rparr>"

definition with_store :: "store \<Rightarrow> registry \<Rightarrow> registry" where
  "with_store st r = r\<lparr> rg_store := st \<rparr>"

definition with_cluster :: "string \<Rightarrow> nat \<Rightarrow> registry" where
  "with_cluster sid cap = registry_new\<lparr> rg_local_server_id := sid, rg_capacity := max cap 1 \<rparr>"

subsection \<open>Restore\<close>

definition checked_sub_or_now :: "instant \<Rightarrow> duration \<Rightarrow> instant" where
  "checked_sub_or_now now age = (if age \<le> now then now - age else now)"

definition restored_session :: "clock \<Rightarrow> persisted_session \<Rightarrow> session" where
  "restored_session ck row =
     (let age = from_secs (nat (max (as_i64 (ck_epoch ck) - ps_created_at_epoch row) 0)) in
      \<lparr> s_id = ps_id row, s_token = ps_token row, s_state = Suspended,
        s_created_at = checked_sub_or_now (ck_now ck) age, s_suspended_at = Some (ck_now ck),
        s_suspend_timeout = ps_suspend_timeout row, s_user = ps_user row,
        s_home_server = ps_home_server row \<rparr>)"

definition restore_row :: "clock \<Rightarrow> persisted_session \<Rightarrow> registry \<times> nat \<Rightarrow> registry \<times> nat" where
  "restore_row ck row rn =
     (case rn of (r, restored) \<Rightarrow>
        let r1 = r\<lparr> rg_next_id := max (rg_next_id r) (ps_id row + 1) \<rparr> in
        if ps_state row \<in> {Active, Suspended}
        then let s = restored_session ck row in
             (r1\<lparr> rg_store := store_persist ck s (rg_store r1),
                  rg_token_index := hm_insert (s_token s) (ps_id row) (rg_token_index r1),
                  rg_sessions := hm_insert (ps_id row) s (rg_sessions r1) \<rparr>, restored + 1)
        else (r1\<lparr> rg_store := store_remove (ps_id row) (rg_store r1) \<rparr>, restored))"

definition restore_persisted :: "clock \<Rightarrow> registry \<Rightarrow> registry \<times> nat" where
  "restore_persisted ck r =
     (case store_load_all (rg_store r) of
        (st, rows) \<Rightarrow> fold (restore_row ck) rows (r\<lparr> rg_store := st \<rparr>, 0))"

text \<open>\<open>opened\<close> is the result of \<open>open_store\<close>: the store, or \<open>None\<close> when it fails to open.\<close>

definition enable_persistence :: "clock \<Rightarrow> store option \<Rightarrow> registry \<Rightarrow> registry" where
  "enable_persistence ck opened r =
     (case opened of None \<Rightarrow> r | Some st \<Rightarrow> fst (restore_persisted ck (r\<lparr> rg_store := st \<rparr>)))"

subsection \<open>Lookup\<close>

definition note_remote_session :: "instant \<Rightarrow> session_token \<Rightarrow> string \<Rightarrow> registry \<Rightarrow> registry" where
  "note_remote_session now tok sid r =
     r\<lparr> rg_remote_sessions := hm_insert tok \<lparr> re_server_id = sid, re_noted_at = now \<rparr> (rg_remote_sessions r) \<rparr>"

definition locate :: "instant \<Rightarrow> session_token \<Rightarrow> registry \<Rightarrow> session_location" where
  "locate now tok r =
     (case hm_get (rg_token_index r) tok of
        Some i \<Rightarrow> Local i
      | None \<Rightarrow>
          (case hm_get (rg_remote_sessions r) tok of
             Some e \<Rightarrow> if elapsed now (re_noted_at e) < REMOTE_SESSION_TTL
                       then Remote (re_server_id e) else Unknown
           | None \<Rightarrow> Unknown))"

definition prune_remote_sessions :: "instant \<Rightarrow> registry \<Rightarrow> registry" where
  "prune_remote_sessions now r =
     r\<lparr> rg_remote_sessions :=
          hm_retain (\<lambda>_ e. elapsed now (re_noted_at e) < REMOTE_SESSION_TTL) (rg_remote_sessions r) \<rparr>"

definition count_by_state :: "session_state \<Rightarrow> registry \<Rightarrow> nat" where
  "count_by_state st r = length (filter (\<lambda>s. s_state s = st) (hm_values (rg_sessions r)))"

definition load_factor :: "registry \<Rightarrow> rat" where
  "load_factor r = rat_of_nat (count_by_state Active r) / rat_of_nat (max (rg_capacity r) 1)"

definition find_by_token :: "session_token \<Rightarrow> registry \<Rightarrow> session option" where
  "find_by_token tok r =
     (case hm_get (rg_token_index r) tok of None \<Rightarrow> None | Some i \<Rightarrow> hm_get (rg_sessions r) i)"

definition is_resumable :: "session_token \<Rightarrow> registry \<Rightarrow> session_id option" where
  "is_resumable tok r =
     (case find_by_token tok r of
        None \<Rightarrow> None
      | Some s \<Rightarrow> if s_state s \<in> {Suspended, Active} then Some (s_id s) else None)"

definition resumable_tokens :: "registry \<Rightarrow> string list" where
  "resumable_tokens r =
     map s_token (filter (\<lambda>s. s_state s \<in> {Active, Suspended}) (hm_values (rg_sessions r)))"

subsection \<open>Changes\<close>

definition create_session :: "clock \<Rightarrow> session_token \<Rightarrow> registry \<Rightarrow> registry \<times> session_id" where
  "create_session ck tok r =
     (let i = rg_next_id r;
          s = session_new (ck_now ck) i tok (rg_local_server_id r) in
      (r\<lparr> rg_next_id := rg_next_id r + 1,
          rg_store := store_persist ck s (rg_store r),
          rg_remote_sessions := hm_remove tok (rg_remote_sessions r),
          rg_token_index := hm_insert tok i (rg_token_index r),
          rg_sessions := hm_insert i s (rg_sessions r) \<rparr>, i))"

definition transition :: "clock \<Rightarrow> session_id \<Rightarrow> session_state \<Rightarrow> registry \<Rightarrow> transition_error + registry" where
  "transition ck i nxt r =
     (case hm_get (rg_sessions r) i of
        None \<Rightarrow> Inl \<lparr> te_session_id = i, te_from = Destroyed, te_to = nxt \<rparr>
      | Some s \<Rightarrow>
          res_bind (session_transition (ck_now ck) s nxt) (\<lambda>s'.
            let r1 = r\<lparr> rg_sessions := hm_insert i s' (rg_sessions r) \<rparr> in
            Inr (if nxt = Destroyed
                 then r1\<lparr> rg_token_index := hm_remove (s_token s') (rg_token_index r1),
                          rg_store := store_remove i (rg_store r1) \<rparr>
                 else r1\<lparr> rg_store := store_persist ck s' (rg_store r1) \<rparr>)))"

definition activate :: "clock \<Rightarrow> session_id \<Rightarrow> registry \<Rightarrow> transition_error + registry" where
  "activate ck i r = transition ck i Active r"

definition suspend :: "clock \<Rightarrow> session_id \<Rightarrow> registry \<Rightarrow> transition_error + registry" where
  "suspend ck i r = transition ck i Suspended r"

definition destroy :: "clock \<Rightarrow> session_id \<Rightarrow> registry \<Rightarrow> transition_error + registry" where
  "destroy ck i r = transition ck i Destroyed r"

definition update_session ::
  "clock \<Rightarrow> session_id \<Rightarrow> (session \<Rightarrow> session) \<Rightarrow> registry \<Rightarrow> registry" where
  "update_session ck i f r =
     (case hm_get (rg_sessions r) i of
        None \<Rightarrow> r
      | Some s \<Rightarrow> r\<lparr> rg_sessions := hm_insert i (f s) (rg_sessions r),
                     rg_store := store_persist ck (f s) (rg_store r) \<rparr>)"

definition set_user :: "clock \<Rightarrow> session_id \<Rightarrow> string \<Rightarrow> registry \<Rightarrow> registry" where
  "set_user ck i user = update_session ck i (\<lambda>s. s\<lparr> s_user := Some user \<rparr>)"

definition set_suspend_timeout :: "clock \<Rightarrow> session_id \<Rightarrow> duration \<Rightarrow> registry \<Rightarrow> registry" where
  "set_suspend_timeout ck i timeout = update_session ck i (\<lambda>s. s\<lparr> s_suspend_timeout := timeout \<rparr>)"

text \<open>A destroy whose error is logged and ignored.\<close>

definition try_destroy :: "clock \<Rightarrow> session_id \<Rightarrow> registry \<Rightarrow> registry" where
  "try_destroy ck i r = (case destroy ck i r of Inl _ \<Rightarrow> r | Inr r' \<Rightarrow> r')"

definition expired_ids :: "instant \<Rightarrow> registry \<Rightarrow> session_id list" where
  "expired_ids now r = map s_id (filter (is_suspend_expired now) (hm_values (rg_sessions r)))"

definition cleanup_expired :: "clock \<Rightarrow> registry \<Rightarrow> registry \<times> session_id list" where
  "cleanup_expired ck r =
     (let expired = expired_ids (ck_now ck) r in (fold (try_destroy ck) expired r, expired))"

definition purge_destroyed :: "registry \<Rightarrow> registry" where
  "purge_destroyed r = r\<lparr> rg_sessions := hm_retain (\<lambda>_ s. s_state s \<noteq> Destroyed) (rg_sessions r) \<rparr>"

subsection \<open>Admin queries\<close>

definition count_session :: "session \<Rightarrow> session_counts \<Rightarrow> session_counts" where
  "count_session s c =
     (case s_state s of
        Creating \<Rightarrow> c\<lparr> sc_creating := sc_creating c + 1 \<rparr>
      | Active \<Rightarrow> c\<lparr> sc_active := sc_active c + 1 \<rparr>
      | Suspended \<Rightarrow> c\<lparr> sc_suspended := sc_suspended c + 1 \<rparr>
      | Destroyed \<Rightarrow> c\<lparr> sc_destroyed := sc_destroyed c + 1 \<rparr>)"

definition state_counts :: "registry \<Rightarrow> session_counts" where
  "state_counts r = fold count_session (hm_values (rg_sessions r)) session_counts_default"

definition snapshot_entry ::
  "clock \<Rightarrow> (session_id \<times> string option) option \<Rightarrow> session \<Rightarrow> session_entry" where
  "snapshot_entry ck conn s =
     (let now_epoch = ck_epoch ck;
          uptime = as_secs (elapsed (ck_now ck) (s_created_at s));
          created = now_epoch - uptime;
          last_active =
            (case s_state s of
               Active \<Rightarrow> now_epoch
             | Creating \<Rightarrow> created
             | _ \<Rightarrow> (case s_suspended_at s of
                       None \<Rightarrow> created
                     | Some t \<Rightarrow> now_epoch - as_secs (elapsed (ck_now ck) t)));
          addr = (case conn of
                    Some (i, a) \<Rightarrow> if i = s_id s then a else None
                  | None \<Rightarrow> None)
      in \<lparr> se_id = s_id s, se_token_prefix = redact_token (s_token s), se_user = s_user s,
           se_state = session_state_display (s_state s), se_created_at_epoch_secs = created,
           se_last_active_epoch_secs = last_active, se_uptime_secs = uptime,
           se_client_addr = addr \<rparr>)"

definition admin_snapshot ::
  "clock \<Rightarrow> (session_id \<times> string option) option \<Rightarrow> registry \<Rightarrow> session_entry list" where
  "admin_snapshot ck conn r =
     sort_key se_id (map (snapshot_entry ck conn) (hm_values (rg_sessions r)))"

subsection \<open>The registry invariant\<close>

text \<open>
  \<open>registry_ok\<close>: both maps have distinct keys; every session is stored under its own id, below
  \<open>next_id\<close>, and is well formed; every entry of the token index leads to a live session that
  carries that token.
\<close>

definition session_at :: "registry \<Rightarrow> session_id \<Rightarrow> session option" where
  "session_at r i = hm_get (rg_sessions r) i"

definition sessions_ok :: "registry \<Rightarrow> bool" where
  "sessions_ok r \<longleftrightarrow> (\<forall>i s. session_at r i = Some s \<longrightarrow> s_id s = i \<and> i < rg_next_id r \<and> session_ok s)"

definition index_ok :: "registry \<Rightarrow> bool" where
  "index_ok r \<longleftrightarrow> (\<forall>tok i. hm_get (rg_token_index r) tok = Some i \<longrightarrow>
     (\<exists>s. session_at r i = Some s \<and> s_token s = tok \<and> s_state s \<noteq> Destroyed))"

definition registry_ok :: "registry \<Rightarrow> bool" where
  "registry_ok r \<longleftrightarrow> hm_wf (rg_sessions r) \<and> hm_wf (rg_token_index r) \<and> sessions_ok r \<and> index_ok r"

text \<open>The tokens of live sessions are distinct, and every live session is found by its token.\<close>

definition tokens_bound :: "registry \<Rightarrow> bool" where
  "tokens_bound r \<longleftrightarrow> (\<forall>i s. session_at r i = Some s \<longrightarrow> s_state s \<noteq> Destroyed \<longrightarrow>
     hm_get (rg_token_index r) (s_token s) = Some i)"

lemma registry_okI:
  "\<lbrakk> hm_wf (rg_sessions r); hm_wf (rg_token_index r); sessions_ok r; index_ok r \<rbrakk> \<Longrightarrow> registry_ok r"
  by (simp add: registry_ok_def)

lemma registry_new_ok [wr_invs]: "registry_ok registry_new" "tokens_bound registry_new"
  by (simp_all add: registry_ok_def sessions_ok_def index_ok_def tokens_bound_def registry_new_def
      session_at_def)

lemma with_cluster_ok [wr_invs]: "registry_ok (with_cluster sid cap)" "tokens_bound (with_cluster sid cap)"
  by (simp_all add: registry_ok_def sessions_ok_def index_ok_def tokens_bound_def registry_new_def
      with_cluster_def session_at_def)

lemma unat_next: "(w :: u64) \<noteq> - 1 \<Longrightarrow> unat (w + 1) = unat w + 1"
  by (metis Suc_eq_plus1 add.commute add_eq_0_iff2 unatSuc)

lemma less_next: "(w :: u64) \<noteq> - 1 \<Longrightarrow> i \<le> w \<Longrightarrow> i < w + 1"
  using unat_next [of w] by (simp add: word_less_nat_alt word_le_nat_alt)

lemma session_at_simps [simp]:
  "session_at (r\<lparr> rg_sessions := hm_insert j s (rg_sessions r) \<rparr>) i
     = (if i = j then Some s else session_at r i)"
  "session_at (r\<lparr> rg_token_index := ti \<rparr>) i = session_at r i"
  "session_at (r\<lparr> rg_store := st \<rparr>) i = session_at r i"
  "session_at (r\<lparr> rg_next_id := n \<rparr>) i = session_at r i"
  "session_at (r\<lparr> rg_remote_sessions := rs \<rparr>) i = session_at r i"
  by (simp_all add: session_at_def)

lemma sessions_okD: "sessions_ok r \<Longrightarrow> session_at r i = Some s \<Longrightarrow> s_id s = i \<and> i < rg_next_id r \<and> session_ok s"
  by (simp add: sessions_ok_def)

lemma index_okD:
  "index_ok r \<Longrightarrow> hm_get (rg_token_index r) tok = Some i \<Longrightarrow>
     \<exists>s. session_at r i = Some s \<and> s_token s = tok \<and> s_state s \<noteq> Destroyed"
  by (simp add: index_ok_def)

subsection \<open>Transitions\<close>

definition moved :: "instant \<Rightarrow> session_state \<Rightarrow> session \<Rightarrow> session" where
  "moved now nxt s = s\<lparr> s_suspended_at := (if nxt = Suspended then Some now else None), s_state := nxt \<rparr>"

lemma moved_simps [simp]:
  "s_id (moved now nxt s) = s_id s" "s_token (moved now nxt s) = s_token s"
  "s_state (moved now nxt s) = nxt" "s_user (moved now nxt s) = s_user s"
  "s_home_server (moved now nxt s) = s_home_server s"
  "s_suspend_timeout (moved now nxt s) = s_suspend_timeout s"
  by (simp_all add: moved_def)

lemma moved_ok [simp]: "session_ok (moved now nxt s)"
  by (simp add: moved_def session_ok_def)

definition after_transition :: "clock \<Rightarrow> session_id \<Rightarrow> session_state \<Rightarrow> session \<Rightarrow> registry \<Rightarrow> registry" where
  "after_transition ck i nxt s r =
     (let s' = moved (ck_now ck) nxt s in
      if nxt = Destroyed
      then r\<lparr> rg_sessions := hm_insert i s' (rg_sessions r),
              rg_token_index := hm_remove (s_token s) (rg_token_index r),
              rg_store := store_remove i (rg_store r) \<rparr>
      else r\<lparr> rg_sessions := hm_insert i s' (rg_sessions r),
              rg_store := store_persist ck s' (rg_store r) \<rparr>)"

lemma transition_Inr:
  "transition ck i nxt r = Inr r' \<longleftrightarrow>
     (\<exists>s. session_at r i = Some s \<and> can_transition_to (s_state s) nxt
          \<and> r' = after_transition ck i nxt s r)"
  by (auto simp: transition_def session_at_def session_transition_def after_transition_def moved_def
      Let_def split: option.splits)

lemma transition_Inl:
  "transition ck i nxt r = Inl e \<longleftrightarrow>
     (case session_at r i of
        None \<Rightarrow> e = \<lparr> te_session_id = i, te_from = Destroyed, te_to = nxt \<rparr>
      | Some s \<Rightarrow> \<not> can_transition_to (s_state s) nxt
                 \<and> e = \<lparr> te_session_id = s_id s, te_from = s_state s, te_to = nxt \<rparr>)"
  by (auto simp: transition_def session_at_def session_transition_def Let_def split: option.splits)

lemma after_transition_simps [simp]:
  "session_at (after_transition ck i nxt s r) j
     = (if j = i then Some (moved (ck_now ck) nxt s) else session_at r j)"
  "rg_next_id (after_transition ck i nxt s r) = rg_next_id r"
  "rg_capacity (after_transition ck i nxt s r) = rg_capacity r"
  "rg_local_server_id (after_transition ck i nxt s r) = rg_local_server_id r"
  "rg_remote_sessions (after_transition ck i nxt s r) = rg_remote_sessions r"
  "rg_token_index (after_transition ck i nxt s r)
     = (if nxt = Destroyed then hm_remove (s_token s) (rg_token_index r) else rg_token_index r)"
  by (simp_all add: after_transition_def Let_def session_at_def)

lemma hm_wf_after_transition:
  "hm_wf (rg_sessions r) \<Longrightarrow> hm_wf (rg_sessions (after_transition ck i nxt s r))"
  by (simp add: after_transition_def Let_def)

lemma after_transition_ok [wr_invs]:
  assumes "registry_ok r" "session_at r i = Some s" "can_transition_to (s_state s) nxt"
  shows "registry_ok (after_transition ck i nxt s r)"
proof (rule registry_okI)
  note ok = assms(1) [unfolded registry_ok_def]
  show "hm_wf (rg_sessions (after_transition ck i nxt s r))" using ok by (simp add: hm_wf_after_transition)
  show "hm_wf (rg_token_index (after_transition ck i nxt s r))" using ok by simp
  show "sessions_ok (after_transition ck i nxt s r)"
    using ok assms(2) unfolding sessions_ok_def by auto
  show "index_ok (after_transition ck i nxt s r)"
    unfolding index_ok_def
  proof (intro allI impI)
    fix tok j
    assume get: "hm_get (rg_token_index (after_transition ck i nxt s r)) tok = Some j"
    then have "hm_get (rg_token_index r) tok = Some j" by (simp split: if_splits)
    with ok obtain x where x: "session_at r j = Some x" "s_token x = tok" "s_state x \<noteq> Destroyed"
      by (auto simp: index_ok_def)
    show "\<exists>x. session_at (after_transition ck i nxt s r) j = Some x \<and> s_token x = tok \<and> s_state x \<noteq> Destroyed"
      using x get assms(2) by (auto split: if_splits)
  qed
qed

lemma after_transition_bound [wr_invs]:
  assumes "registry_ok r" "tokens_bound r" "session_at r i = Some s" "can_transition_to (s_state s) nxt"
  shows "tokens_bound (after_transition ck i nxt s r)"
  unfolding tokens_bound_def
proof (intro allI impI)
  fix j x
  assume at: "session_at (after_transition ck i nxt s r) j = Some x" and live: "s_state x \<noteq> Destroyed"
  have i: "hm_get (rg_token_index r) (s_token s) = Some i"
    using assms(2,3,4) by (auto simp: tokens_bound_def can_transition_iff)
  show "hm_get (rg_token_index (after_transition ck i nxt s r)) (s_token x) = Some j"
  proof (cases "j = i")
    case True
    with at live i show ?thesis by auto
  next
    case False
    with at live assms(2) have "hm_get (rg_token_index r) (s_token x) = Some j"
      by (simp add: tokens_bound_def)
    with False i show ?thesis by auto
  qed
qed

lemma transition_ok [wr_invs]: "registry_ok r \<Longrightarrow> transition ck i nxt r = Inr r' \<Longrightarrow> registry_ok r'"
  by (auto simp: transition_Inr after_transition_ok)

lemma transition_bound [wr_invs]:
  "registry_ok r \<Longrightarrow> tokens_bound r \<Longrightarrow> transition ck i nxt r = Inr r' \<Longrightarrow> tokens_bound r'"
  by (auto simp: transition_Inr after_transition_bound)

subsection \<open>Creation, updates, expiry\<close>

lemma create_session_simps:
  "snd (create_session ck tok r) = rg_next_id r"
  "session_at (fst (create_session ck tok r)) j
     = (if j = rg_next_id r then Some (session_new (ck_now ck) (rg_next_id r) tok (rg_local_server_id r))
        else session_at r j)"
  "rg_token_index (fst (create_session ck tok r)) = hm_insert tok (rg_next_id r) (rg_token_index r)"
  "rg_next_id (fst (create_session ck tok r)) = rg_next_id r + 1"
  "rg_capacity (fst (create_session ck tok r)) = rg_capacity r"
  by (simp_all add: create_session_def Let_def session_at_def)

lemma session_new_simps [simp]:
  "s_id (session_new now i tok home) = i" "s_token (session_new now i tok home) = tok"
  "s_state (session_new now i tok home) = Creating" "s_home_server (session_new now i tok home) = home"
  "s_user (session_new now i tok home) = None"
  by (simp_all add: session_new_def)

lemma fresh_id: "registry_ok r \<Longrightarrow> session_at r (rg_next_id r) = None"
  by (cases "session_at r (rg_next_id r)") (auto simp: registry_ok_def sessions_ok_def)

lemma create_session_ok [wr_invs]:
  assumes "registry_ok r" "rg_next_id r \<noteq> - 1"
  shows "registry_ok (fst (create_session ck tok r))"
proof (rule registry_okI)
  note ok = assms(1) [unfolded registry_ok_def]
  show "hm_wf (rg_sessions (fst (create_session ck tok r)))"
    "hm_wf (rg_token_index (fst (create_session ck tok r)))"
    using ok by (simp_all add: create_session_def Let_def)
  show "sessions_ok (fst (create_session ck tok r))"
    using ok less_next [OF assms(2)]
    by (auto simp: sessions_ok_def create_session_simps session_new_ok less_imp_le)
  show "index_ok (fst (create_session ck tok r))"
    using ok fresh_id [OF assms(1)] by (force simp: index_ok_def create_session_simps)
qed

lemma create_session_bound [wr_invs]:
  assumes "registry_ok r" "tokens_bound r" "hm_get (rg_token_index r) tok = None"
  shows "tokens_bound (fst (create_session ck tok r))"
  unfolding tokens_bound_def
proof (intro allI impI)
  fix j x
  assume at: "session_at (fst (create_session ck tok r)) j = Some x" and live: "s_state x \<noteq> Destroyed"
  show "hm_get (rg_token_index (fst (create_session ck tok r))) (s_token x) = Some j"
  proof (cases "j = rg_next_id r")
    case True
    with at show ?thesis by (auto simp: create_session_simps)
  next
    case False
    with at live assms(2) have "hm_get (rg_token_index r) (s_token x) = Some j"
      by (simp add: tokens_bound_def create_session_simps)
    with assms(3) show ?thesis by (auto simp: create_session_simps)
  qed
qed

lemma update_session_simps [simp]:
  "session_at (update_session ck i f r) j = (if j = i then map_option f (session_at r i) else session_at r j)"
  "rg_token_index (update_session ck i f r) = rg_token_index r"
  "rg_next_id (update_session ck i f r) = rg_next_id r"
  "hm_wf (rg_sessions r) \<Longrightarrow> hm_wf (rg_sessions (update_session ck i f r))"
  by (auto simp: update_session_def session_at_def split: option.split)

definition harmless :: "(session \<Rightarrow> session) \<Rightarrow> bool" where
  "harmless f \<longleftrightarrow> (\<forall>s. s_id (f s) = s_id s \<and> s_token (f s) = s_token s \<and> s_state (f s) = s_state s
     \<and> s_suspended_at (f s) = s_suspended_at s)"

lemma harmlessD:
  "harmless f \<Longrightarrow> s_id (f s) = s_id s \<and> s_token (f s) = s_token s \<and> s_state (f s) = s_state s
     \<and> session_ok (f s) = session_ok s"
  by (simp add: harmless_def session_ok_def)

lemma harmless_updates [simp]:
  "harmless (\<lambda>s. s\<lparr> s_user := u \<rparr>)" "harmless (\<lambda>s. s\<lparr> s_suspend_timeout := t \<rparr>)"
  by (simp_all add: harmless_def)

lemma update_session_ok [wr_invs]:
  assumes "registry_ok r" "harmless f"
  shows "registry_ok (update_session ck i f r)"
proof (rule registry_okI)
  note ok = assms(1) [unfolded registry_ok_def] and [simp] = harmlessD [OF assms(2)]
  show "hm_wf (rg_sessions (update_session ck i f r))" "hm_wf (rg_token_index (update_session ck i f r))"
    using ok by simp_all
  show "sessions_ok (update_session ck i f r)" using ok by (auto simp: sessions_ok_def)
  show "index_ok (update_session ck i f r)" using ok by (fastforce simp: index_ok_def)
qed

lemma update_session_bound [wr_invs]:
  assumes "tokens_bound r" "harmless f"
  shows "tokens_bound (update_session ck i f r)"
  using assms(1) harmlessD [OF assms(2)] by (auto simp: tokens_bound_def split: if_splits)

lemma try_destroy_cases:
  "try_destroy ck i r =
     (case session_at r i of
        None \<Rightarrow> r
      | Some s \<Rightarrow> if s_state s = Destroyed then r else after_transition ck i Destroyed s r)"
proof (cases "transition ck i Destroyed r")
  case (Inl e)
  then have "try_destroy ck i r = r" by (simp add: try_destroy_def destroy_def)
  with Inl show ?thesis by (auto simp: transition_Inl can_transition_iff split: option.splits)
next
  case (Inr r')
  then have "try_destroy ck i r = r'" by (simp add: try_destroy_def destroy_def)
  with Inr show ?thesis by (auto simp: transition_Inr can_transition_iff)
qed

lemma try_destroy_ok [wr_invs]: "registry_ok r \<Longrightarrow> registry_ok (try_destroy ck i r)"
  by (auto simp: try_destroy_cases can_transition_iff intro!: after_transition_ok split: option.splits)

lemma try_destroy_bound [wr_invs]:
  "registry_ok r \<Longrightarrow> tokens_bound r \<Longrightarrow> tokens_bound (try_destroy ck i r)"
  by (auto simp: try_destroy_cases can_transition_iff intro!: after_transition_bound split: option.splits)

lemma try_destroy_next_id [simp]: "rg_next_id (try_destroy ck i r) = rg_next_id r"
  by (simp add: try_destroy_cases split: option.split)

lemma fold_try_destroy_ok [wr_invs]: "registry_ok r \<Longrightarrow> registry_ok (fold (try_destroy ck) ids r)"
  by (induction ids arbitrary: r) (simp_all add: try_destroy_ok)

lemma fold_try_destroy_bound [wr_invs]:
  "registry_ok r \<Longrightarrow> tokens_bound r \<Longrightarrow> tokens_bound (fold (try_destroy ck) ids r)"
  by (induction ids arbitrary: r) (simp_all add: try_destroy_ok try_destroy_bound)

lemma fold_try_destroy_next_id [simp]: "rg_next_id (fold (try_destroy ck) ids r) = rg_next_id r"
  by (induction ids arbitrary: r) simp_all

lemma moved_destroyed_again: "s_state s = Destroyed \<Longrightarrow> session_ok s \<Longrightarrow> moved now Destroyed s = s"
  by (cases s) (auto simp: moved_def session_ok_def)

lemma fold_try_destroy_at:
  assumes "registry_ok r"
  shows "session_at (fold (try_destroy ck) ids r) i
           = (if i \<in> set ids then map_option (moved (ck_now ck) Destroyed) (session_at r i)
              else session_at r i)"
  using assms
proof (induction ids arbitrary: r)
  case (Cons a ids)
  have ok: "\<And>i s. session_at r i = Some s \<Longrightarrow> session_ok s"
    using Cons.prems by (auto simp: registry_ok_def sessions_ok_def)
  have twice: "moved now Destroyed (moved now Destroyed s) = moved now Destroyed s" for now s
    by (simp add: moved_def)
  have step: "session_at (try_destroy ck a r) j
      = (if j = a then map_option (moved (ck_now ck) Destroyed) (session_at r j) else session_at r j)" for j
    using ok by (auto simp: try_destroy_cases moved_destroyed_again split: option.splits)
  show ?case
    by (simp add: Cons.IH [OF try_destroy_ok [OF Cons.prems]] step twice option.map_comp o_def)
qed simp

lemma purge_ok [wr_invs]:
  assumes "registry_ok r"
  shows "registry_ok (purge_destroyed r)" and "tokens_bound r \<Longrightarrow> tokens_bound (purge_destroyed r)"
proof -
  have at: "session_at (purge_destroyed r) i =
      (case session_at r i of None \<Rightarrow> None | Some s \<Rightarrow> if s_state s \<noteq> Destroyed then Some s else None)" for i
    using assms by (simp add: registry_ok_def session_at_def purge_destroyed_def hm_get_retain)
  have "rg_token_index (purge_destroyed r) = rg_token_index r" "rg_next_id (purge_destroyed r) = rg_next_id r"
    "hm_wf (rg_sessions (purge_destroyed r))"
    using assms by (simp_all add: purge_destroyed_def registry_ok_def)
  with assms at show "registry_ok (purge_destroyed r)" "tokens_bound r \<Longrightarrow> tokens_bound (purge_destroyed r)"
    by (fastforce simp: registry_ok_def sessions_ok_def index_ok_def tokens_bound_def split: option.splits)+
qed

lemma remote_ok [wr_invs]:
  "registry_ok (r\<lparr> rg_remote_sessions := x \<rparr>) = registry_ok r"
  "tokens_bound (r\<lparr> rg_remote_sessions := x \<rparr>) = tokens_bound r"
  by (simp_all add: registry_ok_def sessions_ok_def index_ok_def tokens_bound_def)

lemma is_resumable_iff:
  assumes ok: "registry_ok r" "tokens_bound r"
  shows "is_resumable tok r = Some i \<longleftrightarrow>
           (\<exists>s. session_at r i = Some s \<and> s_token s = tok \<and> s_state s \<in> {Active, Suspended})"
proof
  assume "is_resumable tok r = Some i"
  then obtain j s where s: "hm_get (rg_token_index r) tok = Some j" "session_at r j = Some s"
    "s_state s \<in> {Suspended, Active}" "s_id s = i"
    by (auto simp: is_resumable_def find_by_token_def session_at_def split: option.splits if_splits)
  with ok(1) have "s_token s = tok" "j = i"
    by (force simp: registry_ok_def index_ok_def sessions_ok_def)+
  with s show "\<exists>s. session_at r i = Some s \<and> s_token s = tok \<and> s_state s \<in> {Active, Suspended}"
    by blast
next
  assume "\<exists>s. session_at r i = Some s \<and> s_token s = tok \<and> s_state s \<in> {Active, Suspended}"
  then obtain s where s: "session_at r i = Some s" "s_token s = tok" "s_state s \<in> {Active, Suspended}"
    by blast
  with ok(2) have "hm_get (rg_token_index r) tok = Some i" by (auto simp: tokens_bound_def)
  moreover have "s_id s = i" using ok(1) s(1) by (auto simp: registry_ok_def sessions_ok_def)
  ultimately show "is_resumable tok r = Some i"
    using s by (auto simp: is_resumable_def find_by_token_def session_at_def)
qed

subsection \<open>Histories\<close>

text \<open>
  The operations the rest of the compositor performs on the registry, with the clock of each.
  \<open>Connect\<close> is the use \<open>drain_network_events\<close> makes of \<open>create_session\<close>: only for a token no local
  session answers to.
\<close>

datatype registry_op =
    Connect session_token
  | Transit session_id session_state
  | SetUser session_id string
  | SetTimeout session_id duration
  | CleanupExpired
  | PurgeDestroyed
  | NoteRemote session_token string
  | PruneRemote

fun registry_step :: "clock \<times> registry_op \<Rightarrow> registry \<Rightarrow> registry" where
  "registry_step (ck, Connect tok) r =
     (case hm_get (rg_token_index r) tok of None \<Rightarrow> fst (create_session ck tok r) | Some _ \<Rightarrow> r)"
| "registry_step (ck, Transit i nxt) r = (case transition ck i nxt r of Inl _ \<Rightarrow> r | Inr r' \<Rightarrow> r')"
| "registry_step (ck, SetUser i u) r = set_user ck i u r"
| "registry_step (ck, SetTimeout i t) r = set_suspend_timeout ck i t r"
| "registry_step (ck, CleanupExpired) r = fst (cleanup_expired ck r)"
| "registry_step (ck, PurgeDestroyed) r = purge_destroyed r"
| "registry_step (ck, NoteRemote tok sid) r = note_remote_session (ck_now ck) tok sid r"
| "registry_step (ck, PruneRemote) r = prune_remote_sessions (ck_now ck) r"

lemma cleanup_expired_next_id [simp]: "rg_next_id (fst (cleanup_expired ck r)) = rg_next_id r"
  by (simp add: cleanup_expired_def Let_def)

lemma registry_step_next_id:
  "rg_next_id r \<noteq> - 1 \<Longrightarrow> unat (rg_next_id (registry_step p r)) \<le> unat (rg_next_id r) + 1"
  by (cases "(p, r)" rule: registry_step.cases)
     (auto simp: create_session_simps unat_next set_user_def set_suspend_timeout_def transition_Inr
        purge_destroyed_def note_remote_session_def prune_remote_sessions_def
        split: option.split sum.split)

lemma registry_step_ok:
  assumes "registry_ok r \<and> tokens_bound r" "rg_next_id r \<noteq> - 1"
  shows "registry_ok (registry_step p r) \<and> tokens_bound (registry_step p r)"
  using assms
  by (cases "(p, r)" rule: registry_step.cases)
     (auto simp: set_user_def set_suspend_timeout_def cleanup_expired_def Let_def
        note_remote_session_def prune_remote_sessions_def wr_invs transition_bound
        split: option.split sum.split)

lemma fold_registry_step_ok:
  "registry_ok r \<and> tokens_bound r \<Longrightarrow> unat (rg_next_id r) + length ops < 2 ^ 64 \<Longrightarrow>
     registry_ok (fold registry_step ops r) \<and> tokens_bound (fold registry_step ops r)"
proof (induction ops arbitrary: r)
  case (Cons p ops)
  have "unat (- 1 :: u64) = 2 ^ 64 - 1" by (simp add: unsigned_minus_1_eq_mask mask_eq_exp_minus_1)
  then have "rg_next_id r \<noteq> - 1" using Cons.prems(2) by auto
  with Cons registry_step_ok [OF Cons.prems(1), of p] registry_step_next_id [of r p]
  show ?case by simp
qed simp







end
