(* ===== verification/Restart.thy ===== *)
theory Restart
  imports Registry
begin

text \<open>
  The registry and its SQLite store together: the store mirrors the live sessions after every
  operation, and a server that restarts on the same database hosts the same resumable sessions
  under the same ids (\<open>restore_persisted\<close> of \<open>registry.rs\<close>, the restore semantics documented in
  \<open>persistence.rs\<close>).  Also the facts about remote affinity and the admin snapshot.
\<close>

definition live_at :: "registry \<Rightarrow> session_id \<Rightarrow> session option" where
  "live_at r i = (case session_at r i of None \<Rightarrow> None
     | Some s \<Rightarrow> if s_state s = Destroyed then None else Some s)"

definition stored :: "persisted_session option \<Rightarrow> session option \<Rightarrow> bool" where
  "stored p s \<longleftrightarrow> (case s of None \<Rightarrow> p = None | Some x \<Rightarrow> \<exists>ck. p = Some (durable ck x))"

definition mirrors :: "registry \<Rightarrow> bool" where
  "mirrors r \<longleftrightarrow> (\<exists>st. rg_store r = SqliteStore st \<and> sqlite_ok st
     \<and> (\<forall>i. stored (sqlite_view st i) (live_at r i)))"

lemma stored_None [simp]: "stored p None \<longleftrightarrow> p = None"
  by (simp add: stored_def)

lemma stored_durable [simp]: "stored (Some (durable ck s)) (Some s)"
  by (auto simp: stored_def)

lemma live_at_simps [simp]:
  "live_at (r\<lparr> rg_token_index := ti \<rparr>) i = live_at r i"
  "live_at (r\<lparr> rg_store := st \<rparr>) i = live_at r i"
  "live_at (r\<lparr> rg_next_id := n \<rparr>) i = live_at r i"
  "live_at (r\<lparr> rg_remote_sessions := rs \<rparr>) i = live_at r i"
  by (simp_all add: live_at_def)

lemma mirrors_persist:
  assumes "mirrors r" "rg_store r' = store_persist ck s (rg_store r)"
    "s_state s \<noteq> Destroyed" "\<And>i. session_at r' i = (if i = s_id s then Some s else session_at r i)"
  shows "mirrors r'"
proof -
  obtain st where st: "rg_store r = SqliteStore st" "sqlite_ok st"
    "\<And>i. stored (sqlite_view st i) (live_at r i)" using assms(1) by (auto simp: mirrors_def)
  have "stored (sqlite_view (sqlite_persist ck s st) i) (live_at r' i)" for i
    using st(3) [of i] assms(3,4) by (auto simp: sqlite_view_persist [OF st(2)] live_at_def)
  with st(1,2) assms(2) show ?thesis by (simp add: mirrors_def sqlite_persist_ok)
qed

lemma mirrors_remove:
  assumes "mirrors r" "rg_store r' = store_remove i (rg_store r)"
    "live_at r' i = None" "\<And>j. j \<noteq> i \<Longrightarrow> live_at r' j = live_at r j"
  shows "mirrors r'"
proof -
  obtain st where st: "rg_store r = SqliteStore st" "sqlite_ok st"
    "\<And>i. stored (sqlite_view st i) (live_at r i)" using assms(1) by (auto simp: mirrors_def)
  have "stored (sqlite_view (sqlite_remove i st) j) (live_at r' j)" for j
    using st(3) [of j] assms(3,4) by (cases "j = i") (auto simp: sqlite_view_remove [OF st(2)])
  with st(1,2) assms(2) show ?thesis by (simp add: mirrors_def sqlite_remove_ok)
qed

lemma mirrors_same:
  "mirrors r \<Longrightarrow> rg_store r' = rg_store r \<Longrightarrow> (\<And>i. live_at r' i = live_at r i) \<Longrightarrow> mirrors r'"
  by (auto simp: mirrors_def)

lemma rg_store_after_transition:
  "rg_store (after_transition ck i nxt s r) =
     (if nxt = Destroyed then store_remove i (rg_store r)
      else store_persist ck (moved (ck_now ck) nxt s) (rg_store r))"
  by (simp add: after_transition_def Let_def)

lemma mirrors_after_transition [wr_invs]:
  assumes "mirrors r" "registry_ok r" "session_at r i = Some s"
  shows "mirrors (after_transition ck i nxt s r)"
proof (cases "nxt = Destroyed")
  case True
  show ?thesis
    by (rule mirrors_remove [OF assms(1), where i = i])
       (use True in \<open>simp_all add: rg_store_after_transition live_at_def\<close>)
next
  case False
  have "s_id s = i" using assms(2,3) by (simp add: registry_ok_def sessions_ok_def)
  with False show ?thesis
    by (intro mirrors_persist [OF assms(1), where s = "moved (ck_now ck) nxt s"])
       (simp_all add: rg_store_after_transition)
qed

lemma mirrors_create [wr_invs]: "mirrors r \<Longrightarrow> mirrors (fst (create_session ck tok r))"
  by (rule mirrors_persist [where s = "session_new (ck_now ck) (rg_next_id r) tok (rg_local_server_id r)"])
     (simp_all add: create_session_simps, simp add: create_session_def Let_def)

lemma mirrors_update [wr_invs]:
  assumes "mirrors r" "registry_ok r" "harmless f"
    "\<And>s. session_at r i = Some s \<Longrightarrow> s_state s \<noteq> Destroyed"
  shows "mirrors (update_session ck i f r)"
proof (cases "session_at r i")
  case None
  then show ?thesis using assms(1) by (simp add: update_session_def session_at_def)
next
  case (Some s)
  have "s_id (f s) = i" "s_state (f s) \<noteq> Destroyed"
    using assms(2,4) Some harmlessD [OF assms(3), of s] by (simp_all add: registry_ok_def sessions_ok_def)
  then show ?thesis
    using Some
    by (intro mirrors_persist [OF assms(1), where s = "f s"])
       (simp_all, simp add: update_session_def session_at_def)
qed

lemma mirrors_try_destroy [wr_invs]: "mirrors r \<Longrightarrow> registry_ok r \<Longrightarrow> mirrors (try_destroy ck i r)"
  by (auto simp: try_destroy_cases intro: mirrors_after_transition split: option.split)

lemma mirrors_fold_try_destroy [wr_invs]:
  "mirrors r \<Longrightarrow> registry_ok r \<Longrightarrow> mirrors (fold (try_destroy ck) ids r)"
  by (induction ids arbitrary: r) (simp_all add: mirrors_try_destroy try_destroy_ok)

lemma mirrors_purge [wr_invs]: "mirrors r \<Longrightarrow> registry_ok r \<Longrightarrow> mirrors (purge_destroyed r)"
  by (rule mirrors_same)
     (auto simp: purge_destroyed_def live_at_def session_at_def hm_get_retain registry_ok_def
        split: option.split)

text \<open>
  The updates of a history that touch only live sessions.  \<open>set_user\<close> and \<open>set_suspend_timeout\<close> on
  a destroyed session would write its row again.
\<close>

fun touches_live :: "registry_op \<Rightarrow> registry \<Rightarrow> bool" where
  "touches_live (SetUser i u) r = (session_at r i = live_at r i)"
| "touches_live (SetTimeout i t) r = (session_at r i = live_at r i)"
| "touches_live _ r = True"

lemma mirrors_step:
  assumes "mirrors r" "registry_ok r" "touches_live operation r"
  shows "mirrors (registry_step (ck, operation) r)"
proof (cases operation)
  case (SetUser i u)
  then show ?thesis using assms
    by (auto simp: set_user_def live_at_def intro!: mirrors_update split: option.splits)
next
  case (SetTimeout i t)
  then show ?thesis using assms
    by (auto simp: set_suspend_timeout_def live_at_def intro!: mirrors_update split: option.splits)
next
  case (Transit i nxt)
  then show ?thesis using assms
    by (auto simp: transition_Inr intro: mirrors_after_transition split: sum.split)
next
  case (Connect tok)
  then show ?thesis using assms by (auto intro: mirrors_create split: option.split)
next
  case CleanupExpired
  then show ?thesis using assms by (auto simp: cleanup_expired_def Let_def intro: mirrors_fold_try_destroy)
next
  case PurgeDestroyed
  then show ?thesis using assms by (auto intro: mirrors_purge)
qed (use assms in \<open>auto simp: note_remote_session_def prune_remote_sessions_def intro: mirrors_same\<close>)

subsection \<open>Restore\<close>

definition resumable_row :: "persisted_session \<Rightarrow> bool" where
  "resumable_row p \<longleftrightarrow> ps_state p \<in> {Active, Suspended}"

abbreviation restore_rows :: "clock \<Rightarrow> persisted_session list \<Rightarrow> registry \<times> nat \<Rightarrow> registry" where
  "restore_rows ck rows rn \<equiv> fst (fold (restore_row ck) rows rn)"

lemma restored_session_simps [simp]:
  "s_id (restored_session ck p) = ps_id p" "s_token (restored_session ck p) = ps_token p"
  "s_state (restored_session ck p) = Suspended" "s_user (restored_session ck p) = ps_user p"
  "s_home_server (restored_session ck p) = ps_home_server p"
  "s_suspended_at (restored_session ck p) = Some (ck_now ck)"
  "s_suspend_timeout (restored_session ck p) = ps_suspend_timeout p"
  by (simp_all add: restored_session_def Let_def)

lemma restored_session_ok [simp]: "session_ok (restored_session ck p)"
  by (simp add: session_ok_def)

lemma restore_row_simps:
  "session_at (fst (restore_row ck p rn)) i =
     (if resumable_row p \<and> i = ps_id p then Some (restored_session ck p) else session_at (fst rn) i)"
  "rg_token_index (fst (restore_row ck p rn)) =
     (if resumable_row p then hm_insert (ps_token p) (ps_id p) (rg_token_index (fst rn))
      else rg_token_index (fst rn))"
  "rg_next_id (fst (restore_row ck p rn)) = max (rg_next_id (fst rn)) (ps_id p + 1)"
  "rg_store (fst (restore_row ck p rn)) =
     (if resumable_row p then store_persist ck (restored_session ck p) (rg_store (fst rn))
      else store_remove (ps_id p) (rg_store (fst rn)))"
  "hm_wf (rg_sessions (fst rn)) \<Longrightarrow> hm_wf (rg_sessions (fst (restore_row ck p rn)))"
  "snd (restore_row ck p rn) = snd rn + (if resumable_row p then 1 else 0)"
  by (simp_all add: restore_row_def resumable_row_def Let_def session_at_def split_beta)

lemma restore_other:
  "i \<notin> ps_id ` set (filter resumable_row rows) \<Longrightarrow>
     session_at (restore_rows ck rows rn) i = session_at (fst rn) i"
proof (induction rows arbitrary: rn)
  case (Cons q rows)
  then show ?case
    using Cons.IH [of "restore_row ck q rn"] by (cases "resumable_row q") (simp_all add: restore_row_simps)
qed simp

lemma restore_at:
  "distinct (map ps_id rows) \<Longrightarrow> p \<in> set rows \<Longrightarrow> resumable_row p \<Longrightarrow>
     session_at (restore_rows ck rows rn) (ps_id p) = Some (restored_session ck p)"
proof (induction rows arbitrary: rn)
  case (Cons q rows)
  show ?case
  proof (cases "p = q")
    case True
    with Cons.prems(1) have "ps_id q \<notin> ps_id ` set (filter resumable_row rows)" by auto
    with True Cons.prems(3) show ?thesis by (simp add: restore_other restore_row_simps)
  next
    case False
    with Cons.prems Cons.IH [of "restore_row ck q rn"] show ?thesis by simp
  qed
qed simp

lemma restore_index_other:
  "tok \<notin> ps_token ` set (filter resumable_row rows) \<Longrightarrow>
     hm_get (rg_token_index (restore_rows ck rows rn)) tok = hm_get (rg_token_index (fst rn)) tok"
proof (induction rows arbitrary: rn)
  case (Cons q rows)
  then show ?case
    using Cons.IH [of "restore_row ck q rn"] by (cases "resumable_row q") (simp_all add: restore_row_simps)
qed simp

lemma restore_index_at:
  "distinct (map ps_token (filter resumable_row rows)) \<Longrightarrow> p \<in> set rows \<Longrightarrow> resumable_row p \<Longrightarrow>
     hm_get (rg_token_index (restore_rows ck rows rn)) (ps_token p) = Some (ps_id p)"
proof (induction rows arbitrary: rn)
  case (Cons q rows)
  show ?case
  proof (cases "p = q")
    case True
    with Cons.prems have "ps_token q \<notin> ps_token ` set (filter resumable_row rows)" by simp
    with True Cons.prems(3) show ?thesis by (simp add: restore_index_other restore_row_simps)
  next
    case False
    with Cons.prems Cons.IH [of "restore_row ck q rn"] show ?thesis by (auto split: if_splits)
  qed
qed simp

lemma restore_session_iff:
  assumes "distinct (map ps_id rows)" "session_at (fst rn) i = None"
  shows "session_at (restore_rows ck rows rn) i = Some s \<longleftrightarrow>
      (\<exists>p. p \<in> set rows \<and> resumable_row p \<and> ps_id p = i \<and> s = restored_session ck p)"
proof (cases "i \<in> ps_id ` set (filter resumable_row rows)")
  case True
  then obtain p where p: "p \<in> set rows" "resumable_row p" "ps_id p = i" by auto
  have "inj_on ps_id (set rows)" using assms(1) by (simp add: distinct_map)
  with p have "q = p" if "q \<in> set rows" "ps_id q = i" for q
    using that by (metis inj_onD)
  moreover have "session_at (restore_rows ck rows rn) i = Some (restored_session ck p)"
    using restore_at [OF assms(1) p(1,2), of ck rn] by (simp add: p(3))
  ultimately show ?thesis using p by (metis option.inject)
next
  case False
  with restore_other [OF False, of ck rn] assms(2) show ?thesis by auto
qed

lemma restore_index_iff:
  assumes "distinct (map ps_token (filter resumable_row rows))" "hm_get (rg_token_index (fst rn)) tok = None"
  shows "hm_get (rg_token_index (restore_rows ck rows rn)) tok = Some i \<longleftrightarrow>
      (\<exists>p. p \<in> set rows \<and> resumable_row p \<and> ps_token p = tok \<and> ps_id p = i)"
proof (cases "tok \<in> ps_token ` set (filter resumable_row rows)")
  case True
  then obtain p where p: "p \<in> set rows" "resumable_row p" "ps_token p = tok" by auto
  have "inj_on ps_token (set (filter resumable_row rows))" using assms(1) by (simp add: distinct_map)
  with p have "q = p" if "q \<in> set rows" "resumable_row q" "ps_token q = tok" for q
    using that by (simp add: inj_on_def)
  moreover have "hm_get (rg_token_index (restore_rows ck rows rn)) tok = Some (ps_id p)"
    using restore_index_at [OF assms(1) p(1,2), of ck rn] by (simp add: p(3))
  ultimately show ?thesis using p by (metis option.inject)
next
  case False
  with restore_index_other [OF False, of ck rn] assms(2) show ?thesis by auto
qed

lemma restore_next_id:
  "rg_next_id (fst rn) \<le> rg_next_id (restore_rows ck rows rn)"
  "p \<in> set rows \<Longrightarrow> ps_id p + 1 \<le> rg_next_id (restore_rows ck rows rn)"
proof (induction rows arbitrary: rn)
  case (Cons q rows)
  {
    case 1
    show ?case using Cons.IH(1) [of "restore_row ck q rn"] by (simp add: restore_row_simps)
  next
    case 2
    then show ?case
      using Cons.IH(1) [of "restore_row ck q rn"] Cons.IH(2) [of "restore_row ck q rn"]
      by (auto simp: restore_row_simps)
  }
qed simp_all

lemma restore_wf:
  "hm_wf (rg_sessions (fst rn)) \<Longrightarrow> hm_wf (rg_sessions (restore_rows ck rows rn))"
  "hm_wf (rg_token_index (fst rn)) \<Longrightarrow> hm_wf (rg_token_index (restore_rows ck rows rn))"
  by (induction rows arbitrary: rn) (simp_all add: restore_row_simps)

lemma restore_count:
  "snd (fold (restore_row ck) rows rn) = snd rn + length (filter resumable_row rows)"
  by (induction rows arbitrary: rn) (simp_all add: restore_row_simps)

lemma restore_mirrors:
  assumes "mirrors r0" "rg_store (fst rn) = rg_store r0" "distinct (map ps_id rows)"
    "\<And>i. i \<notin> ps_id ` set rows \<Longrightarrow> live_at r0 i = live_at (fst rn) i"
    "\<And>i. i \<in> ps_id ` set rows \<Longrightarrow> session_at (fst rn) i = None"
  shows "mirrors (restore_rows ck rows rn)"
  using assms
proof (induction rows arbitrary: r0 rn)
  case Nil
  then show ?case by (auto intro: mirrors_same [of r0])
next
  case (Cons p rows)
  define r1 where "r1 = (if resumable_row p
      then r0\<lparr> rg_store := store_persist ck (restored_session ck p) (rg_store r0),
               rg_sessions := hm_insert (ps_id p) (restored_session ck p) (rg_sessions r0) \<rparr>
      else r0\<lparr> rg_store := store_remove (ps_id p) (rg_store r0),
               rg_sessions := hm_remove (ps_id p) (rg_sessions r0) \<rparr>)"
  have at1: "live_at r1 i = (if i = ps_id p then (if resumable_row p then Some (restored_session ck p) else None)
      else live_at r0 i)" for i
    by (simp add: r1_def live_at_def session_at_def)
  have "mirrors r1"
  proof (cases "resumable_row p")
    case True
    then show ?thesis
      by (intro mirrors_persist [OF Cons.prems(1), where s = "restored_session ck p"])
         (simp_all add: r1_def session_at_def)
  next
    case False
    then show ?thesis
      by (intro mirrors_remove [OF Cons.prems(1), where i = "ps_id p"])
         (simp_all add: r1_def live_at_def session_at_def)
  qed
  moreover have "rg_store (fst (restore_row ck p rn)) = rg_store r1"
    using Cons.prems(2) by (simp add: r1_def restore_row_simps)
  moreover have "live_at r1 i = live_at (fst (restore_row ck p rn)) i" if "i \<notin> ps_id ` set rows" for i
    using that Cons.prems(4,5) [of i] unfolding at1 by (auto simp: live_at_def restore_row_simps)
  moreover have "session_at (fst (restore_row ck p rn)) i = None" if "i \<in> ps_id ` set rows" for i
  proof -
    have "ps_id p \<notin> ps_id ` set rows" using Cons.prems(3) by simp
    with that have "i \<noteq> ps_id p" by blast
    with that Cons.prems(5) [of i] show ?thesis by (simp add: restore_row_simps)
  qed
  ultimately show ?case using Cons.IH [of r1 "restore_row ck p rn"] Cons.prems(3) by simp
qed

subsection \<open>A restart\<close>

text \<open>
  The end of the process and the start of the next one on the same database file: \<open>Drop\<close> flushes,
  \<open>open_file\<close> connects to what is on disk, \<open>enable_persistence\<close> attaches and restores it.
\<close>

definition restarted :: "clock \<Rightarrow> string \<Rightarrow> nat \<Rightarrow> sqlite_store \<Rightarrow> registry" where
  "restarted ck sid cap st =
     enable_persistence ck (Some (SqliteStore (sqlite_open (sq_table (sqlite_flush st)))))
       (with_cluster sid cap)"

lemma reopened_ok:
  "sqlite_ok st \<Longrightarrow> sqlite_ok (sqlite_open (sq_table (sqlite_flush st)))
     \<and> sqlite_view (sqlite_open (sq_table (sqlite_flush st))) = sqlite_view st"
  using sqlite_flush_ok [of st]
  by (simp add: sqlite_ok_def sqlite_open_def sqlite_view_def fun_eq_iff)
     (simp add: sqlite_flush_def)

lemma durable_simps [simp]:
  "ps_id (durable ck s) = s_id s" "ps_token (durable ck s) = s_token s"
  "ps_state (durable ck s) = s_state s" "ps_user (durable ck s) = s_user s"
  "ps_home_server (durable ck s) = s_home_server s"
  by (simp_all add: durable_def)

lemma restart_facts:
  assumes ok: "registry_ok r" "tokens_bound r" "mirrors r" and st: "rg_store r = SqliteStore st"
    and r'_def: "r' = restarted ck sid cap st"
  shows "\<exists>rows. r' = restore_rows ck rows
            ((with_cluster sid cap)\<lparr> rg_store := SqliteStore (sqlite_flush (sqlite_open (sq_table (sqlite_flush st)))) \<rparr>, 0)
          \<and> distinct (map ps_id rows)
          \<and> distinct (map ps_token (filter resumable_row rows))
          \<and> (\<forall>p. p \<in> set rows \<longleftrightarrow> sqlite_view st (ps_id p) = Some p)
          \<and> (\<forall>p. p \<in> set rows \<longleftrightarrow> (\<exists>i s ck. live_at r i = Some s \<and> sqlite_view st i = Some p \<and> p = durable ck s))"
proof -
  define st0 where "st0 = sqlite_open (sq_table (sqlite_flush st))"
  have sok: "sqlite_ok st" and mir: "\<And>i. stored (sqlite_view st i) (live_at r i)"
    using ok(3) st by (auto simp: mirrors_def)
  have st0: "sqlite_ok st0" "sqlite_view st0 = sqlite_view st"
    using reopened_ok [OF sok] by (simp_all add: st0_def)
  define rows where "rows = snd (sqlite_load_all st0)"
  have r': "r' = restore_rows ck rows ((with_cluster sid cap)\<lparr> rg_store := SqliteStore (sqlite_flush st0) \<rparr>, 0)"
    by (simp add: r'_def restarted_def enable_persistence_def restore_persisted_def rows_def
        store_load_all.simps sqlite_load_all_def Let_def flip: st0_def)
  have rows: "p \<in> set rows \<longleftrightarrow> sqlite_view st (ps_id p) = Some p" for p
    using sqlite.load_view [OF st0(1)] st0(2) by (simp add: rows_def)
  have dist: "distinct (map ps_id rows)" using sqlite.load_distinct [OF st0(1)] by (simp add: rows_def)
  have live: "s_id s = i" if "live_at r i = Some s" for i s
    using that ok(1) by (auto simp: live_at_def registry_ok_def sessions_ok_def split: option.splits if_splits)
  have rows_live: "p \<in> set rows \<longleftrightarrow> (\<exists>i s ck. live_at r i = Some s \<and> sqlite_view st i = Some p \<and> p = durable ck s)" for p
  proof
    assume "p \<in> set rows"
    then have "sqlite_view st (ps_id p) = Some p" by (simp add: rows)
    with mir [of "ps_id p"] show "\<exists>i s ck. live_at r i = Some s \<and> sqlite_view st i = Some p \<and> p = durable ck s"
      by (auto simp: stored_def split: option.splits)
  qed (use live in \<open>auto simp: rows\<close>)
  have "inj_on ps_token (set (filter resumable_row rows))"
  proof (rule inj_onI)
    fix p q assume "p \<in> set (filter resumable_row rows)" "q \<in> set (filter resumable_row rows)"
      and tok: "ps_token p = ps_token q"
    then obtain i s c j t d where
      p: "live_at r i = Some s" "p = durable c s" "sqlite_view st i = Some p" and
      q: "live_at r j = Some t" "q = durable d t" "sqlite_view st j = Some q"
      using rows_live by auto
    have "hm_get (rg_token_index r) (s_token s) = Some i" "hm_get (rg_token_index r) (s_token t) = Some j"
      using p(1) q(1) ok(2) by (auto simp: live_at_def tokens_bound_def split: option.splits if_splits)
    with tok p(2) q(2) have "i = j" by simp
    with p(3) q(3) show "p = q" by simp
  qed
  moreover have "distinct rows" using dist by (simp add: distinct_map)
  ultimately have "distinct (map ps_token (filter resumable_row rows))" by (simp add: distinct_map)
  with r' dist rows rows_live show ?thesis unfolding st0_def by blast
qed

lemma live_id: "registry_ok r \<Longrightarrow> live_at r i = Some s \<Longrightarrow> s_id s = i \<and> i < i + 1"
proof -
  assume "registry_ok r" "live_at r i = Some s"
  then have "s_id s = i \<and> i < rg_next_id r"
    by (auto simp: live_at_def registry_ok_def sessions_ok_def split: option.splits if_splits)
  moreover then have "i \<noteq> - 1" by (metis word_order.extremum_strict)
  ultimately show ?thesis by (simp add: less_next)
qed

text \<open>
  What the restart makes of the rows: the sessions and the token index of the new registry are those of
  the resumable rows, and the rows are the durable forms of the live sessions of the old one.
\<close>

definition comes_back :: "registry \<Rightarrow> clock \<Rightarrow> persisted_session list \<Rightarrow> registry \<Rightarrow> bool" where
  "comes_back r ck rows r' \<longleftrightarrow> registry_ok r \<and> tokens_bound r
     \<and> hm_wf (rg_sessions r') \<and> hm_wf (rg_token_index r')
     \<and> (\<forall>i s'. session_at r' i = Some s' \<longleftrightarrow>
          (\<exists>p. p \<in> set rows \<and> resumable_row p \<and> ps_id p = i \<and> s' = restored_session ck p))
     \<and> (\<forall>tok i. hm_get (rg_token_index r') tok = Some i \<longleftrightarrow>
          (\<exists>p. p \<in> set rows \<and> resumable_row p \<and> ps_token p = tok \<and> ps_id p = i))
     \<and> (\<forall>p \<in> set rows. \<exists>i s c. live_at r i = Some s \<and> p = durable c s)
     \<and> (\<forall>i s. live_at r i = Some s \<longrightarrow> i < rg_next_id r' \<and> (\<exists>c. durable c s \<in> set rows))"

lemma restart_comes_back:
  assumes ok: "registry_ok r" "tokens_bound r" "mirrors r" and st: "rg_store r = SqliteStore st"
    and r': "r' = restarted ck sid cap st"
  shows "\<exists>rows. comes_back r ck rows r' \<and> mirrors r'"
proof -
  define r0 where "r0 = (with_cluster sid cap)\<lparr> rg_store := SqliteStore (sqlite_flush (sqlite_open (sq_table (sqlite_flush st)))) \<rparr>"
  obtain rows where rows: "r' = restore_rows ck rows (r0, 0)" "distinct (map ps_id rows)"
    "distinct (map ps_token (filter resumable_row rows))"
    and live_rows: "\<And>p. p \<in> set rows \<longleftrightarrow> (\<exists>i s ck. live_at r i = Some s \<and> sqlite_view st i = Some p \<and> p = durable ck s)"
    using restart_facts [OF ok st r'] unfolding r0_def by blast
  have empty: "session_at r0 i = None" "hm_get (rg_token_index r0) tok = None" for i tok
    by (simp_all add: r0_def session_at_def with_cluster_def registry_new_def)
  have wf: "hm_wf (rg_sessions r')" "hm_wf (rg_token_index r')"
    using restore_wf [of "(r0, 0)" ck rows] by (simp_all add: rows(1) r0_def with_cluster_def registry_new_def)
  have at': "session_at r' i = Some s' \<longleftrightarrow>
      (\<exists>p. p \<in> set rows \<and> resumable_row p \<and> ps_id p = i \<and> s' = restored_session ck p)" for i s'
    unfolding rows(1) by (rule restore_session_iff) (simp_all add: rows(2) empty)
  have ix': "hm_get (rg_token_index r') tok = Some i \<longleftrightarrow>
      (\<exists>p. p \<in> set rows \<and> resumable_row p \<and> ps_token p = tok \<and> ps_id p = i)" for tok i
    unfolding rows(1) by (rule restore_index_iff) (simp_all add: rows(3) empty)
  have mir: "stored (sqlite_view st i) (live_at r i)" and sok: "sqlite_ok st" for i
    using ok(3) st by (auto simp: mirrors_def)
  have live_in_rows: "\<exists>c. durable c s \<in> set rows" if "live_at r i = Some s" for i s
    using mir [of i] that by (auto simp: live_rows stored_def)
  have next_id: "i < rg_next_id r'" if at: "live_at r i = Some s" for i s
  proof -
    from live_in_rows [OF at] obtain c where "durable c s \<in> set rows" by blast
    then have "s_id s + 1 \<le> rg_next_id r'"
      using restore_next_id(2) [of "durable c s" rows ck "(r0, 0)"] by (simp add: rows(1))
    with live_id [OF ok(1) at] show ?thesis by (auto intro: order.strict_trans2)
  qed
  have "mirrors r'"
    unfolding rows(1)
  proof (rule restore_mirrors)
    show "mirrors (r\<lparr> rg_store := rg_store r0 \<rparr>)"
      using reopened_ok [OF sok] mir sqlite.view_flush sqlite_flush_ok
      by (auto simp: mirrors_def r0_def with_cluster_def registry_new_def)
    show "live_at (r\<lparr> rg_store := rg_store r0 \<rparr>) i = live_at (fst (r0, 0 :: nat)) i"
      if "i \<notin> ps_id ` set rows" for i
      using that live_in_rows [of i] live_id [OF ok(1), of i]
      by (cases "live_at r i") (force simp: live_at_def empty)+
  qed (simp_all add: rows(2) empty)
  moreover have "comes_back r ck rows r'"
    unfolding comes_back_def
    by (intro conjI allI ballI impI ok wf at' ix' live_in_rows next_id) (auto simp: live_rows)
  ultimately show ?thesis by blast
qed

lemma comes_back_at:
  assumes "comes_back r ck rows r'" "live_at r i = Some s" "s_state s \<in> {Active, Suspended}"
  shows "\<exists>c. session_at r' i = Some (restored_session ck (durable c s))"
proof -
  from assms(1,2) obtain c where "durable c s \<in> set rows" unfolding comes_back_def by blast
  moreover have "ps_id (durable c s) = i" using assms(1,2) live_id by (auto simp: comes_back_def)
  moreover have "resumable_row (durable c s)" using assms(3) by (simp add: resumable_row_def)
  ultimately have "session_at r' i = Some (restored_session ck (durable c s))"
    using assms(1) unfolding comes_back_def by blast
  then show ?thesis by blast
qed

lemma comes_back_from:
  assumes "comes_back r ck rows r'" "session_at r' i = Some s'"
  shows "\<exists>s c. live_at r i = Some s \<and> s' = restored_session ck (durable c s) \<and> s_state s \<in> {Active, Suspended}"
proof -
  obtain p where p: "p \<in> set rows" "resumable_row p" "ps_id p = i" "s' = restored_session ck p"
    using assms unfolding comes_back_def by blast
  obtain j s c where j: "live_at r j = Some s" "p = durable c s"
    using assms(1) p(1) unfolding comes_back_def by blast
  moreover have "s_id s = j" using assms(1) j(1) live_id by (auto simp: comes_back_def)
  ultimately show ?thesis using p by (auto simp: resumable_row_def)
qed

lemma comes_back_ok:
  assumes built: "comes_back r ck rows r'"
  shows "registry_ok r' \<and> tokens_bound r'"
proof -
  note facts = built [unfolded comes_back_def]
  have "sessions_ok r'"
    unfolding sessions_ok_def
  proof (intro allI impI)
    fix i s' assume at: "session_at r' i = Some s'"
    from comes_back_from [OF built at] obtain s c where s: "live_at r i = Some s" "s' = restored_session ck (durable c s)" by blast
    moreover have "s_id s = i" using facts s(1) live_id by blast
    ultimately show "s_id s' = i \<and> i < rg_next_id r' \<and> session_ok s'" using facts by simp
  qed
  moreover have "index_ok r'"
    unfolding index_ok_def using facts
    by (intro allI impI) (metis restored_session_simps(2,3) session_state.distinct(11))
  moreover have "tokens_bound r'"
    unfolding tokens_bound_def using facts by (intro allI impI) (metis restored_session_simps(2))
  ultimately show ?thesis using facts registry_okI by blast
qed

lemma comes_back_resumable:
  assumes built: "comes_back r ck rows r'"
  shows "is_resumable tok r' = is_resumable tok r"
proof -
  note ok' = comes_back_ok [OF built, THEN conjunct1] comes_back_ok [OF built, THEN conjunct2]
  have ok: "registry_ok r" "tokens_bound r" using built by (simp_all add: comes_back_def)
  have "is_resumable tok r' = Some i \<longleftrightarrow> is_resumable tok r = Some i" for i
    unfolding is_resumable_iff [OF ok'] is_resumable_iff [OF ok]
  proof
    assume "\<exists>s. session_at r' i = Some s \<and> s_token s = tok \<and> s_state s \<in> {Active, Suspended}"
    then show "\<exists>s. session_at r i = Some s \<and> s_token s = tok \<and> s_state s \<in> {Active, Suspended}"
      using comes_back_from [OF built, of i] by (fastforce simp: live_at_def split: option.splits if_splits)
  next
    assume "\<exists>s. session_at r i = Some s \<and> s_token s = tok \<and> s_state s \<in> {Active, Suspended}"
    then obtain s where s: "live_at r i = Some s" "s_token s = tok" "s_state s \<in> {Active, Suspended}"
      by (auto simp: live_at_def)
    from comes_back_at [OF built s(1,3)] s(2)
    show "\<exists>s. session_at r' i = Some s \<and> s_token s = tok \<and> s_state s \<in> {Active, Suspended}" by auto
  qed
  then show ?thesis by (metis option.exhaust)
qed

text \<open>
  C8.  Restart.  A server with persistence that stops (its queued writes are flushed) and comes up
  again on the same database has a valid registry that its store mirrors; exactly the tokens that
  were resumable are resumable, with the same session ids; each active or suspended session is back
  as suspended, its suspend clock restarted, with its token, user and home server; and no id of a
  session that was live can be issued again.
\<close>
theorem restart_keeps_sessions:
  assumes ok: "registry_ok r" "tokens_bound r" "mirrors r" and st: "rg_store r = SqliteStore st"
    and r': "r' = restarted ck sid cap st"
  shows "registry_ok r' \<and> tokens_bound r' \<and> mirrors r'
       \<and> (\<forall>tok. is_resumable tok r' = is_resumable tok r)
       \<and> (\<forall>i s. session_at r i = Some s \<and> s_state s \<in> {Active, Suspended} \<longrightarrow>
            (\<exists>s'. session_at r' i = Some s' \<and> s_state s' = Suspended \<and> s_suspended_at s' = Some (ck_now ck)
                \<and> s_token s' = s_token s \<and> s_user s' = s_user s \<and> s_home_server s' = s_home_server s))
       \<and> (\<forall>i s. live_at r i = Some s \<longrightarrow> i < rg_next_id r')"
proof -
  obtain rows where built: "comes_back r ck rows r'" and mir: "mirrors r'"
    using restart_comes_back [OF ok st r'] by blast
  have "\<exists>s'. session_at r' i = Some s' \<and> s_state s' = Suspended \<and> s_suspended_at s' = Some (ck_now ck)
      \<and> s_token s' = s_token s \<and> s_user s' = s_user s \<and> s_home_server s' = s_home_server s"
    if s: "session_at r i = Some s" "s_state s \<in> {Active, Suspended}" for i s
  proof -
    have "live_at r i = Some s" using s by (auto simp: live_at_def)
    from comes_back_at [OF built this s(2)] show ?thesis by auto
  qed
  moreover have "i < rg_next_id r'" if "live_at r i = Some s" for i s
    using built that by (auto simp: comes_back_def)
  ultimately show ?thesis using comes_back_ok [OF built] comes_back_resumable [OF built] mir by blast
qed

text \<open>A server that starts with an empty database.\<close>

definition fresh_server :: "string \<Rightarrow> nat \<Rightarrow> registry" where
  "fresh_server sid cap = with_store (SqliteStore (sqlite_open [])) (with_cluster sid cap)"

definition the_sqlite :: "registry \<Rightarrow> sqlite_store" where
  "the_sqlite r = (case rg_store r of SqliteStore st \<Rightarrow> st | NullStore \<Rightarrow> sqlite_open [])"

lemma fresh_server_ok [wr_invs]:
  "registry_ok (fresh_server sid cap)" "tokens_bound (fresh_server sid cap)" "mirrors (fresh_server sid cap)"
  by (simp_all add: registry_ok_def sessions_ok_def index_ok_def tokens_bound_def registry_new_def
      with_cluster_def session_at_def fresh_server_def with_store_def mirrors_def live_at_def
      sqlite_ok_def sqlite_open_def table_ok_def sqlite_view_def table_view_def sqlite_flush_def)

lemma mirrors_the_sqlite: "mirrors r \<Longrightarrow> rg_store r = SqliteStore (the_sqlite r)"
  by (auto simp: mirrors_def the_sqlite_def)

theorem restart_keeps_sessions_witness:
  "let ck = \<lparr> ck_now = 5, ck_epoch = 100 \<rparr>;
       r = fold registry_step [(ck, Connect ''tok''), (ck, Transit 1 Active)] (fresh_server ''s1'' 50)
   in is_resumable ''tok'' (restarted ck ''s1'' 50 (the_sqlite r)) = Some 1"
proof -
  let ?ck = "\<lparr> ck_now = 5, ck_epoch = 100 \<rparr>"
  define r0 where "r0 = fresh_server ''s1'' 50"
  define r1 where "r1 = registry_step (?ck, Connect ''tok'') r0"
  define r2 where "r2 = registry_step (?ck, Transit 1 Active) r1"
  have next_ids: "rg_next_id r0 = 1" "rg_next_id r1 = 2"
    by (simp_all add: r1_def r0_def fresh_server_def with_store_def with_cluster_def registry_new_def
        create_session_simps)
  have r0: "registry_ok r0 \<and> tokens_bound r0" "mirrors r0"
    using fresh_server_ok by (simp_all add: r0_def)
  then have r1: "registry_ok r1 \<and> tokens_bound r1" "mirrors r1"
    unfolding r1_def using next_ids(1) by (intro registry_step_ok mirrors_step; simp)+
  then have r2: "registry_ok r2 \<and> tokens_bound r2" "mirrors r2"
    unfolding r2_def using next_ids(2) by (intro registry_step_ok mirrors_step; simp)+
  have "is_resumable ''tok'' r2 = Some 1"
    by (simp add: r2_def r1_def r0_def fresh_server_def with_store_def with_cluster_def registry_new_def
        create_session_def transition_def session_new_def session_transition_def is_resumable_def
        find_by_token_def Let_def)
  moreover have "is_resumable ''tok'' (restarted ?ck ''s1'' 50 (the_sqlite r2)) = is_resumable ''tok'' r2"
    using restart_keeps_sessions [OF r2(1) [THEN conjunct1] r2(1) [THEN conjunct2] r2(2)
        mirrors_the_sqlite [OF r2(2)] refl] by blast
  ultimately show ?thesis unfolding Let_def by (simp add: r2_def r1_def r0_def)
qed

subsection \<open>Remote affinity and the admin view\<close>

text \<open>
  Where a session lives: a session hosted here is found here whatever the affinity cache says;
  otherwise a cached entry is believed for thirty seconds after it was noted and not after; a
  new session for a token drops the cached entry; pruning never changes an answer.
\<close>
theorem locate_affinity:
  assumes "hm_wf (rg_remote_sessions r)"
  shows "(hm_get (rg_token_index r) tok = Some i \<longrightarrow> locate now tok r = Local i)
       \<and> (hm_get (rg_token_index r) tok = None \<longrightarrow>
            locate now tok (note_remote_session t0 tok sid r)
              = (if now - t0 < from_secs 30 then Remote sid else Unknown))
       \<and> locate now tok (fst (create_session ck tok r)) = Local (rg_next_id r)
       \<and> locate now tok (prune_remote_sessions now r) = locate now tok r"
  using assms
  by (auto simp: locate_def note_remote_session_def create_session_def prune_remote_sessions_def
      hm_get_retain elapsed_def REMOTE_SESSION_TTL_def Let_def split: option.split)

theorem locate_affinity_witness:
  "locate 40000000000 ''tok'' (note_remote_session 1 ''tok'' ''s2'' registry_new) = Unknown"
proof -
  have "hm_wf (rg_remote_sessions registry_new)" "hm_get (rg_token_index registry_new) ''tok'' = None"
    by (simp_all add: registry_new_def)
  with locate_affinity [of registry_new "''tok''" _ 40000000000 1 "''s2''"] show ?thesis
    by (simp add: from_secs_def nanos_per_sec_def)
qed

text \<open>
  The admin listing has one entry for each session of the registry, in increasing order of ids,
  every entry carries the redacted token only, and the counts of \<open>ServerStatus\<close> are the numbers
  of sessions in each state.
\<close>
theorem admin_listing:
  assumes "registry_ok r"
  shows "sorted (map se_id (admin_snapshot ck conn r))
       \<and> distinct (map se_id (admin_snapshot ck conn r))
       \<and> set (admin_snapshot ck conn r) = {snapshot_entry ck conn s | s i. session_at r i = Some s}
       \<and> (\<forall>s. se_token_prefix (snapshot_entry ck conn s) = redact_token (s_token s))
       \<and> state_counts r = \<lparr> sc_creating = count_by_state Creating r, sc_active = count_by_state Active r,
            sc_suspended = count_by_state Suspended r, sc_destroyed = count_by_state Destroyed r \<rparr>"
proof -
  have wf: "hm_wf (rg_sessions r)" using assms by (simp add: registry_ok_def)
  have ids: "map se_id (map (snapshot_entry ck conn) (hm_values (rg_sessions r))) = hm_keys (rg_sessions r)"
  proof -
    have "s_id (snd p) = fst p" if "p \<in> set (rg_sessions r)" for p
    proof -
      from that wf have "session_at r (fst p) = Some (snd p)" by (simp add: session_at_def hm_get_in)
      with assms show ?thesis by (auto simp: registry_ok_def dest: sessions_okD)
    qed
    then show ?thesis by (simp add: snapshot_entry_def Let_def)
  qed
  have "distinct (map se_id (admin_snapshot ck conn r))"
  proof -
    have sorted_key: "distinct (map f xs) \<Longrightarrow> distinct (map f (sort_key f xs))" for f :: "session_entry \<Rightarrow> u64" and xs
      by (simp add: distinct_map)
    show ?thesis unfolding admin_snapshot_def by (rule sorted_key) (simp only: ids wf)
  qed
  moreover have "set (admin_snapshot ck conn r) = {snapshot_entry ck conn s | s i. session_at r i = Some s}"
  proof -
    have "set (hm_values (rg_sessions r)) = {s. \<exists>i. session_at r i = Some s}"
      using hm_values_get [OF wf] unfolding session_at_def by blast
    then show ?thesis unfolding admin_snapshot_def set_sort set_map by blast
  qed
  moreover have "fold count_session ss c = \<lparr>
      sc_creating = sc_creating c + length (filter (\<lambda>s. s_state s = Creating) ss),
      sc_active = sc_active c + length (filter (\<lambda>s. s_state s = Active) ss),
      sc_suspended = sc_suspended c + length (filter (\<lambda>s. s_state s = Suspended) ss),
      sc_destroyed = sc_destroyed c + length (filter (\<lambda>s. s_state s = Destroyed) ss) \<rparr>" for ss c
    by (induction ss arbitrary: c) (auto simp: count_session_def split: session_state.split)
  ultimately show ?thesis
    by (simp add: admin_snapshot_def state_counts_def session_counts_default_def count_by_state_def
        snapshot_entry_def Let_def)
qed

theorem admin_listing_witness:
  "sorted (map se_id (admin_snapshot \<lparr> ck_now = 5, ck_epoch = 100 \<rparr> None
     (fst (create_session \<lparr> ck_now = 3, ck_epoch = 98 \<rparr> ''tok'' (with_cluster ''s1'' 50)))))"
proof -
  have "registry_ok (fst (create_session \<lparr> ck_now = 3, ck_epoch = 98 \<rparr> ''tok'' (with_cluster ''s1'' 50)))"
    by (rule create_session_ok [OF with_cluster_ok(1)]) (simp add: with_cluster_def registry_new_def)
  from admin_listing [OF this, of "\<lparr> ck_now = 5, ck_epoch = 100 \<rparr>" None] show ?thesis by blast
qed

text \<open>
  Destroying a session whose token a newer session has taken over removes the token from the
  index although the newer session is alive: the newer session can then no longer be resumed.
\<close>
theorem destroy_unbinds_newer:
  assumes "registry_ok r" "rg_next_id r \<noteq> - 1" "session_at r i = Some s" "s_state s \<noteq> Destroyed"
    and "create_session ck (s_token s) r = (r1, j)"
    and "destroy ck i r1 = Inr r2"
  shows "session_at r2 j = Some (session_new (ck_now ck) j (s_token s) (rg_local_server_id r))
       \<and> find_by_token (s_token s) r2 = None"
proof -
  have r1: "r1 = fst (create_session ck (s_token s) r)" "j = rg_next_id r"
    using assms(5) by (auto simp: create_session_def Let_def)
  have ij: "i \<noteq> j" using fresh_id [OF assms(1)] assms(3) r1(2) by auto
  with assms(3) have "session_at r1 i = Some s" by (simp add: r1 create_session_simps)
  with assms(6) have "r2 = after_transition ck i Destroyed s r1"
    by (auto simp: destroy_def transition_Inr)
  with ij r1 show ?thesis by (simp add: create_session_simps find_by_token_def)
qed

theorem destroy_unbinds_newer_witness:
  "let ck = \<lparr> ck_now = 5, ck_epoch = 100 \<rparr>;
       r = fst (create_session ck ''tok'' (with_cluster ''s1'' 50));
       r1 = fst (create_session ck ''tok'' r)
   in \<exists>r2. destroy ck 1 r1 = Inr r2 \<and> session_at r2 2 = Some (session_new 5 2 ''tok'' ''s1'')
        \<and> find_by_token ''tok'' r2 = None"
proof -
  let ?ck = "\<lparr> ck_now = 5, ck_epoch = 100 \<rparr>"
  define r where "r = fst (create_session ?ck ''tok'' (with_cluster ''s1'' 50))"
  have facts: "rg_next_id (with_cluster ''s1'' 50) = 1" "rg_local_server_id r = ''s1''"
    by (simp_all add: with_cluster_def registry_new_def r_def create_session_def Let_def)
  have ok: "registry_ok r"
    unfolding r_def by (rule create_session_ok [OF with_cluster_ok(1)]) (simp add: facts)
  have n: "rg_next_id r = 2" and at: "session_at r 1 = Some (session_new 5 1 ''tok'' ''s1'')"
    by (simp_all add: r_def create_session_simps facts) (simp add: with_cluster_def)
  obtain r1 j where r1: "create_session ?ck ''tok'' r = (r1, j)" by fastforce
  then have j: "r1 = fst (create_session ?ck ''tok'' r)" "j = 2"
    using create_session_simps(1) [of ?ck "''tok''" r] by (simp_all add: n)
  have "session_at r1 1 = Some (session_new 5 1 ''tok'' ''s1'')"
    by (simp add: j create_session_simps at n)
  then obtain r2 where r2: "destroy ?ck 1 r1 = Inr r2"
    by (auto simp: destroy_def transition_Inr)
  have "session_at r2 j = Some (session_new (ck_now ?ck) j (s_token (session_new 5 1 ''tok'' ''s1'')) (rg_local_server_id r))
      \<and> find_by_token (s_token (session_new 5 1 ''tok'' ''s1'')) r2 = None"
    by (rule destroy_unbinds_newer [OF ok _ at _ _ r2]) (simp_all add: n r1)
  then have "session_at r2 2 = Some (session_new 5 2 ''tok'' ''s1'')" "find_by_token ''tok'' r2 = None"
    by (simp_all add: j facts)
  with r2 have "\<exists>r2. destroy ?ck 1 r1 = Inr r2 \<and> session_at r2 2 = Some (session_new 5 2 ''tok'' ''s1'')
        \<and> find_by_token ''tok'' r2 = None" by blast
  then show ?thesis unfolding Let_def r_def [symmetric] j(1) [symmetric] .
qed

end
