(* ===== verification/WmTypes.thy ===== *)
theory WmTypes
  imports Prelude "HOL-Library.Char_ord" "HOL-Library.List_Lexorder"
begin

text \<open>
  Window-manager types (\<open>crates/wrsrvd/src/wm/types.rs\<close>): render commands and restacking, border
  specifications, and the workspace and tag visibility model.  A \<open>WindowId\<close> is its \<open>u64\<close>;
  \<open>f32\<close> colour channels are exact rationals.
\<close>

unbundle bit_operations_syntax

type_synonym window_id = u64
type_synonym point = "int \<times> int"

record window_info =
  wi_title :: "string option"
  wi_app_id :: "string option"
  wi_output_width :: int
  wi_output_height :: int
  wi_min_size :: "(int \<times> int) option"
  wi_max_size :: "(int \<times> int) option"

datatype decoration_mode = ServerSide | ClientSide

record manage_response =
  mr_size :: "int \<times> int"
  mr_position :: point
  mr_focus :: bool
  mr_decoration :: decoration_mode

datatype z_order = Top | Bottom | Above window_id | Below window_id | Preserve

record render_command =
  rc_id :: window_id
  rc_position :: point
  rc_z_order :: z_order
  rc_visible :: bool

subsection \<open>Stacking\<close>

text \<open>\<open>Vec::remove\<close> and \<open>Vec::insert\<close>, for positions in range.\<close>

definition remove_at :: "nat \<Rightarrow> 'a list \<Rightarrow> 'a list" where
  "remove_at i xs = take i xs @ drop (Suc i) xs"

definition insert_at :: "nat \<Rightarrow> 'a \<Rightarrow> 'a list \<Rightarrow> 'a list" where
  "insert_at i x xs = take i xs @ x # drop i xs"

definition restack_sibling :: "window_id list \<Rightarrow> window_id \<Rightarrow> nat \<Rightarrow> window_id \<Rightarrow> nat \<Rightarrow> window_id list" where
  "restack_sibling order w pos sibling offset =
     (if sibling = w then order
      else let rest = remove_at pos order in
           case position (\<lambda>s. s = sibling) rest of
             Some sib_pos \<Rightarrow> insert_at (sib_pos + offset) w rest
           | None \<Rightarrow> insert_at pos w rest)"

definition restack_one :: "window_id list \<Rightarrow> render_command \<Rightarrow> window_id list" where
  "restack_one order cmd =
     (case position (\<lambda>w. w = rc_id cmd) order of
        None \<Rightarrow> order
      | Some pos \<Rightarrow>
          (case rc_z_order cmd of
             Preserve \<Rightarrow> order
           | Top \<Rightarrow> remove_at pos order @ [rc_id cmd]
           | Bottom \<Rightarrow> insert_at 0 (rc_id cmd) (remove_at pos order)
           | Above sibling \<Rightarrow> restack_sibling order (rc_id cmd) pos sibling 1
           | Below sibling \<Rightarrow> restack_sibling order (rc_id cmd) pos sibling 0))"

definition restack :: "window_id list \<Rightarrow> render_command list \<Rightarrow> window_id list" where
  "restack stack commands = foldl restack_one stack commands"

subsection \<open>Borders\<close>

record border_spec =
  bs_red :: u8
  bs_green :: u8
  bs_blue :: u8
  bs_alpha :: u8
  bs_width :: int

definition clamp_u8 :: "u32 \<Rightarrow> u8" where
  "clamp_u8 c = ucast (min c 255)"

definition from_protocol :: "u32 \<Rightarrow> u32 \<Rightarrow> u32 \<Rightarrow> u32 \<Rightarrow> int \<Rightarrow> border_spec option" where
  "from_protocol red green blue alpha width =
     (if width \<le> 0 then None
      else Some \<lparr> bs_red = clamp_u8 red, bs_green = clamp_u8 green, bs_blue = clamp_u8 blue,
                  bs_alpha = clamp_u8 alpha, bs_width = width \<rparr>)"

definition channel :: "u8 \<Rightarrow> rat" where
  "channel c = rat_of_nat (unat c) / 255"

definition color_f32 :: "border_spec \<Rightarrow> rat list" where
  "color_f32 b =
     (let a = channel (bs_alpha b) in
      [channel (bs_red b) * a, channel (bs_green b) * a, channel (bs_blue b) * a, a])"

subsection \<open>Workspaces and tags\<close>

definition DEFAULT_OUTPUT :: string where
  "DEFAULT_OUTPUT = ''wayray-0''"

record workspace_state =
  ws_workspaces :: "(string, unit) hashmap"
  ws_active :: "(string, string) hashmap"
  ws_default_output :: string
  ws_window_workspace :: "(window_id, string) hashmap"
  ws_window_tags :: "(window_id, u32) hashmap"
  ws_active_tags :: "(string, u32) hashmap"
  ws_window_output :: "(window_id, string) hashmap"

definition workspace_default :: workspace_state where
  "workspace_default =
     \<lparr> ws_workspaces = [], ws_active = [], ws_default_output = DEFAULT_OUTPUT,
       ws_window_workspace = [], ws_window_tags = [], ws_active_tags = [(DEFAULT_OUTPUT, 1)],
       ws_window_output = [] \<rparr>"

definition output_key :: "workspace_state \<Rightarrow> string \<Rightarrow> string" where
  "output_key ws output =
     (if hm_contains (ws_active ws) output \<or> hm_contains (ws_active_tags ws) output
         \<or> output = ws_default_output ws
      then output else ws_default_output ws)"

definition active_tags_for :: "workspace_state \<Rightarrow> string \<Rightarrow> u32" where
  "active_tags_for ws output =
     (case hm_get (ws_active_tags ws) (output_key ws output) of None \<Rightarrow> 1 | Some t \<Rightarrow> t)"

definition active_workspace_for :: "workspace_state \<Rightarrow> string \<Rightarrow> string option" where
  "active_workspace_for ws output = hm_get (ws_active ws) (output_key ws output)"

definition create_workspace :: "string \<Rightarrow> workspace_state \<Rightarrow> workspace_state" where
  "create_workspace name ws = ws\<lparr> ws_workspaces := hm_insert name () (ws_workspaces ws) \<rparr>"

definition first_workspace :: "workspace_state \<Rightarrow> string option" where
  "first_workspace ws =
     (if ws_workspaces ws = [] then None else Some (Min (set (hm_keys (ws_workspaces ws)))))"

definition reassign_output :: "string option \<Rightarrow> string \<Rightarrow> (string, string) hashmap \<Rightarrow> (string, string) hashmap" where
  "reassign_output fallback out active =
     (case fallback of Some nxt \<Rightarrow> hm_insert out nxt active | None \<Rightarrow> hm_remove out active)"

definition destroy_workspace :: "string \<Rightarrow> workspace_state \<Rightarrow> workspace_state" where
  "destroy_workspace name ws =
     (let ws1 = ws\<lparr> ws_workspaces := hm_remove name (ws_workspaces ws),
                    ws_window_workspace := hm_retain (\<lambda>_ w. w \<noteq> name) (ws_window_workspace ws) \<rparr>;
          fallback = first_workspace ws1;
          affected = map fst (filter (\<lambda>(_, w). w = name) (ws_active ws1))
      in ws1\<lparr> ws_active := fold (reassign_output fallback) affected (ws_active ws1) \<rparr>)"

definition set_active_workspace :: "string \<Rightarrow> string \<Rightarrow> workspace_state \<Rightarrow> workspace_state" where
  "set_active_workspace out name ws = ws\<lparr> ws_active := hm_insert out name (ws_active ws) \<rparr>"

definition set_active_tags :: "string \<Rightarrow> u32 \<Rightarrow> workspace_state \<Rightarrow> workspace_state" where
  "set_active_tags out tags ws = ws\<lparr> ws_active_tags := hm_insert out tags (ws_active_tags ws) \<rparr>"

definition assign_window :: "window_id \<Rightarrow> string \<Rightarrow> workspace_state \<Rightarrow> workspace_state" where
  "assign_window i name ws =
     ws\<lparr> ws_window_workspace := hm_insert i name (ws_window_workspace ws),
         ws_window_tags := hm_remove i (ws_window_tags ws) \<rparr>"

definition set_window_tags :: "window_id \<Rightarrow> u32 \<Rightarrow> workspace_state \<Rightarrow> workspace_state" where
  "set_window_tags i tags ws =
     ws\<lparr> ws_window_tags := hm_insert i tags (ws_window_tags ws),
         ws_window_workspace := hm_remove i (ws_window_workspace ws) \<rparr>"

definition set_window_output :: "window_id \<Rightarrow> string \<Rightarrow> workspace_state \<Rightarrow> workspace_state" where
  "set_window_output i out ws = ws\<lparr> ws_window_output := hm_insert i out (ws_window_output ws) \<rparr>"

definition window_output :: "window_id \<Rightarrow> workspace_state \<Rightarrow> string option" where
  "window_output i ws = hm_get (ws_window_output ws) i"

definition is_visible :: "window_id \<Rightarrow> string \<Rightarrow> workspace_state \<Rightarrow> bool" where
  "is_visible i output ws =
     (if (case hm_get (ws_window_output ws) i of
            Some assigned \<Rightarrow> output_key ws assigned \<noteq> output_key ws output
          | None \<Rightarrow> False)
      then False
      else case hm_get (ws_window_tags ws) i of
             Some tags \<Rightarrow> tags AND active_tags_for ws output \<noteq> 0
           | None \<Rightarrow>
               (case hm_get (ws_window_workspace ws) i of
                  Some w \<Rightarrow> active_workspace_for ws output = Some w
                | None \<Rightarrow> True))"

subsection \<open>Restacking permutes\<close>

lemma remove_at_insert: "position (\<lambda>w. w = x) xs = Some i \<Longrightarrow> insert_at i x (remove_at i xs) = xs"
  by (auto simp: position_Some insert_at_def remove_at_def id_take_nth_drop [symmetric] min_def)

lemma remove_at_filter:
  "distinct xs \<Longrightarrow> position (\<lambda>w. w = x) xs = Some i \<Longrightarrow> remove_at i xs = filter (\<lambda>w. w \<noteq> x) xs"
proof (induction xs arbitrary: i)
  case (Cons y ys)
  show ?case
  proof (cases "y = x")
    case True
    with Cons.prems have "i = 0" "x \<notin> set ys" by auto
    then show ?thesis using True by (simp add: remove_at_def) (metis (mono_tags, lifting) filter_True)
  next
    case False
    with Cons.prems obtain j where "i = Suc j" "position (\<lambda>w. w = x) ys = Some j" by auto
    with Cons False show ?thesis by (simp add: remove_at_def)
  qed
qed simp

lemma insert_at_split: "set (insert_at i x xs) = insert x (set xs)"
  using set_append [of "take i xs" "drop i xs"] by (auto simp: insert_at_def)

lemma insert_at_distinct: "distinct (insert_at i x xs) \<longleftrightarrow> x \<notin> set xs \<and> distinct xs"
proof -
  have "distinct (take i xs @ drop i xs) = distinct xs" "set (take i xs @ drop i xs) = set xs" by simp_all
  then show ?thesis unfolding insert_at_def by (auto simp del: append_take_drop_id)
qed

lemma insert_at_filter: "\<not> P x \<Longrightarrow> filter P (insert_at i x xs) = filter P xs"
  unfolding insert_at_def by simp (metis append_take_drop_id filter_append)

lemma filter_not_x: "\<not> P x \<Longrightarrow> filter (\<lambda>w. w \<noteq> x \<and> P w) xs = filter P xs"
  by (induction xs) auto

text \<open>One command moves at most its own window.\<close>

lemma restack_one_shape:
  assumes "distinct order"
  shows "restack_one order cmd = order \<or>
     (rc_id cmd \<in> set order \<and>
      (\<exists>i. restack_one order cmd = insert_at i (rc_id cmd) (filter (\<lambda>w. w \<noteq> rc_id cmd) order)))"
proof (cases "position (\<lambda>w. w = rc_id cmd) order")
  case None
  then show ?thesis by (simp add: restack_one_def)
next
  case (Some pos)
  let ?rest = "filter (\<lambda>w. w \<noteq> rc_id cmd) order"
  have rem: "remove_at pos order = ?rest" by (rule remove_at_filter [OF assms Some])
  have inn: "rc_id cmd \<in> set order" using Some by (rule position_eq_in)
  have top: "?rest @ [rc_id cmd] = insert_at (length ?rest) (rc_id cmd) ?rest" by (simp add: insert_at_def)
  have sib: "\<exists>i. restack_sibling order (rc_id cmd) pos s d = insert_at i (rc_id cmd) ?rest
      \<or> restack_sibling order (rc_id cmd) pos s d = order" for s d
    by (auto simp: restack_sibling_def rem Let_def split: option.split)
  show ?thesis
  proof (cases "rc_z_order cmd")
    case Top
    with Some inn top show ?thesis by (auto simp: restack_one_def rem)
  next
    case Bottom
    with Some inn show ?thesis by (auto simp: restack_one_def rem)
  next
    case (Above s)
    with Some inn sib [of s 1] show ?thesis by (auto simp: restack_one_def)
  next
    case (Below s)
    with Some inn sib [of s 0] show ?thesis by (auto simp: restack_one_def)
  next
    case Preserve
    with Some show ?thesis by (simp add: restack_one_def)
  qed
qed

lemma restack_one_perm:
  assumes "distinct order"
  shows "distinct (restack_one order cmd)" "set (restack_one order cmd) = set order"
    "\<not> P (rc_id cmd) \<Longrightarrow> filter P (restack_one order cmd) = filter P order"
  using restack_one_shape [OF assms, of cmd] assms
  by (auto simp: insert_at_distinct insert_at_split insert_at_filter filter_not_x)

lemma restack_perm:
  assumes "distinct stack"
  shows "distinct (restack stack cmds) \<and> set (restack stack cmds) = set stack
     \<and> ((\<forall>c \<in> set cmds. \<not> P (rc_id c)) \<longrightarrow> filter P (restack stack cmds) = filter P stack)"
  using assms unfolding restack_def
proof (induction cmds arbitrary: stack)
  case (Cons c cmds)
  then show ?case
    using Cons.IH [OF restack_one_perm(1) [OF Cons.prems, of c]]
      restack_one_perm(2) [OF Cons.prems, of c] restack_one_perm(3) [OF Cons.prems, of P c] by simp
qed simp

lemma restack_snoc: "restack stack (cmds @ [c]) = restack_one (restack stack cmds) c"
  by (simp add: restack_def)

lemma restack_one_places:
  assumes "distinct order" "rc_id c \<in> set order"
  shows "rc_z_order c = Top \<Longrightarrow> \<exists>xs. restack_one order c = xs @ [rc_id c]"
    and "rc_z_order c = Bottom \<Longrightarrow> \<exists>xs. restack_one order c = rc_id c # xs"
    and "rc_z_order c = Above s \<Longrightarrow> s \<in> set order \<Longrightarrow> s \<noteq> rc_id c \<Longrightarrow>
           \<exists>xs ys. restack_one order c = xs @ [s, rc_id c] @ ys"
    and "rc_z_order c = Below s \<Longrightarrow> s \<in> set order \<Longrightarrow> s \<noteq> rc_id c \<Longrightarrow>
           \<exists>xs ys. restack_one order c = xs @ [rc_id c, s] @ ys"
proof -
  obtain pos where pos: "position (\<lambda>w. w = rc_id c) order = Some pos"
    using assms(2) position_None [of "\<lambda>w. w = rc_id c" order] by (cases "position (\<lambda>w. w = rc_id c) order") auto
  let ?rest = "filter (\<lambda>w. w \<noteq> rc_id c) order"
  have rem: "remove_at pos order = ?rest" by (rule remove_at_filter [OF assms(1) pos])
  show "rc_z_order c = Top \<Longrightarrow> \<exists>xs. restack_one order c = xs @ [rc_id c]"
    and "rc_z_order c = Bottom \<Longrightarrow> \<exists>xs. restack_one order c = rc_id c # xs"
    by (simp_all add: restack_one_def pos insert_at_def)
  have sib: "\<exists>j. position (\<lambda>w. w = s) ?rest = Some j \<and> j < length ?rest \<and> ?rest ! j = s"
    if s: "s \<in> set order" "s \<noteq> rc_id c"
  proof -
    have "position (\<lambda>w. w = s) ?rest \<noteq> None" using s by (simp add: position_None)
    then obtain j where "position (\<lambda>w. w = s) ?rest = Some j" by auto
    then show ?thesis by (auto simp: position_Some)
  qed
  show "\<exists>xs ys. restack_one order c = xs @ [s, rc_id c] @ ys"
    if z: "rc_z_order c = Above s" and s: "s \<in> set order" "s \<noteq> rc_id c"
  proof -
    obtain j where j: "position (\<lambda>w. w = s) ?rest = Some j" "j < length ?rest" "?rest ! j = s"
      using sib [OF s] by blast
    have "restack_one order c = insert_at (j + 1) (rc_id c) ?rest"
      using z s j by (simp add: restack_one_def pos restack_sibling_def rem Let_def)
    also have "\<dots> = take j ?rest @ [s, rc_id c] @ drop (Suc j) ?rest"
      using j(2,3) by (simp add: insert_at_def take_Suc_conv_app_nth)
    finally show ?thesis by blast
  qed
  show "\<exists>xs ys. restack_one order c = xs @ [rc_id c, s] @ ys"
    if z: "rc_z_order c = Below s" and s: "s \<in> set order" "s \<noteq> rc_id c"
  proof -
    obtain j where j: "position (\<lambda>w. w = s) ?rest = Some j" "j < length ?rest" "?rest ! j = s"
      using sib [OF s] by blast
    have "restack_one order c = insert_at j (rc_id c) ?rest"
      using z s j by (simp add: restack_one_def pos restack_sibling_def rem Let_def)
    also have "\<dots> = take j ?rest @ [rc_id c, s] @ drop (Suc j) ?rest"
      using Cons_nth_drop_Suc [OF j(2)] j(3) by (simp add: insert_at_def)
    finally show ?thesis by blast
  qed
qed

text \<open>
  C13.  Restacking.  Whatever commands the window manager sends, the windows on the stack stay the
  same ones, each once, and those no command names keep their relative order; and the last command
  is honoured: its window is on top, at the bottom, or directly above or below its sibling.
\<close>
theorem restack_correct:
  assumes "distinct stack"
  shows "distinct (restack stack cmds) \<and> set (restack stack cmds) = set stack
       \<and> filter (\<lambda>w. \<forall>c \<in> set cmds. rc_id c \<noteq> w) (restack stack cmds)
           = filter (\<lambda>w. \<forall>c \<in> set cmds. rc_id c \<noteq> w) stack
       \<and> (rc_id c \<in> set stack \<longrightarrow>
            (case rc_z_order c of
               Top \<Rightarrow> \<exists>xs. restack stack (cmds @ [c]) = xs @ [rc_id c]
             | Bottom \<Rightarrow> \<exists>xs. restack stack (cmds @ [c]) = rc_id c # xs
             | Above s \<Rightarrow> s \<in> set stack - {rc_id c} \<longrightarrow>
                 (\<exists>xs ys. restack stack (cmds @ [c]) = xs @ [s, rc_id c] @ ys)
             | Below s \<Rightarrow> s \<in> set stack - {rc_id c} \<longrightarrow>
                 (\<exists>xs ys. restack stack (cmds @ [c]) = xs @ [rc_id c, s] @ ys)
             | Preserve \<Rightarrow> restack stack (cmds @ [c]) = restack stack cmds))"
proof -
  note perm = restack_perm [OF assms, of cmds "\<lambda>w. \<forall>c \<in> set cmds. rc_id c \<noteq> w"]
  then have "distinct (restack stack cmds)" "set (restack stack cmds) = set stack" by blast+
  note places = restack_one_places [OF this(1), of c, unfolded this(2)]
  have "restack_one (restack stack cmds) c = restack stack cmds" if "rc_z_order c = Preserve"
    using that by (simp add: restack_one_def split: option.split)
  with perm places show ?thesis
    unfolding restack_snoc by (cases "rc_z_order c") auto
qed

theorem restack_correct_witness:
  "set (restack [1, 2, 3] [\<lparr> rc_id = 1, rc_position = (0, 0), rc_z_order = Above 3, rc_visible = True \<rparr>])
     = {1, 2, 3}"
  using restack_correct [of "[1, 2, 3]"] by simp

subsection \<open>The workspace model\<close>

definition modes_exclusive :: "workspace_state \<Rightarrow> bool" where
  "modes_exclusive ws \<longleftrightarrow>
     hm_wf (ws_workspaces ws) \<and> hm_wf (ws_active ws) \<and> hm_wf (ws_active_tags ws)
     \<and> hm_wf (ws_window_workspace ws) \<and> hm_wf (ws_window_tags ws) \<and> hm_wf (ws_window_output ws)
     \<and> (\<forall>i. hm_get (ws_window_workspace ws) i = None \<or> hm_get (ws_window_tags ws) i = None)"

text \<open>The requests a window manager sends about workspaces, tags and outputs.\<close>

datatype ws_op =
    CreateWs string
  | DestroyWs string
  | ActivateWs string string
  | ActivateTags string u32
  | AssignWs window_id string
  | AssignTags window_id u32
  | AssignOutput window_id string

fun ws_step :: "ws_op \<Rightarrow> workspace_state \<Rightarrow> workspace_state" where
  "ws_step (CreateWs n) = create_workspace n"
| "ws_step (DestroyWs n) = destroy_workspace n"
| "ws_step (ActivateWs out n) = set_active_workspace out n"
| "ws_step (ActivateTags out t) = set_active_tags out t"
| "ws_step (AssignWs i n) = assign_window i n"
| "ws_step (AssignTags i t) = set_window_tags i t"
| "ws_step (AssignOutput i out) = set_window_output i out"

lemma reassign_wf: "hm_wf a \<Longrightarrow> hm_wf (fold (reassign_output fb) outs a)"
  by (induction outs arbitrary: a) (auto simp: reassign_output_def split: option.split)

lemma reassign_get:
  "hm_get (fold (reassign_output fb) outs a) out = (if out \<in> set outs then fb else hm_get a out)"
  by (induction outs arbitrary: a) (auto simp: reassign_output_def split: option.split)

lemma affected_outputs:
  "hm_wf a \<Longrightarrow> out \<in> set (map fst (filter (\<lambda>(_, w). w = name) a)) \<longleftrightarrow> hm_get a out = Some name"
  by (auto simp: hm_get_in image_iff)

lemma destroy_workspace_simps:
  assumes "modes_exclusive ws"
  shows "hm_get (ws_window_workspace (destroy_workspace name ws)) i
      = (if hm_get (ws_window_workspace ws) i = Some name then None else hm_get (ws_window_workspace ws) i)"
    and "hm_get (ws_active (destroy_workspace name ws)) out
      = (if hm_get (ws_active ws) out = Some name
         then first_workspace (ws\<lparr> ws_workspaces := hm_remove name (ws_workspaces ws) \<rparr>)
         else hm_get (ws_active ws) out)"
    and "ws_window_tags (destroy_workspace name ws) = ws_window_tags ws"
    and "ws_active_tags (destroy_workspace name ws) = ws_active_tags ws"
    and "ws_window_output (destroy_workspace name ws) = ws_window_output ws"
    and "ws_workspaces (destroy_workspace name ws) = hm_remove name (ws_workspaces ws)"
  using assms
  by (simp_all add: destroy_workspace_def modes_exclusive_def hm_get_retain Let_def reassign_get
      affected_outputs first_workspace_def del: set_map split: option.split)

lemma modes_default [wr_invs]: "modes_exclusive workspace_default"
  by (simp add: modes_exclusive_def workspace_default_def)

lemma modes_step [wr_invs]:
  assumes "modes_exclusive ws"
  shows "modes_exclusive (ws_step operation ws)"
proof (cases operation)
  case (DestroyWs n)
  have "hm_wf (ws_active (destroy_workspace n ws))" "hm_wf (ws_window_workspace (destroy_workspace n ws))"
    using assms by (simp_all add: destroy_workspace_def modes_exclusive_def Let_def reassign_wf)
  with DestroyWs assms show ?thesis
    by (auto simp: modes_exclusive_def destroy_workspace_simps [OF assms])
qed (use assms in \<open>auto simp: modes_exclusive_def create_workspace_def set_active_workspace_def
        set_active_tags_def assign_window_def set_window_tags_def set_window_output_def\<close>)

lemma modes_history: "modes_exclusive ws \<Longrightarrow> modes_exclusive (fold ws_step ops ws)"
  by (induction ops arbitrary: ws) (simp_all add: modes_step)

text \<open>
  Workspaces and tags.  After any sequence of requests no window is in both modes; a window put
  on a workspace shows on an output exactly while that workspace is the active one there, a tagged
  window exactly while its tags meet the active ones (unless it is bound to another output).
  Destroying a workspace leaves no window on it and no output showing it: its windows are
  unassigned, its outputs show the first remaining workspace by name, or none.
\<close>
theorem workspace_visibility:
  assumes "ws = fold ws_step ops workspace_default"
  shows "modes_exclusive ws
       \<and> is_visible i out (assign_window i n ws) =
           ((case window_output i ws of None \<Rightarrow> True | Some a \<Rightarrow> output_key ws a = output_key ws out)
            \<and> active_workspace_for ws out = Some n)
       \<and> is_visible i out (set_window_tags i tags ws) =
           ((case window_output i ws of None \<Rightarrow> True | Some a \<Rightarrow> output_key ws a = output_key ws out)
            \<and> tags AND active_tags_for ws out \<noteq> 0)
       \<and> hm_get (ws_window_workspace (destroy_workspace n ws)) i \<noteq> Some n
       \<and> (hm_get (ws_active ws) out = Some n \<longrightarrow>
            hm_get (ws_active (destroy_workspace n ws)) out
              = first_workspace (ws\<lparr> ws_workspaces := hm_remove n (ws_workspaces ws) \<rparr>))
       \<and> first_workspace (ws\<lparr> ws_workspaces := hm_remove n (ws_workspaces ws) \<rparr>) \<noteq> Some n"
proof -
  have ok: "modes_exclusive ws" using assms modes_history modes_default by simp
  have "first_workspace (ws\<lparr> ws_workspaces := hm_remove n (ws_workspaces ws) \<rparr>) \<noteq> Some n"
  proof (cases "hm_remove n (ws_workspaces ws) = []")
    case False
    then have "set (hm_keys (hm_remove n (ws_workspaces ws))) \<noteq> {}" by simp
    then have "Min (set (hm_keys (hm_remove n (ws_workspaces ws)))) \<in> set (hm_keys (hm_remove n (ws_workspaces ws)))"
      by (intro Min_in) simp_all
    with False show ?thesis unfolding hm_keys_remove by (auto simp: first_workspace_def simp del: set_map)
  qed (simp add: first_workspace_def)
  moreover have "is_visible i out (assign_window i n ws) =
           ((case window_output i ws of None \<Rightarrow> True | Some a \<Rightarrow> output_key ws a = output_key ws out)
            \<and> active_workspace_for ws out = Some n)"
    by (auto simp: is_visible_def active_workspace_for_def window_output_def output_key_def
        assign_window_def split: option.split)
  moreover have "is_visible i out (set_window_tags i tags ws) =
           ((case window_output i ws of None \<Rightarrow> True | Some a \<Rightarrow> output_key ws a = output_key ws out)
            \<and> tags AND active_tags_for ws out \<noteq> 0)"
    by (auto simp: is_visible_def active_tags_for_def window_output_def output_key_def
        set_window_tags_def split: option.split)
  ultimately show ?thesis using ok destroy_workspace_simps(1,2) [OF ok] by simp
qed

theorem workspace_visibility_witness:
  "is_visible 1 DEFAULT_OUTPUT
     (assign_window 1 ''web'' (fold ws_step [CreateWs ''web'', ActivateWs DEFAULT_OUTPUT ''web''] workspace_default))"
proof -
  let ?ws = "fold ws_step [CreateWs ''web'', ActivateWs DEFAULT_OUTPUT ''web''] workspace_default"
  have "window_output 1 ?ws = None" "active_workspace_for ?ws DEFAULT_OUTPUT = Some ''web''"
    by (simp_all add: window_output_def active_workspace_for_def create_workspace_def
        set_active_workspace_def workspace_default_def output_key_def hm_contains_def)
  with workspace_visibility [of ?ws "[CreateWs ''web'', ActivateWs DEFAULT_OUTPUT ''web'']" 1 DEFAULT_OUTPUT "''web''"] show ?thesis by simp
qed

end
