(* ===== verification/Floating.thy ===== *)
theory Floating
  imports WmTypes
begin

text \<open>
  The built-in floating window manager (\<open>crates/wrsrvd/src/wm/floating.rs\<close>) and the trait it
  implements (\<open>WindowManager\<close> of \<open>wm/mod.rs\<close>), whose contract is the locale \<open>window_manager\<close>.
  Coordinates are \<open>i32\<close> with \<open>wrap32\<close> around the arithmetic; \<open>/ 2\<close> truncates towards zero.
\<close>

definition MOD_SHIFT :: u32 where "MOD_SHIFT = 0x01"
definition MOD_CTRL :: u32 where "MOD_CTRL = 0x04"
definition MOD_ALT :: u32 where "MOD_ALT = 0x08"
definition MOD_SUPER :: u32 where "MOD_SUPER = 0x40"
definition KEY_F4 :: u32 where "KEY_F4 = 62"
definition KEY_TAB :: u32 where "KEY_TAB = 15"
definition KEY_UP :: u32 where "KEY_UP = 103"
definition KEY_LEFT :: u32 where "KEY_LEFT = 105"
definition KEY_RIGHT :: u32 where "KEY_RIGHT = 106"
definition KEY_DOWN :: u32 where "KEY_DOWN = 108"

datatype snap_half = SnapLeft | SnapRight | SnapTop | SnapBottom

definition from_key :: "u32 \<Rightarrow> snap_half option" where
  "from_key key =
     (if key = KEY_LEFT then Some SnapLeft
      else if key = KEY_RIGHT then Some SnapRight
      else if key = KEY_UP then Some SnapTop
      else if key = KEY_DOWN then Some SnapBottom
      else None)"

definition snap_geometry :: "int \<Rightarrow> int \<Rightarrow> snap_half \<Rightarrow> point \<times> (int \<times> int)" where
  "snap_geometry output_width output_height half =
     (let half_w = trunc_div output_width 2; half_h = trunc_div output_height 2 in
      case half of
        SnapLeft \<Rightarrow> ((0, 0), (half_w, output_height))
      | SnapRight \<Rightarrow> ((half_w, 0), (wrap32 (output_width - half_w), output_height))
      | SnapTop \<Rightarrow> ((0, 0), (output_width, half_h))
      | SnapBottom \<Rightarrow> ((0, half_h), (output_width, wrap32 (output_height - half_h))))"

record window_state =
  fs_position :: point
  fs_size :: "int \<times> int"
  fs_z_index :: u32
  fs_visible :: bool

record floating_wm =
  fw_windows :: "(window_id, window_state) hashmap"
  fw_focus_stack :: "window_id list"
  fw_next_z :: u32
  fw_output_width :: int
  fw_output_height :: int

definition floating_new :: "int \<Rightarrow> int \<Rightarrow> floating_wm" where
  "floating_new w h =
     \<lparr> fw_windows = [], fw_focus_stack = [], fw_next_z = 1, fw_output_width = w, fw_output_height = h \<rparr>"

definition last_opt :: "'a list \<Rightarrow> 'a option" where
  "last_opt xs = (if xs = [] then None else Some (last xs))"

definition focused :: "floating_wm \<Rightarrow> window_id option" where
  "focused wm = last_opt (fw_focus_stack wm)"

text \<open>\<open>if let Some(state) = windows.get_mut(&id)\<close> with the next z index.\<close>

definition raise_z :: "window_id \<Rightarrow> floating_wm \<Rightarrow> floating_wm" where
  "raise_z i wm =
     (case hm_get (fw_windows wm) i of
        None \<Rightarrow> wm
      | Some st \<Rightarrow> wm\<lparr> fw_windows := hm_insert i (st\<lparr> fs_z_index := fw_next_z wm \<rparr>) (fw_windows wm),
                      fw_next_z := fw_next_z wm + 1 \<rparr>)"

definition focus_next :: "floating_wm \<Rightarrow> floating_wm \<times> window_id option" where
  "focus_next wm =
     (let stack = fw_focus_stack wm in
      if length stack < 2 then (wm, last_opt stack)
      else let stack' = last stack # butlast stack; new_focus = last stack' in
           (raise_z new_focus (wm\<lparr> fw_focus_stack := stack' \<rparr>), Some new_focus))"

definition raise_to_top :: "window_id \<Rightarrow> floating_wm \<Rightarrow> floating_wm" where
  "raise_to_top i wm =
     raise_z i (wm\<lparr> fw_focus_stack := filter (\<lambda>w. w \<noteq> i) (fw_focus_stack wm) @ [i] \<rparr>)"

definition geometry_of :: "window_id \<Rightarrow> floating_wm \<Rightarrow> (point \<times> (int \<times> int)) option" where
  "geometry_of i wm = map_option (\<lambda>s. (fs_position s, fs_size s)) (hm_get (fw_windows wm) i)"

definition snap_focused :: "snap_half \<Rightarrow> floating_wm \<Rightarrow> floating_wm \<times> bool" where
  "snap_focused half wm =
     (case focused wm of
        None \<Rightarrow> (wm, False)
      | Some i \<Rightarrow>
          (let (pos, sz) = snap_geometry (fw_output_width wm) (fw_output_height wm) half in
           case hm_get (fw_windows wm) i of
             None \<Rightarrow> (wm, False)
           | Some st \<Rightarrow>
               (wm\<lparr> fw_windows := hm_insert i (st\<lparr> fs_position := pos, fs_size := sz \<rparr>) (fw_windows wm) \<rparr>,
                True)))"

text \<open>A size hint: the minimum wins when the size is below it, else the maximum when above it.\<close>

definition clamp_hint :: "int option \<Rightarrow> int option \<Rightarrow> int \<Rightarrow> int" where
  "clamp_hint mn mx v =
     (case mn of
        Some m \<Rightarrow> if v < m then m
                  else (case mx of Some x \<Rightarrow> if v > x then x else v | None \<Rightarrow> v)
      | None \<Rightarrow> (case mx of Some x \<Rightarrow> if v > x then x else v | None \<Rightarrow> v))"

definition on_new_toplevel :: "window_id \<Rightarrow> window_info \<Rightarrow> floating_wm \<Rightarrow> floating_wm \<times> manage_response" where
  "on_new_toplevel i info wm =
     (let width = clamp_hint (map_option fst (wi_min_size info)) (map_option fst (wi_max_size info))
                    (min 800 (wi_output_width info));
          height = clamp_hint (map_option snd (wi_min_size info)) (map_option snd (wi_max_size info))
                    (min 600 (wi_output_height info));
          x = trunc_div (wrap32 (fw_output_width wm - width)) 2;
          y = trunc_div (wrap32 (fw_output_height wm - height)) 2
      in (wm\<lparr> fw_next_z := fw_next_z wm + 1,
              fw_windows := hm_insert i \<lparr> fs_position = (x, y), fs_size = (width, height),
                              fs_z_index = fw_next_z wm, fs_visible = True \<rparr> (fw_windows wm),
              fw_focus_stack := fw_focus_stack wm @ [i] \<rparr>,
          \<lparr> mr_size = (width, height), mr_position = (x, y), mr_focus = True,
            mr_decoration = ServerSide \<rparr>))"

definition on_close_toplevel :: "window_id \<Rightarrow> floating_wm \<Rightarrow> floating_wm" where
  "on_close_toplevel i wm =
     wm\<lparr> fw_windows := hm_remove i (fw_windows wm),
         fw_focus_stack := filter (\<lambda>w. w \<noteq> i) (fw_focus_stack wm) \<rparr>"

definition on_fullscreen_request :: "window_id \<Rightarrow> floating_wm \<Rightarrow> floating_wm \<times> bool" where
  "on_fullscreen_request i wm =
     (case hm_get (fw_windows wm) i of
        None \<Rightarrow> (wm, False)
      | Some st \<Rightarrow>
          (raise_to_top i
             (wm\<lparr> fw_windows := hm_insert i
                    (st\<lparr> fs_position := (0, 0), fs_size := (fw_output_width wm, fw_output_height wm) \<rparr>)
                    (fw_windows wm) \<rparr>), True))"

definition on_render :: "window_id list \<Rightarrow> floating_wm \<Rightarrow> render_command list" where
  "on_render windows wm =
     List.map_filter (\<lambda>i. map_option (\<lambda>st. \<lparr> rc_id = i, rc_position = fs_position st,
         rc_z_order = Preserve, rc_visible = fs_visible st \<rparr>) (hm_get (fw_windows wm) i)) windows"

definition on_key_binding :: "u32 \<Rightarrow> u32 \<Rightarrow> floating_wm \<Rightarrow> floating_wm \<times> bool" where
  "on_key_binding key modifiers wm =
     (if modifiers AND MOD_ALT \<noteq> 0 \<and> key = KEY_F4 then (wm, True)
      else if modifiers AND MOD_ALT \<noteq> 0 \<and> key = KEY_TAB then (fst (focus_next wm), True)
      else case from_key key of
             Some half \<Rightarrow> if modifiers AND MOD_SUPER \<noteq> 0 then snap_focused half wm else (wm, False)
           | None \<Rightarrow> (wm, False))"

definition on_pointer_focus :: "window_id \<Rightarrow> floating_wm \<Rightarrow> floating_wm \<times> window_id option" where
  "on_pointer_focus i wm =
     (if hm_contains (fw_windows wm) i then (raise_to_top i wm, Some i) else (wm, None))"

subsection \<open>The contract of a window manager\<close>

text \<open>
  \<open>managed s\<close> is the set of windows the manager knows.  The laws: every call keeps the invariant
  and changes the set the way the event says, and rendering names managed windows only.
\<close>

locale window_manager =
  fixes new_toplevel :: "window_id \<Rightarrow> window_info \<Rightarrow> 's \<Rightarrow> 's \<times> manage_response"
    and close_toplevel :: "window_id \<Rightarrow> 's \<Rightarrow> 's"
    and fullscreen :: "window_id \<Rightarrow> 's \<Rightarrow> 's \<times> bool"
    and render :: "window_id list \<Rightarrow> 's \<Rightarrow> render_command list"
    and key_binding :: "u32 \<Rightarrow> u32 \<Rightarrow> 's \<Rightarrow> 's \<times> bool"
    and pointer_focus :: "window_id \<Rightarrow> 's \<Rightarrow> 's \<times> window_id option"
    and inv :: "'s \<Rightarrow> bool"
    and managed :: "'s \<Rightarrow> window_id set"
    and focus :: "'s \<Rightarrow> window_id option"
  assumes new_inv: "inv s \<Longrightarrow> i \<notin> managed s \<Longrightarrow> inv (fst (new_toplevel i info s))"
    and new_managed: "inv s \<Longrightarrow> managed (fst (new_toplevel i info s)) = insert i (managed s)"
    and new_focus: "inv s \<Longrightarrow> mr_focus (snd (new_toplevel i info s)) \<Longrightarrow> focus (fst (new_toplevel i info s)) = Some i"
    and close_inv: "inv s \<Longrightarrow> inv (close_toplevel i s)"
    and close_managed: "inv s \<Longrightarrow> managed (close_toplevel i s) = managed s - {i}"
    and fullscreen_inv: "inv s \<Longrightarrow> inv (fst (fullscreen i s))"
    and fullscreen_managed: "inv s \<Longrightarrow> managed (fst (fullscreen i s)) = managed s"
    and fullscreen_granted: "inv s \<Longrightarrow> snd (fullscreen i s) = (i \<in> managed s)"
    and key_inv: "inv s \<Longrightarrow> inv (fst (key_binding k m s))"
    and key_managed: "inv s \<Longrightarrow> managed (fst (key_binding k m s)) = managed s"
    and pointer_inv: "inv s \<Longrightarrow> inv (fst (pointer_focus i s))"
    and pointer_managed: "inv s \<Longrightarrow> managed (fst (pointer_focus i s)) = managed s"
    and pointer_focuses: "inv s \<Longrightarrow> snd (pointer_focus i s) = (if i \<in> managed s then Some i else None)"
    and pointer_focused: "inv s \<Longrightarrow> i \<in> managed s \<Longrightarrow> focus (fst (pointer_focus i s)) = Some i"
    and focus_managed: "inv s \<Longrightarrow> (focus s = None \<longleftrightarrow> managed s = {}) \<and> (\<forall>i. focus s = Some i \<longrightarrow> i \<in> managed s)"
    and render_ids: "inv s \<Longrightarrow> map rc_id (render ws s) = filter (\<lambda>i. i \<in> managed s) ws"

datatype wm_event =
    NewToplevel window_id window_info
  | CloseToplevel window_id
  | FullscreenRequest window_id
  | KeyBinding u32 u32
  | PointerFocus window_id

text \<open>The windows alive after a history of events; a window id is never mapped twice.\<close>

fun alive :: "wm_event list \<Rightarrow> window_id set \<Rightarrow> window_id set" where
  "alive [] ws = ws"
| "alive (NewToplevel i info # es) ws = alive es (insert i ws)"
| "alive (CloseToplevel i # es) ws = alive es (ws - {i})"
| "alive (_ # es) ws = alive es ws"

fun fresh_ids :: "wm_event list \<Rightarrow> window_id set \<Rightarrow> bool" where
  "fresh_ids [] ws = True"
| "fresh_ids (NewToplevel i info # es) ws = (i \<notin> ws \<and> fresh_ids es (insert i ws))"
| "fresh_ids (CloseToplevel i # es) ws = fresh_ids es (ws - {i})"
| "fresh_ids (_ # es) ws = fresh_ids es ws"

context window_manager begin

fun handle :: "wm_event \<Rightarrow> 's \<Rightarrow> 's" where
  "handle (NewToplevel i info) s = fst (new_toplevel i info s)"
| "handle (CloseToplevel i) s = close_toplevel i s"
| "handle (FullscreenRequest i) s = fst (fullscreen i s)"
| "handle (KeyBinding k m) s = fst (key_binding k m s)"
| "handle (PointerFocus i) s = fst (pointer_focus i s)"

lemma history:
  "inv s \<Longrightarrow> fresh_ids es (managed s) \<Longrightarrow>
     inv (fold handle es s) \<and> managed (fold handle es s) = alive es (managed s)"
  by (induction es "managed s" arbitrary: s rule: alive.induct)
     (simp_all add: new_inv new_managed close_inv close_managed fullscreen_inv fullscreen_managed
        key_inv key_managed pointer_inv pointer_managed)

lemma history_render:
  "inv s \<Longrightarrow> fresh_ids es (managed s) \<Longrightarrow>
     map rc_id (render ws (fold handle es s)) = filter (\<lambda>i. i \<in> alive es (managed s)) ws"
  using history by (simp add: render_ids)

lemma history_focus:
  "inv s \<Longrightarrow> fresh_ids es (managed s) \<Longrightarrow>
     (focus (fold handle es s) = None \<longleftrightarrow> alive es (managed s) = {})
     \<and> (\<forall>i. focus (fold handle es s) = Some i \<longrightarrow> i \<in> alive es (managed s))"
  using history focus_managed by metis

end

subsection \<open>The built-in manager keeps the contract\<close>

definition fw_managed :: "floating_wm \<Rightarrow> window_id set" where
  "fw_managed wm = set (hm_keys (fw_windows wm))"

definition floating_ok :: "floating_wm \<Rightarrow> bool" where
  "floating_ok wm \<longleftrightarrow> hm_wf (fw_windows wm) \<and> distinct (fw_focus_stack wm)
     \<and> set (fw_focus_stack wm) = fw_managed wm"

lemma last_opt_simps [simp]: "last_opt [] = None" "last_opt (xs @ [x]) = Some x"
  by (simp_all add: last_opt_def)

lemma last_opt_None [simp]: "last_opt xs = None \<longleftrightarrow> xs = []"
  by (simp add: last_opt_def)

lemma last_opt_Some: "last_opt xs = Some x \<Longrightarrow> x \<in> set xs"
  by (auto simp: last_opt_def split: if_splits)

lemma raise_z_simps [simp]:
  "fw_focus_stack (raise_z i wm) = fw_focus_stack wm"
  "fw_managed (raise_z i wm) = fw_managed wm"
  "hm_wf (fw_windows wm) \<Longrightarrow> hm_wf (fw_windows (raise_z i wm))"
  by (auto simp: raise_z_def fw_managed_def map_of_eq_None_iff split: option.split dest: map_of_SomeD
      simp del: set_map simp: hm_keys_get)

lemma fw_managed_iff: "i \<in> fw_managed wm \<longleftrightarrow> hm_get (fw_windows wm) i \<noteq> None"
  unfolding fw_managed_def by (rule hm_keys_get)

lemma hm_insert_managed:
  "fw_managed (wm\<lparr> fw_windows := hm_insert i st (fw_windows wm) \<rparr>) = insert i (fw_managed wm)"
  by (simp add: fw_managed_def del: set_map)

lemma managed_focus_stack [simp]: "fw_managed (wm\<lparr> fw_focus_stack := fs \<rparr>) = fw_managed wm"
  by (simp add: fw_managed_def)

lemma raise_to_top_ok:
  "floating_ok wm \<Longrightarrow> i \<in> fw_managed wm \<Longrightarrow> floating_ok (raise_to_top i wm)"
  by (auto simp: floating_ok_def raise_to_top_def)

lemma raise_to_top_simps [simp]:
  "fw_managed (raise_to_top i wm) = fw_managed wm" "focused (raise_to_top i wm) = Some i"
  by (simp_all add: raise_to_top_def focused_def)

lemma update_window_ok:
  "floating_ok wm \<Longrightarrow> i \<in> fw_managed wm \<Longrightarrow>
     floating_ok (wm\<lparr> fw_windows := hm_insert i st (fw_windows wm) \<rparr>)
     \<and> fw_managed (wm\<lparr> fw_windows := hm_insert i st (fw_windows wm) \<rparr>) = fw_managed wm"
  by (simp add: floating_ok_def hm_insert_managed insert_absorb)

lemma focus_next_ok:
  "floating_ok wm \<Longrightarrow> floating_ok (fst (focus_next wm)) \<and> fw_managed (fst (focus_next wm)) = fw_managed wm"
proof (cases "fw_focus_stack wm" rule: rev_cases)
  case (snoc ys y)
  then show "floating_ok wm \<Longrightarrow> ?thesis"
    by (auto simp: focus_next_def floating_ok_def Let_def)
qed (simp add: focus_next_def)

lemma snap_focused_ok:
  "floating_ok wm \<Longrightarrow> floating_ok (fst (snap_focused half wm))
     \<and> fw_managed (fst (snap_focused half wm)) = fw_managed wm"
  by (auto simp: snap_focused_def fw_managed_iff update_window_ok split: option.split prod.split)

lemma on_new_simps:
  "fw_managed (fst (on_new_toplevel i info wm)) = insert i (fw_managed wm)"
  "fw_focus_stack (fst (on_new_toplevel i info wm)) = fw_focus_stack wm @ [i]"
  "hm_wf (fw_windows wm) \<Longrightarrow> hm_wf (fw_windows (fst (on_new_toplevel i info wm)))"
  by (simp_all add: on_new_toplevel_def fw_managed_def Let_def del: set_map)

lemma map_filter_ids:
  "map rc_id (on_render ws wm) = filter (\<lambda>i. i \<in> fw_managed wm) ws"
  by (induction ws) (auto simp: on_render_def List.map_filter_simps fw_managed_iff split: option.split)

interpretation floating: window_manager on_new_toplevel on_close_toplevel on_fullscreen_request
  on_render on_key_binding on_pointer_focus floating_ok fw_managed focused
proof unfold_locales
  fix wm :: floating_wm and i :: window_id and info :: window_info and k m :: u32
  assume ok: "floating_ok wm"
  show "i \<notin> fw_managed wm \<Longrightarrow> floating_ok (fst (on_new_toplevel i info wm))"
    using ok by (simp add: floating_ok_def on_new_simps)
  show "fw_managed (fst (on_new_toplevel i info wm)) = insert i (fw_managed wm)"
    by (rule on_new_simps)
  show "focused (fst (on_new_toplevel i info wm)) = Some i"
    by (simp add: focused_def on_new_simps)
  show "floating_ok (on_close_toplevel i wm)" "fw_managed (on_close_toplevel i wm) = fw_managed wm - {i}"
    using ok by (auto simp: floating_ok_def on_close_toplevel_def fw_managed_def simp del: set_map)
  show "floating_ok (fst (on_fullscreen_request i wm))"
    "fw_managed (fst (on_fullscreen_request i wm)) = fw_managed wm"
    "snd (on_fullscreen_request i wm) = (i \<in> fw_managed wm)"
    using ok
    by (auto simp: on_fullscreen_request_def fw_managed_iff raise_to_top_ok update_window_ok
        split: option.split)
  show "floating_ok (fst (on_key_binding k m wm))" "fw_managed (fst (on_key_binding k m wm)) = fw_managed wm"
    using ok by (auto simp: on_key_binding_def focus_next_ok snap_focused_ok split: option.split)
  show "floating_ok (fst (on_pointer_focus i wm))" "fw_managed (fst (on_pointer_focus i wm)) = fw_managed wm"
    "snd (on_pointer_focus i wm) = (if i \<in> fw_managed wm then Some i else None)"
    using ok by (auto simp: on_pointer_focus_def hm_contains_def fw_managed_iff raise_to_top_ok)
  show "i \<in> fw_managed wm \<Longrightarrow> focused (fst (on_pointer_focus i wm)) = Some i"
    by (simp add: on_pointer_focus_def hm_contains_def fw_managed_iff)
  show "(focused wm = None \<longleftrightarrow> fw_managed wm = {}) \<and> (\<forall>i. focused wm = Some i \<longrightarrow> i \<in> fw_managed wm)"
    using ok by (auto simp: floating_ok_def focused_def dest: last_opt_Some)
  show "map rc_id (on_render ws wm) = filter (\<lambda>i. i \<in> fw_managed wm) ws" for ws
    by (rule map_filter_ids)
qed

fun floating_step :: "wm_event \<Rightarrow> floating_wm \<Rightarrow> floating_wm" where
  "floating_step (NewToplevel i info) wm = fst (on_new_toplevel i info wm)"
| "floating_step (CloseToplevel i) wm = on_close_toplevel i wm"
| "floating_step (FullscreenRequest i) wm = fst (on_fullscreen_request i wm)"
| "floating_step (KeyBinding k m) wm = fst (on_key_binding k m wm)"
| "floating_step (PointerFocus i) wm = fst (on_pointer_focus i wm)"

lemma floating_step_handle: "floating_step = floating.handle"
proof (intro ext)
  show "floating_step e wm = floating.handle e wm" for e wm
    by (cases e) simp_all
qed

lemma floating_new_ok: "floating_ok (floating_new w h)" "fw_managed (floating_new w h) = {}"
  by (simp_all add: floating_ok_def floating_new_def fw_managed_def)

text \<open>
  C15.  After any history of toplevels, closes, fullscreen requests, key bindings and clicks, the
  built-in window manager places exactly the windows that are alive, and the focus is on one of
  them; nothing has the focus only when no window is alive.
\<close>
theorem floating_history:
  assumes "fresh_ids es {}"
  shows "map rc_id (on_render ws (fold floating_step es (floating_new w h)))
           = filter (\<lambda>i. i \<in> alive es {}) ws
       \<and> (focused (fold floating_step es (floating_new w h)) = None \<longleftrightarrow> alive es {} = {})
       \<and> (\<forall>i. focused (fold floating_step es (floating_new w h)) = Some i \<longrightarrow> i \<in> alive es {})"
  using floating.history_render [of "floating_new w h" es ws] floating.history_focus [of "floating_new w h" es]
    assms
  by (simp add: floating_new_ok floating_step_handle)

definition plain_info :: window_info where
  "plain_info = \<lparr> wi_title = None, wi_app_id = None, wi_output_width = 1024, wi_output_height = 768,
     wi_min_size = None, wi_max_size = None \<rparr>"

theorem floating_history_witness:
  "map rc_id (on_render [3, 2, 1] (fold floating_step
     [NewToplevel 1 plain_info, NewToplevel 2 plain_info, CloseToplevel 1] (floating_new 1024 768))) = [2]"
  using floating_history [of "[NewToplevel 1 plain_info, NewToplevel 2 plain_info, CloseToplevel 1]" "[3, 2, 1]"]
  by simp

text \<open>
  Snapping.  With an output of non-negative size, the left and right halves (and the top and
  bottom halves) tile the output exactly, the far half taking the odd pixel; and Super with an
  arrow gives the focused window that geometry and changes nothing else about any window.
\<close>
theorem snap_tiles_output:
  assumes "0 \<le> w" "in_i32 w" "0 \<le> h" "in_i32 h"
  shows "(let (lp, ls) = snap_geometry w h SnapLeft; (rp, rs) = snap_geometry w h SnapRight;
              (tp, ts) = snap_geometry w h SnapTop; (bp, bs) = snap_geometry w h SnapBottom in
            lp = (0, 0) \<and> rp = (fst ls, 0) \<and> fst ls + fst rs = w \<and> snd ls = h \<and> snd rs = h
          \<and> fst ls \<le> fst rs \<and> fst rs \<le> fst ls + 1
          \<and> tp = (0, 0) \<and> bp = (0, snd ts) \<and> snd ts + snd bs = h \<and> fst ts = w \<and> fst bs = w
          \<and> snd ts \<le> snd bs \<and> snd bs \<le> snd ts + 1)
       \<and> (focused wm = Some i \<longrightarrow> floating_ok wm \<longrightarrow> from_key key = Some half \<longrightarrow>
          mods AND MOD_SUPER \<noteq> 0 \<longrightarrow> mods AND MOD_ALT = 0 \<longrightarrow>
          snd (on_key_binding key mods wm)
          \<and> geometry_of i (fst (on_key_binding key mods wm))
              = Some (snap_geometry (fw_output_width wm) (fw_output_height wm) half)
          \<and> (\<forall>j. j \<noteq> i \<longrightarrow> geometry_of j (fst (on_key_binding key mods wm)) = geometry_of j wm))"
proof -
  have half: "in_i32 (v - v div 2)" "v div 2 \<le> v - v div 2" "v - v div 2 \<le> v div 2 + 1"
    if "0 \<le> v" "in_i32 v" for v
    using that by (auto simp: in_i32_def)
  have "hm_get (fw_windows wm) i \<noteq> None" if "focused wm = Some i" "floating_ok wm"
    using that floating.focus_managed [of wm] fw_managed_iff [of i wm] by blast
  then have "focused wm = Some i \<Longrightarrow> floating_ok wm \<Longrightarrow> from_key key = Some half \<Longrightarrow>
          mods AND MOD_SUPER \<noteq> 0 \<Longrightarrow> mods AND MOD_ALT = 0 \<Longrightarrow>
          snd (on_key_binding key mods wm)
          \<and> geometry_of i (fst (on_key_binding key mods wm))
              = Some (snap_geometry (fw_output_width wm) (fw_output_height wm) half)
          \<and> (\<forall>j. j \<noteq> i \<longrightarrow> geometry_of j (fst (on_key_binding key mods wm)) = geometry_of j wm)"
    by (auto simp: on_key_binding_def snap_focused_def geometry_of_def split: prod.split)
  with half [OF assms(1,2)] half [OF assms(3,4)] assms show ?thesis
    by (simp add: snap_geometry_def Let_def)
qed

theorem snap_tiles_output_witness:
  "snap_geometry 1025 768 SnapRight = ((512, 0), (513, 768)) \<and>
   fst (snd (snap_geometry 1025 768 SnapLeft)) + fst (snd (snap_geometry 1025 768 SnapRight)) = 1025"
proof
  show "snap_geometry 1025 768 SnapRight = ((512, 0), (513, 768))"
    by (simp add: snap_geometry_def Let_def in_i32_def)
  show "fst (snd (snap_geometry 1025 768 SnapLeft)) + fst (snd (snap_geometry 1025 768 SnapRight)) = 1025"
    using snap_tiles_output [of 1025 768] by (simp add: in_i32_def split_beta Let_def)
qed

end
