(* ===== verification/WmProtocol.thy ===== *)
theory WmProtocol
  imports WmTypes
begin

text \<open>
  The server side of the WM protocol (\<open>crates/wrsrvd/src/wm/protocol.rs\<close>): the state a connected
  external window manager builds up, request by request.  Wayland objects are numbers (distinct
  objects have distinct numbers, across clients too); the events sent to objects are returned as
  a list, as are the calls of the \<open>WmProtocolHandler\<close> compositor actions.  Whether the client of a
  manager is still known, and whether creating a resource for a window succeeds, is an argument
  (\<open>creator\<close>: \<open>None\<close> when the client is gone, else the object made for each window, if any).
\<close>

type_synonym object_id = nat
type_synonym window_snapshot = "window_id \<times> string option \<times> string option \<times> int \<times> int"
type_synonym creator = "(window_id \<Rightarrow> object_id option) option"

datatype wm_out =
    EvReplaced object_id
  | EvOutputNew object_id string int int
  | EvWindowNew object_id object_id
  | EvTitle object_id string
  | EvAppId object_id string
  | EvDimensions object_id int int
  | EvDone object_id
  | EvWindowClosed object_id object_id
  | EvManageStart object_id
  | EvRenderStart object_id
  | EvBindingPressed object_id u32 u32
  | EvBindingReleased object_id u32 u32
  | EvWorkspaceCreated object_id string
  | EvWorkspaceDestroyed object_id string

text \<open>The compositor actions of \<open>WmProtocolHandler\<close>.\<close>

datatype compositor_action =
    ConfigureWindow window_id int int
  | FocusWindow window_id
  | CloseWindow window_id
  | SetFullscreen window_id bool
  | SetDecoration window_id decoration_mode

record wm_proto =
  wp_wm_client :: "object_id option"
  wp_window_objects :: "(window_id, object_id) hashmap"
  wp_pending :: "render_command list"
  wp_manage_phase :: bool
  wp_render_phase :: bool
  wp_keybindings :: "(u32 \<times> u32 \<times> string) set"
  wp_binding_modes :: "string set"
  wp_active_mode :: string
  wp_seat :: "object_id option"
  wp_workspace :: workspace_state
  wp_workspace_manager :: "object_id option"
  wp_borders :: "(window_id, border_spec) hashmap"

definition wm_proto_new :: wm_proto where
  "wm_proto_new =
     \<lparr> wp_wm_client = None, wp_window_objects = [], wp_pending = [], wp_manage_phase = False,
       wp_render_phase = False, wp_keybindings = {}, wp_binding_modes = {}, wp_active_mode = [],
       wp_seat = None, wp_workspace = workspace_default, wp_workspace_manager = None, wp_borders = [] \<rparr>"

definition is_wm_connected :: "wm_proto \<Rightarrow> bool" where
  "is_wm_connected p = (wp_wm_client p \<noteq> None)"

definition workspace_visible :: "window_id \<Rightarrow> string \<Rightarrow> wm_proto \<Rightarrow> bool" where
  "workspace_visible i output p = is_visible i output (wp_workspace p)"

subsection \<open>Events to the window manager\<close>

definition announce_window :: "object_id \<Rightarrow> object_id \<Rightarrow> string option \<Rightarrow> string option \<Rightarrow> int \<Rightarrow> int \<Rightarrow> wm_out list" where
  "announce_window manager obj title app_id width height =
     [EvWindowNew manager obj]
     @ (case title of None \<Rightarrow> [] | Some t \<Rightarrow> [EvTitle obj t])
     @ (case app_id of None \<Rightarrow> [] | Some a \<Rightarrow> [EvAppId obj a])
     @ [EvDimensions obj width height, EvDone obj]"

definition notify_new_window ::
  "creator \<Rightarrow> window_snapshot \<Rightarrow> wm_proto \<Rightarrow> wm_proto \<times> wm_out list" where
  "notify_new_window creator win p =
     (case win of (i, title, app_id, width, height) \<Rightarrow>
       (case wp_wm_client p of
          None \<Rightarrow> (p, [])
        | Some manager \<Rightarrow>
            (case creator of
               None \<Rightarrow> (p, [])
             | Some mk \<Rightarrow>
                 (case mk i of
                    None \<Rightarrow> (p, [])
                  | Some obj \<Rightarrow>
                      (p\<lparr> wp_window_objects := hm_insert i obj (wp_window_objects p) \<rparr>,
                       announce_window manager obj title app_id width height)))))"

definition notify_window_closed :: "window_id \<Rightarrow> wm_proto \<Rightarrow> wm_proto \<times> wm_out list" where
  "notify_window_closed i p =
     (let p1 = p\<lparr> wp_borders := hm_remove i (wp_borders p) \<rparr> in
      case wp_wm_client p1 of
        None \<Rightarrow> (p1, [])
      | Some manager \<Rightarrow>
          (case hm_get (wp_window_objects p1) i of
             None \<Rightarrow> (p1, [])
           | Some obj \<Rightarrow> (p1\<lparr> wp_window_objects := hm_remove i (wp_window_objects p1) \<rparr>,
                          [EvWindowClosed manager obj])))"

definition start_manage_phase :: "wm_proto \<Rightarrow> wm_proto \<times> wm_out list" where
  "start_manage_phase p =
     (case wp_wm_client p of
        None \<Rightarrow> (p, [])
      | Some manager \<Rightarrow> (p\<lparr> wp_manage_phase := True \<rparr>, [EvManageStart manager]))"

definition start_render_phase :: "wm_proto \<Rightarrow> wm_proto \<times> wm_out list" where
  "start_render_phase p =
     (case wp_wm_client p of
        None \<Rightarrow> (p, [])
      | Some manager \<Rightarrow> (p\<lparr> wp_pending := [], wp_render_phase := True \<rparr>, [EvRenderStart manager]))"

definition take_render_commands :: "wm_proto \<Rightarrow> wm_proto \<times> render_command list" where
  "take_render_commands p = (p\<lparr> wp_pending := [] \<rparr>, wp_pending p)"

definition check_key_binding :: "u32 \<Rightarrow> u32 \<Rightarrow> bool \<Rightarrow> wm_proto \<Rightarrow> bool \<times> wm_out list" where
  "check_key_binding key modifiers pressed p =
     (let default_match = (key, modifiers, []) \<in> wp_keybindings p;
          mode_match = wp_active_mode p \<noteq> [] \<and> (key, modifiers, wp_active_mode p) \<in> wp_keybindings p
      in if \<not> default_match \<and> \<not> mode_match then (False, [])
         else (True, case wp_seat p of
                       None \<Rightarrow> []
                     | Some seat \<Rightarrow> [if pressed then EvBindingPressed seat key modifiers
                                     else EvBindingReleased seat key modifiers]))"

fun send_full_window_list ::
  "object_id \<Rightarrow> (window_id \<Rightarrow> object_id option) \<Rightarrow> window_snapshot list \<Rightarrow> wm_proto \<Rightarrow> wm_proto \<times> wm_out list" where
  "send_full_window_list manager mk [] p = (p, [])"
| "send_full_window_list manager mk ((i, title, app_id, width, height) # ws) p =
     (case mk i of
        None \<Rightarrow> send_full_window_list manager mk ws p
      | Some obj \<Rightarrow>
          (let (p', evs) = send_full_window_list manager mk ws
                 (p\<lparr> wp_window_objects := hm_insert i obj (wp_window_objects p) \<rparr>)
           in (p', announce_window manager obj title app_id width height @ evs)))"

definition window_id_for_resource :: "object_id \<Rightarrow> wm_proto \<Rightarrow> window_id option" where
  "window_id_for_resource obj p = map_option fst (iter_find (\<lambda>(_, o'). o' = obj) (wp_window_objects p))"

subsection \<open>Requests: the manager\<close>

definition bind_manager ::
  "object_id \<Rightarrow> creator \<Rightarrow> window_snapshot list \<Rightarrow> (string \<times> int \<times> int) list \<Rightarrow> wm_proto \<Rightarrow> wm_proto \<times> wm_out list" where
  "bind_manager instance creator existing outputs p =
     (let (p1, ev1) =
            (case wp_wm_client p of
               Some old \<Rightarrow> (p\<lparr> wp_wm_client := None, wp_window_objects := [], wp_borders := [] \<rparr>, [EvReplaced old])
             | None \<Rightarrow> (p, []));
          p2 = p1\<lparr> wp_wm_client := Some instance \<rparr>;
          ev2 = map (\<lambda>(name, w, h). EvOutputNew instance name w h) outputs;
          (p3, ev3) =
            (case creator of
               None \<Rightarrow> (p2, [])
             | Some mk \<Rightarrow> send_full_window_list instance mk existing p2)
      in (p3, ev1 @ ev2 @ ev3))"

datatype manager_request = ManageDone | RenderDone | GetSeat | GetWorkspaceManager object_id | ManagerDestroy

fun handle_manager_request :: "manager_request \<Rightarrow> wm_proto \<Rightarrow> wm_proto \<times> wm_out list" where
  "handle_manager_request ManageDone p = (p\<lparr> wp_manage_phase := False \<rparr>, [])"
| "handle_manager_request RenderDone p = (p\<lparr> wp_render_phase := False \<rparr>, [])"
| "handle_manager_request GetSeat p = (p, [])"
| "handle_manager_request (GetWorkspaceManager instance) p =
     (p\<lparr> wp_workspace_manager := Some instance \<rparr>,
      map (EvWorkspaceCreated instance) (hm_keys (ws_workspaces (wp_workspace p))))"
| "handle_manager_request ManagerDestroy p = (p, [])"

definition manager_destroyed :: "object_id \<Rightarrow> wm_proto \<Rightarrow> wm_proto" where
  "manager_destroyed resource p =
     (if wp_wm_client p = Some resource
      then p\<lparr> wp_wm_client := None, wp_window_objects := [], wp_manage_phase := False,
              wp_render_phase := False, wp_keybindings := {}, wp_seat := None, wp_active_mode := [],
              wp_borders := [] \<rparr>
      else p)"

subsection \<open>Requests: windows\<close>

datatype window_request =
    ProposeDimensions int int
  | SetFocus
  | UseSsd
  | UseCsd
  | GrantFullscreen
  | DenyFullscreen
  | ReqClose
  | SetPosition int int
  | SetZTop
  | SetZBottom
  | Show
  | Hide
  | SetZAbove object_id
  | SetZBelow object_id
  | SetBorders u32 u32 u32 u32 int
  | SetOutput string
  | WindowDestroy

text \<open>
  \<open>iter_mut().find(|c| c.id == window_id)\<close> and its \<open>else\<close> branch: change the first command of the
  window, or push a new one.
\<close>

fun update_command ::
  "window_id \<Rightarrow> (render_command \<Rightarrow> render_command) \<Rightarrow> render_command \<Rightarrow> render_command list \<Rightarrow> render_command list" where
  "update_command i f new [] = [new]"
| "update_command i f new (c # cs) = (if rc_id c = i then f c # cs else c # update_command i f new cs)"

definition command_for :: "window_id \<Rightarrow> z_order \<Rightarrow> bool \<Rightarrow> render_command" where
  "command_for i z visible = \<lparr> rc_id = i, rc_position = (0, 0), rc_z_order = z, rc_visible = visible \<rparr>"

definition set_z :: "window_id \<Rightarrow> z_order \<Rightarrow> wm_proto \<Rightarrow> wm_proto" where
  "set_z i z p =
     p\<lparr> wp_pending := update_command i (\<lambda>c. c\<lparr> rc_z_order := z \<rparr>) (command_for i z True) (wp_pending p) \<rparr>"

definition set_shown :: "window_id \<Rightarrow> bool \<Rightarrow> wm_proto \<Rightarrow> wm_proto" where
  "set_shown i shown p =
     p\<lparr> wp_pending := update_command i (\<lambda>c. c\<lparr> rc_visible := shown \<rparr>) (command_for i Preserve shown)
          (wp_pending p) \<rparr>"

fun handle_window_request :: "window_id \<Rightarrow> window_request \<Rightarrow> wm_proto \<Rightarrow> wm_proto \<times> compositor_action list" where
  "handle_window_request i (ProposeDimensions w h) p = (p, [ConfigureWindow i w h])"
| "handle_window_request i SetFocus p = (p, [FocusWindow i])"
| "handle_window_request i UseSsd p = (p, [SetDecoration i ServerSide])"
| "handle_window_request i UseCsd p = (p, [SetDecoration i ClientSide])"
| "handle_window_request i GrantFullscreen p = (p, [SetFullscreen i True])"
| "handle_window_request i DenyFullscreen p = (p, [SetFullscreen i False])"
| "handle_window_request i ReqClose p = (p, [CloseWindow i])"
| "handle_window_request i (SetPosition x y) p =
     (p\<lparr> wp_pending := wp_pending p @
           [\<lparr> rc_id = i, rc_position = (x, y), rc_z_order = Preserve, rc_visible = True \<rparr>] \<rparr>, [])"
| "handle_window_request i SetZTop p = (set_z i Top p, [])"
| "handle_window_request i SetZBottom p = (set_z i Bottom p, [])"
| "handle_window_request i Show p = (set_shown i True p, [])"
| "handle_window_request i Hide p = (set_shown i False p, [])"
| "handle_window_request i (SetZAbove sibling) p =
     (case window_id_for_resource sibling p of
        None \<Rightarrow> (p, [])
      | Some s \<Rightarrow> (set_z i (Above s) p, []))"
| "handle_window_request i (SetZBelow sibling) p =
     (case window_id_for_resource sibling p of
        None \<Rightarrow> (p, [])
      | Some s \<Rightarrow> (set_z i (Below s) p, []))"
| "handle_window_request i (SetBorders red green blue alpha width) p =
     (case from_protocol red green blue alpha width of
        Some spec \<Rightarrow> (p\<lparr> wp_borders := hm_insert i spec (wp_borders p) \<rparr>, [])
      | None \<Rightarrow> (p\<lparr> wp_borders := hm_remove i (wp_borders p) \<rparr>, []))"
| "handle_window_request i (SetOutput name) p =
     (p\<lparr> wp_workspace := set_window_output i name (wp_workspace p) \<rparr>, [])"
| "handle_window_request i WindowDestroy p = (p, [])"

definition window_destroyed :: "window_id \<Rightarrow> wm_proto \<Rightarrow> wm_proto" where
  "window_destroyed i p =
     p\<lparr> wp_window_objects := hm_remove i (wp_window_objects p), wp_borders := hm_remove i (wp_borders p) \<rparr>"

subsection \<open>Requests: the seat and the workspaces\<close>

datatype seat_request =
    BindKey u32 u32 string
  | UnbindKey u32 u32 string
  | CreateMode string
  | ActivateMode string
  | StartMove
  | StartResize
  | SeatDestroy

fun seat_request_body :: "seat_request \<Rightarrow> wm_proto \<Rightarrow> wm_proto" where
  "seat_request_body (BindKey key mods mode) p = p\<lparr> wp_keybindings := insert (key, mods, mode) (wp_keybindings p) \<rparr>"
| "seat_request_body (UnbindKey key mods mode) p = p\<lparr> wp_keybindings := wp_keybindings p - {(key, mods, mode)} \<rparr>"
| "seat_request_body (CreateMode name) p = p\<lparr> wp_binding_modes := insert name (wp_binding_modes p) \<rparr>"
| "seat_request_body (ActivateMode name) p = p\<lparr> wp_active_mode := name \<rparr>"
| "seat_request_body StartMove p = p"
| "seat_request_body StartResize p = p"
| "seat_request_body SeatDestroy p = p\<lparr> wp_seat := None, wp_keybindings := {} \<rparr>"

definition handle_seat_request :: "object_id \<Rightarrow> seat_request \<Rightarrow> wm_proto \<Rightarrow> wm_proto" where
  "handle_seat_request resource req p =
     seat_request_body req (if wp_seat p = None then p\<lparr> wp_seat := Some resource \<rparr> else p)"

datatype workspace_request =
    ReqCreateWorkspace string
  | ReqDestroyWorkspace string
  | ReqSetActiveWorkspace string string
  | ReqAssignWindow object_id string
  | ReqSetWindowTags object_id u32
  | ReqSetActiveTags string u32
  | WorkspaceManagerDestroy

definition on_workspace :: "(workspace_state \<Rightarrow> workspace_state) \<Rightarrow> wm_proto \<Rightarrow> wm_proto" where
  "on_workspace f p = p\<lparr> wp_workspace := f (wp_workspace p) \<rparr>"

fun handle_workspace_request :: "object_id \<Rightarrow> workspace_request \<Rightarrow> wm_proto \<Rightarrow> wm_proto \<times> wm_out list" where
  "handle_workspace_request resource (ReqCreateWorkspace name) p =
     (on_workspace (create_workspace name) p, [EvWorkspaceCreated resource name])"
| "handle_workspace_request resource (ReqDestroyWorkspace name) p =
     (on_workspace (destroy_workspace name) p, [EvWorkspaceDestroyed resource name])"
| "handle_workspace_request resource (ReqSetActiveWorkspace out name) p =
     (on_workspace (set_active_workspace out name) p, [])"
| "handle_workspace_request resource (ReqAssignWindow window name) p =
     (case window_id_for_resource window p of
        None \<Rightarrow> (p, [])
      | Some i \<Rightarrow> (on_workspace (assign_window i name) p, []))"
| "handle_workspace_request resource (ReqSetWindowTags window tags) p =
     (case window_id_for_resource window p of
        None \<Rightarrow> (p, [])
      | Some i \<Rightarrow> (on_workspace (set_window_tags i tags) p, []))"
| "handle_workspace_request resource (ReqSetActiveTags out tags) p =
     (on_workspace (set_active_tags out tags) p, [])"
| "handle_workspace_request resource WorkspaceManagerDestroy p = (p\<lparr> wp_workspace_manager := None \<rparr>, [])"

subsection \<open>Collected render commands\<close>

text \<open>
  What the window manager means in one render phase, per window: the position it set, the last
  z-order and visibility it asked for.
\<close>

definition command_at :: "render_command list \<Rightarrow> window_id \<Rightarrow> render_command option" where
  "command_at cs i = iter_find (\<lambda>c. rc_id c = i) cs"

lemma command_at_simps [simp]:
  "command_at [] i = None"
  "command_at (c # cs) i = (if rc_id c = i then Some c else command_at cs i)"
  by (simp_all add: command_at_def)

lemma command_at_append:
  "command_at (xs @ ys) i = (case command_at xs i of None \<Rightarrow> command_at ys i | Some c \<Rightarrow> Some c)"
  by (induction xs) auto

lemma command_at_None: "command_at cs i = None \<longleftrightarrow> i \<notin> rc_id ` set cs"
  by (induction cs) auto

lemma command_at_id: "command_at cs i = Some c \<Longrightarrow> rc_id c = i"
  by (induction cs) (auto split: if_splits)

definition keeps_id :: "(render_command \<Rightarrow> render_command) \<Rightarrow> bool" where
  "keeps_id f \<longleftrightarrow> (\<forall>c. rc_id (f c) = rc_id c)"

lemma command_at_update:
  assumes "keeps_id f" "rc_id new = i"
  shows "command_at (update_command i f new cs) j =
     (if j = i then Some (case command_at cs i of None \<Rightarrow> new | Some c \<Rightarrow> f c) else command_at cs j)"
  using assms by (induction cs) (auto simp: keeps_id_def)

lemma ids_update:
  assumes "keeps_id f" "rc_id new = i"
  shows "map rc_id (update_command i f new cs) =
     (if i \<in> set (map rc_id cs) then map rc_id cs else map rc_id cs @ [i])"
  using assms by (induction cs) (auto simp: keeps_id_def)

lemma keeps_id_updates [simp]:
  "keeps_id (\<lambda>c. c\<lparr> rc_z_order := z \<rparr>)" "keeps_id (\<lambda>c. c\<lparr> rc_visible := v \<rparr>)"
  by (simp_all add: keeps_id_def)

lemma command_for_id [simp]: "rc_id (command_for i z v) = i"
  by (simp add: command_for_def)

text \<open>The abstract state of a render phase: one optional placement per window.\<close>

type_synonym placement = "window_id \<Rightarrow> render_command option"

fun place_step :: "(object_id \<Rightarrow> window_id option) \<Rightarrow> window_id \<Rightarrow> window_request \<Rightarrow> placement \<Rightarrow> placement" where
  "place_step sib i (SetPosition x y) m =
     m(i \<mapsto> \<lparr> rc_id = i, rc_position = (x, y), rc_z_order = Preserve, rc_visible = True \<rparr>)"
| "place_step sib i SetZTop m =
     m(i \<mapsto> (case m i of None \<Rightarrow> command_for i Top True | Some c \<Rightarrow> c\<lparr> rc_z_order := Top \<rparr>))"
| "place_step sib i SetZBottom m =
     m(i \<mapsto> (case m i of None \<Rightarrow> command_for i Bottom True | Some c \<Rightarrow> c\<lparr> rc_z_order := Bottom \<rparr>))"
| "place_step sib i (SetZAbove obj) m =
     (case sib obj of None \<Rightarrow> m
      | Some s \<Rightarrow> m(i \<mapsto> (case m i of None \<Rightarrow> command_for i (Above s) True | Some c \<Rightarrow> c\<lparr> rc_z_order := Above s \<rparr>)))"
| "place_step sib i (SetZBelow obj) m =
     (case sib obj of None \<Rightarrow> m
      | Some s \<Rightarrow> m(i \<mapsto> (case m i of None \<Rightarrow> command_for i (Below s) True | Some c \<Rightarrow> c\<lparr> rc_z_order := Below s \<rparr>)))"
| "place_step sib i Show m =
     m(i \<mapsto> (case m i of None \<Rightarrow> command_for i Preserve True | Some c \<Rightarrow> c\<lparr> rc_visible := True \<rparr>))"
| "place_step sib i Hide m =
     m(i \<mapsto> (case m i of None \<Rightarrow> command_for i Preserve False | Some c \<Rightarrow> c\<lparr> rc_visible := False \<rparr>))"
| "place_step sib i _ m = m"

fun is_position :: "window_request \<Rightarrow> bool" where
  "is_position (SetPosition x y) = True"
| "is_position _ = False"

text \<open>A window manager that positions a window before its other render requests, and once.\<close>

fun positions_first :: "(window_id \<times> window_request) list \<Rightarrow> window_id set \<Rightarrow> bool" where
  "positions_first [] seen = True"
| "positions_first ((i, req) # rs) seen =
     ((is_position req \<longrightarrow> i \<notin> seen) \<and> positions_first rs (insert i seen))"

definition run_requests :: "(window_id \<times> window_request) list \<Rightarrow> wm_proto \<Rightarrow> wm_proto" where
  "run_requests rs p = fold (\<lambda>(i, req) p. fst (handle_window_request i req p)) rs p"

lemma window_request_objects [simp]: "wp_window_objects (fst (handle_window_request i req p)) = wp_window_objects p"
  by (cases "(i, req, p)" rule: handle_window_request.cases)
     (auto simp: set_z_def set_shown_def split: option.split)

lemma command_at_set_z:
  "command_at (wp_pending (set_z i z p)) =
     (command_at (wp_pending p))(i \<mapsto> (case command_at (wp_pending p) i of
         None \<Rightarrow> command_for i z True | Some c \<Rightarrow> c\<lparr> rc_z_order := z \<rparr>))"
  by (simp add: set_z_def command_at_update fun_eq_iff)

lemma command_at_set_shown:
  "command_at (wp_pending (set_shown i v p)) =
     (command_at (wp_pending p))(i \<mapsto> (case command_at (wp_pending p) i of
         None \<Rightarrow> command_for i Preserve v | Some c \<Rightarrow> c\<lparr> rc_visible := v \<rparr>))"
  by (simp add: set_shown_def command_at_update fun_eq_iff)

lemma window_request_refines:
  assumes "is_position req \<Longrightarrow> command_at (wp_pending p) i = None"
  shows "command_at (wp_pending (fst (handle_window_request i req p)))
           = place_step (\<lambda>obj. window_id_for_resource obj p) i req (command_at (wp_pending p))"
  using assms
  by (cases req)
     (auto simp: command_at_set_z command_at_set_shown command_at_append fun_eq_iff split: option.splits)

lemma window_request_ids:
  assumes "is_position req \<Longrightarrow> i \<notin> rc_id ` set (wp_pending p)" "distinct (map rc_id (wp_pending p))"
  shows "distinct (map rc_id (wp_pending (fst (handle_window_request i req p))))"
    and "rc_id ` set (wp_pending (fst (handle_window_request i req p))) \<subseteq> insert i (rc_id ` set (wp_pending p))"
proof -
  have ids: "map rc_id (wp_pending (set_z i z p)) =
      (if i \<in> rc_id ` set (wp_pending p) then map rc_id (wp_pending p) else map rc_id (wp_pending p) @ [i])"
    "map rc_id (wp_pending (set_shown i v p)) =
      (if i \<in> rc_id ` set (wp_pending p) then map rc_id (wp_pending p) else map rc_id (wp_pending p) @ [i])" for z v
    by (simp_all add: set_z_def set_shown_def ids_update)
  have sets: "rc_id ` set (wp_pending (set_z i z p)) = insert i (rc_id ` set (wp_pending p))"
    "rc_id ` set (wp_pending (set_shown i v p)) = insert i (rc_id ` set (wp_pending p))" for z v
    using arg_cong [OF ids(1) [of z], of set] arg_cong [OF ids(2) [of v], of set] by auto
  show "distinct (map rc_id (wp_pending (fst (handle_window_request i req p))))"
    using assms by (cases req) (auto simp: ids simp del: map_eq_append_conv split: option.split)
  show "rc_id ` set (wp_pending (fst (handle_window_request i req p))) \<subseteq> insert i (rc_id ` set (wp_pending p))"
    by (cases req) (auto simp: sets split: option.split)
qed

lemma resource_lookup_same:
  "(\<lambda>obj. window_id_for_resource obj (fst (handle_window_request i req p))) = (\<lambda>obj. window_id_for_resource obj p)"
  by (simp add: window_id_for_resource_def)

lemma run_requests_refines:
  assumes "positions_first rs seen" "rc_id ` set (wp_pending p) \<subseteq> seen" "distinct (map rc_id (wp_pending p))"
  shows "command_at (wp_pending (run_requests rs p))
           = fold (\<lambda>(i, req). place_step (\<lambda>obj. window_id_for_resource obj p) i req) rs
               (command_at (wp_pending p))
       \<and> distinct (map rc_id (wp_pending (run_requests rs p)))"
  using assms
proof (induction rs arbitrary: p seen)
  case (Cons r rs)
  obtain i req where r: "r = (i, req)" by (cases r)
  let ?p = "fst (handle_window_request i req p)"
  have pos: "is_position req \<Longrightarrow> i \<notin> rc_id ` set (wp_pending p)"
    using Cons.prems(1,2) by (auto simp: r)
  note ids = window_request_ids [OF pos Cons.prems(3)]
  have "rc_id ` set (wp_pending ?p) \<subseteq> insert i seen" using ids(2) Cons.prems(2) by blast
  with Cons.IH [of "insert i seen" ?p] ids(1) Cons.prems(1) pos
  show ?case
    by (simp add: r run_requests_def window_request_refines command_at_None window_id_for_resource_def)
qed (simp add: run_requests_def)



text \<open>
  A request that only restacks, shows or hides a window for which the phase has no command yet
  makes one that also moves the window to the origin; and a position sent after a hide is a second
  command that shows the window again.
\<close>
theorem restack_only_moves_to_origin:
  assumes "command_at (wp_pending p) i = None" "req \<in> {SetZTop, SetZBottom, Show, Hide}"
  shows "\<exists>c. command_at (wp_pending (fst (handle_window_request i req p))) i = Some c
             \<and> rc_position c = (0, 0)
       \<and> wp_pending (run_requests [(i, Hide), (i, SetPosition x y)] p) =
           wp_pending p @ [command_for i Preserve False,
             \<lparr> rc_id = i, rc_position = (x, y), rc_z_order = Preserve, rc_visible = True \<rparr>]"
proof -
  have new: "update_command i f n cs = cs @ [n]" if "command_at cs i = None" for f n cs
    using that by (induction cs) (auto split: if_splits)
  have "wp_pending (run_requests [(i, Hide), (i, SetPosition x y)] p) =
           wp_pending p @ [command_for i Preserve False,
             \<lparr> rc_id = i, rc_position = (x, y), rc_z_order = Preserve, rc_visible = True \<rparr>]"
    using assms(1) by (simp add: run_requests_def set_shown_def new)
  moreover have "\<exists>c. command_at (wp_pending (fst (handle_window_request i req p))) i = Some c \<and> rc_position c = (0, 0)"
    using assms by (auto simp: command_at_set_z command_at_set_shown command_for_def)
  ultimately show ?thesis by blast
qed

theorem restack_only_moves_to_origin_witness:
  "\<exists>c. command_at (wp_pending (fst (handle_window_request 7 SetZTop wm_proto_new))) 7 = Some c
       \<and> rc_position c = (0, 0)"
  using restack_only_moves_to_origin [of wm_proto_new 7 SetZTop] by (auto simp: wm_proto_new_def)

subsection \<open>Connecting, replacing, disconnecting\<close>

lemma send_full_window_list_simps:
  "wp_wm_client (fst (send_full_window_list m mk ws p)) = wp_wm_client p"
  "wp_keybindings (fst (send_full_window_list m mk ws p)) = wp_keybindings p"
  "wp_seat (fst (send_full_window_list m mk ws p)) = wp_seat p"
  "wp_active_mode (fst (send_full_window_list m mk ws p)) = wp_active_mode p"
  "wp_borders (fst (send_full_window_list m mk ws p)) = wp_borders p"
  "wp_workspace (fst (send_full_window_list m mk ws p)) = wp_workspace p"
  by (induction m mk ws p rule: send_full_window_list.induct) (simp_all add: split_beta split: option.split)

lemma send_full_window_list_objects:
  "hm_get (wp_window_objects (fst (send_full_window_list m mk ws p))) i
     = (if i \<in> fst ` set ws \<and> mk i \<noteq> None then mk i else hm_get (wp_window_objects p) i)"
  by (induction m mk ws p rule: send_full_window_list.induct) (auto simp: split_beta split: option.split)

lemma send_full_window_list_announces:
  "(i, t, a, w, h) \<in> set ws \<Longrightarrow> mk i = Some obj \<Longrightarrow>
     EvWindowNew m obj \<in> set (snd (send_full_window_list m mk ws p))"
  by (induction m mk ws p rule: send_full_window_list.induct)
     (auto simp: announce_window_def split_beta split: option.split)

text \<open>
  One window manager at a time.  When a new one binds, it becomes the manager, a previous one is
  told it was replaced and loses its window objects and borders, and every existing window whose
  resource can be made is announced to the new manager and is found by its new object only.
\<close>
theorem bind_replaces:
  assumes "bind_manager instance (Some mk) existing outputs p = (q, evs)"
    and "inj_on mk (fst ` set existing)" "\<forall>i \<in> fst ` set existing. mk i \<noteq> None"
  shows "wp_wm_client q = Some instance
       \<and> (\<forall>old. wp_wm_client p = Some old \<longrightarrow> hd evs = EvReplaced old \<and> wp_borders q = []
            \<and> hm_get (wp_window_objects q) i = (if i \<in> fst ` set existing then mk i else None))
       \<and> (\<forall>(name, w, h) \<in> set outputs. EvOutputNew instance name w h \<in> set evs)
       \<and> (\<forall>(j, t, a, w, h) \<in> set existing. \<exists>obj. mk j = Some obj \<and> EvWindowNew instance obj \<in> set evs)"
proof -
  define p2 where "p2 = (case wp_wm_client p of
      Some old \<Rightarrow> p\<lparr> wp_window_objects := [], wp_borders := [], wp_wm_client := Some instance \<rparr>
    | None \<Rightarrow> p\<lparr> wp_wm_client := Some instance \<rparr>)"
  have q: "q = fst (send_full_window_list instance mk existing p2)"
    and evs: "evs = (case wp_wm_client p of Some old \<Rightarrow> [EvReplaced old] | None \<Rightarrow> [])
        @ map (\<lambda>(name, w, h). EvOutputNew instance name w h) outputs
        @ snd (send_full_window_list instance mk existing p2)"
    using assms(1) by (auto simp: bind_manager_def p2_def Let_def split: option.splits prod.splits)
  have "\<exists>obj. mk j = Some obj \<and> EvWindowNew instance obj \<in> set evs" if "(j, t, a, w, h) \<in> set existing" for j t a w h
  proof -
    from that assms(3) have "mk j \<noteq> None" by force
    then obtain obj where obj: "mk j = Some obj" by blast
    have "EvWindowNew instance obj \<in> set (snd (send_full_window_list instance mk existing p2))"
      by (rule send_full_window_list_announces [where mk = mk, OF that obj])
    with obj show ?thesis by (auto simp: evs)
  qed
  moreover have "\<forall>(name, w, h) \<in> set outputs. EvOutputNew instance name w h \<in> set evs"
    by (force simp: evs)
  moreover have "wp_wm_client q = Some instance"
    by (simp add: q send_full_window_list_simps p2_def split: option.split)
  moreover have "hd evs = EvReplaced old \<and> wp_borders q = []
        \<and> hm_get (wp_window_objects q) i = (if i \<in> fst ` set existing then mk i else None)"
    if "wp_wm_client p = Some old" for old
    using that assms(3)
    by (auto simp: evs q send_full_window_list_simps send_full_window_list_objects p2_def)
  ultimately show ?thesis by blast
qed

theorem bind_replaces_witness:
  "let (q, evs) = bind_manager 2 (Some (\<lambda>i. Some (unat i + 10))) [(1, None, None, 800, 600)] []
        (wm_proto_new\<lparr> wp_wm_client := Some 1 \<rparr>)
   in wp_wm_client q = Some 2 \<and> hd evs = EvReplaced 1"
proof -
  let ?p = "wm_proto_new\<lparr> wp_wm_client := Some 1 \<rparr>"
  obtain q evs where b: "bind_manager 2 (Some (\<lambda>i. Some (unat i + 10))) [(1, None, None, 800, 600)] [] ?p = (q, evs)"
    by fastforce
  show ?thesis
    using bind_replaces [OF b, of 0] unfolding b by simp
qed

text \<open>
  A key is taken from the clients exactly when it is bound in the default mode or the active
  mode; the manager's seat, if any, hears of it.  Once the manager's object is destroyed no key is
  taken, no border is drawn and no window object is left: the built-in manager is back in charge.
\<close>
theorem key_bindings:
  "(fst (check_key_binding key mods pressed p) \<longleftrightarrow>
      (key, mods, []) \<in> wp_keybindings p \<or> (key, mods, wp_active_mode p) \<in> wp_keybindings p)
   \<and> snd (check_key_binding key mods pressed p) =
       (if fst (check_key_binding key mods pressed p)
        then (case wp_seat p of None \<Rightarrow> []
              | Some seat \<Rightarrow> [if pressed then EvBindingPressed seat key mods else EvBindingReleased seat key mods])
        else [])
   \<and> (wp_wm_client p = Some wm \<longrightarrow> q = manager_destroyed wm p \<longrightarrow>
       \<not> is_wm_connected q \<and> \<not> fst (check_key_binding key mods pressed q) \<and> wp_borders q = []
       \<and> wp_window_objects q = [] \<and> \<not> wp_manage_phase q \<and> \<not> wp_render_phase q)"
  by (auto simp: check_key_binding_def Let_def manager_destroyed_def is_wm_connected_def)

text \<open>
  Replacement is not a disconnection: the bindings of the replaced manager stay in force for its
  seat, and a seat of the new manager is not taken up while the old one is still recorded.  And
  when the replaced client later drops its window objects, the windows of the new manager are
  unregistered: sibling requests naming them are ignored from then on.
\<close>
theorem replaced_manager_lingers:
  assumes "wp_wm_client p = Some old" "wp_seat p = Some seat" "(key, mods, []) \<in> wp_keybindings p"
    and "bind_manager instance creator existing outputs p = (q, evs)"
    and "q' = handle_seat_request seat' (BindKey key' mods' []) q" and "old \<noteq> instance"
  shows "check_key_binding key mods True q' = (True, [EvBindingPressed seat key mods])
       \<and> wp_seat (manager_destroyed old q') = Some seat
       \<and> hm_get (wp_window_objects (window_destroyed i q')) i = None"
proof -
  define p2 where "p2 = p\<lparr> wp_window_objects := [], wp_borders := [], wp_wm_client := Some instance \<rparr>"
  have q: "q = (case creator of None \<Rightarrow> p2 | Some mk \<Rightarrow> fst (send_full_window_list instance mk existing p2))"
    using assms(1,4) by (auto simp: bind_manager_def p2_def Let_def split: option.splits prod.splits)
  then have "wp_seat q = Some seat" "(key, mods, []) \<in> wp_keybindings q" "wp_wm_client q = Some instance"
    using assms(2,3) by (simp_all add: p2_def send_full_window_list_simps split: option.split)
  then show ?thesis
    using assms(6) by (simp add: assms(5) handle_seat_request_def check_key_binding_def
        manager_destroyed_def window_destroyed_def)
qed

theorem replaced_manager_lingers_witness:
  "let p = wm_proto_new\<lparr> wp_wm_client := Some 3, wp_seat := Some 5, wp_keybindings := {(30, 64, [])} \<rparr>;
       q' = handle_seat_request 6 (BindKey 31 64 []) (fst (bind_manager 2 None [] [] p))
   in check_key_binding 30 64 True q' = (True, [EvBindingPressed 5 30 64])"
proof -
  let ?p = "wm_proto_new\<lparr> wp_wm_client := Some 3, wp_seat := Some 5, wp_keybindings := {(30, 64, [])} \<rparr>"
  obtain q evs where b: "bind_manager 2 None [] [] ?p = (q, evs)" by fastforce
  have "check_key_binding 30 64 True (handle_seat_request 6 (BindKey 31 64 []) q) = (True, [EvBindingPressed 5 30 64])"
    by (rule replaced_manager_lingers [OF _ _ _ b refl, of 3 5 30 64, THEN conjunct1])
       (simp_all add: numeral_eq_iff)
  then show ?thesis unfolding Let_def b by simp
qed

theorem key_bindings_witness:
  "\<not> fst (check_key_binding 30 64 True (manager_destroyed 3
      (wm_proto_new\<lparr> wp_wm_client := Some 3, wp_keybindings := {(30, 64, [])} \<rparr>)))"
  using key_bindings [of 30 64 True "wm_proto_new\<lparr> wp_wm_client := Some 3, wp_keybindings := {(30, 64, [])} \<rparr>" 3
      "manager_destroyed 3 (wm_proto_new\<lparr> wp_wm_client := Some 3, wp_keybindings := {(30, 64, [])} \<rparr>)"]
  by simp

end
