(* ===== verification/Compositor.thy ===== *)
theory Compositor
  imports Messages Floating WmProtocol
begin

text \<open>
  The compositor state (\<open>crates/wrsrvd/src/state.rs\<close>) and its handlers (\<open>handlers/wm_protocol.rs\<close>,
  \<open>handlers/xdg_shell.rs\<close>, \<open>handlers/input.rs\<close>): window ids, render commands applied to the space,
  network input injected into the seat, the clipboard.  The space is the one of the vendored
  smithay (\<open>desktop/space/mod.rs\<close>): elements bottom to top with their locations (every window has
  the same z index there, so its sort is the identity; the activation flag is not modelled).

  A smithay \<open>Window\<close> is a number.  What the seat and the toplevels are told is the list of
  \<open>seat_out\<close> events an operation returns.  The window under a point is the parameter \<open>hit\<close>.
\<close>

type_synonym win = nat
type_synonym space = "(win \<times> point) list"

subsection \<open>The space\<close>

fun space_remove :: "win \<Rightarrow> space \<Rightarrow> space" where
  "space_remove w [] = []"
| "space_remove w (e # es) = (if fst e = w then es else e # space_remove w es)"

definition map_element :: "win \<Rightarrow> point \<Rightarrow> space \<Rightarrow> space" where
  "map_element w pos sp = space_remove w sp @ [(w, pos)]"

definition raise_element :: "win \<Rightarrow> space \<Rightarrow> space" where
  "raise_element w sp =
     (case iter_find (\<lambda>e. fst e = w) sp of None \<Rightarrow> sp | Some e \<Rightarrow> space_remove w sp @ [e])"

definition unmap_elem :: "win \<Rightarrow> space \<Rightarrow> space" where
  "unmap_elem w sp = space_remove w sp"

subsection \<open>Modifiers\<close>

definition KEY_LEFTCTRL :: u32 where "KEY_LEFTCTRL = 29"
definition KEY_LEFTSHIFT :: u32 where "KEY_LEFTSHIFT = 42"
definition KEY_RIGHTSHIFT :: u32 where "KEY_RIGHTSHIFT = 54"
definition KEY_LEFTALT :: u32 where "KEY_LEFTALT = 56"
definition KEY_RIGHTCTRL :: u32 where "KEY_RIGHTCTRL = 97"
definition KEY_RIGHTALT :: u32 where "KEY_RIGHTALT = 100"
definition KEY_LEFTMETA :: u32 where "KEY_LEFTMETA = 125"
definition KEY_RIGHTMETA :: u32 where "KEY_RIGHTMETA = 126"

definition modifier_bit :: "u32 \<Rightarrow> u32 option" where
  "modifier_bit k =
     (if k = KEY_LEFTSHIFT \<or> k = KEY_RIGHTSHIFT then Some MOD_SHIFT
      else if k = KEY_LEFTCTRL \<or> k = KEY_RIGHTCTRL then Some MOD_CTRL
      else if k = KEY_LEFTALT \<or> k = KEY_RIGHTALT then Some MOD_ALT
      else if k = KEY_LEFTMETA \<or> k = KEY_RIGHTMETA then Some MOD_SUPER
      else None)"

definition modifier_on_key :: "u32 \<Rightarrow> bool \<Rightarrow> u32 list \<Rightarrow> u32 list" where
  "modifier_on_key k pressed held =
     (if modifier_bit k = None then held
      else if pressed then hs_insert k held else hs_remove k held)"

definition modifier_mask :: "u32 list \<Rightarrow> u32" where
  "modifier_mask held = fold (\<lambda>b mask. mask OR b) (List.map_filter modifier_bit held) 0"

subsection \<open>The compositor\<close>

record compositor =
  cp_space :: space
  cp_window_ids :: "(window_id \<times> win) list"
  cp_next_window_id :: u64
  cp_pressed_keys :: "u32 list"
  cp_modifiers :: "u32 list"
  cp_builtin :: floating_wm
  cp_protocol :: "wm_proto option"
  cp_output_name :: string
  cp_output_size :: "int \<times> int"
  cp_clipboard_tx :: bool
  cp_pending_selection :: "string list option"
  cp_remote_clipboard :: "(string \<times> bytes) option"
  cp_pointer :: "f64 \<times> f64"

datatype seat_out =
    SeatKey u32 bool
  | SeatFocus win
  | SeatMotion "f64 \<times> f64" "win option"
  | SeatButton u32 bool
  | SeatAxis axis "f64 option"
  | WinConfigure win "(int \<times> int) option"
  | WinFullscreen win bool
  | WinDecoration win decoration_mode
  | WinClose win
  | OfferSelection "string list"
  | RequestSelection string
  | ToWm wm_out

definition compositor_new :: "string \<Rightarrow> int \<times> int \<Rightarrow> compositor" where
  "compositor_new name sz =
     \<lparr> cp_space = [], cp_window_ids = [], cp_next_window_id = 1, cp_pressed_keys = [],
       cp_modifiers = [], cp_builtin = floating_new (fst sz) (snd sz), cp_protocol = Some wm_proto_new,
       cp_output_name = name, cp_output_size = sz, cp_clipboard_tx = False,
       cp_pending_selection = None, cp_remote_clipboard = None, cp_pointer = (0, 0) \<rparr>"

definition register_window :: "win \<Rightarrow> compositor \<Rightarrow> compositor \<times> window_id" where
  "register_window w c =
     (c\<lparr> cp_next_window_id := cp_next_window_id c + 1,
         cp_window_ids := cp_window_ids c @ [(cp_next_window_id c, w)] \<rparr>, cp_next_window_id c)"

definition window_id_for :: "win \<Rightarrow> compositor \<Rightarrow> window_id option" where
  "window_id_for w c = map_option fst (iter_find (\<lambda>p. snd p = w) (cp_window_ids c))"

definition window_for_id :: "window_id \<Rightarrow> compositor \<Rightarrow> win option" where
  "window_for_id i c = map_option snd (iter_find (\<lambda>p. fst p = i) (cp_window_ids c))"

definition unregister_window :: "win \<Rightarrow> compositor \<Rightarrow> compositor" where
  "unregister_window w c =
     (case window_id_for w c of
        None \<Rightarrow> c
      | Some i \<Rightarrow> c\<lparr> cp_builtin := on_close_toplevel i (cp_builtin c),
                     cp_window_ids := filter (\<lambda>p. snd p \<noteq> w) (cp_window_ids c) \<rparr>)"

subsection \<open>Render commands\<close>

definition place_command :: "compositor \<Rightarrow> render_command \<Rightarrow> space \<Rightarrow> space" where
  "place_command c cmd sp =
     (let visible = rc_visible cmd \<and>
            (case cp_protocol c of None \<Rightarrow> True | Some p \<Rightarrow> workspace_visible (rc_id cmd) (cp_output_name c) p)
      in case window_for_id (rc_id cmd) c of
           None \<Rightarrow> sp
         | Some w \<Rightarrow> if visible then map_element w (rc_position cmd) sp else unmap_elem w sp)"

text \<open>The ids of the windows in the space, bottom to top.\<close>

definition space_ids :: "compositor \<Rightarrow> space \<Rightarrow> window_id list" where
  "space_ids c sp = List.map_filter (\<lambda>e. window_id_for (fst e) c) sp"

definition raise_id :: "compositor \<Rightarrow> window_id \<Rightarrow> space \<Rightarrow> space" where
  "raise_id c i sp = (case window_for_id i c of None \<Rightarrow> sp | Some w \<Rightarrow> raise_element w sp)"

definition apply_render_commands :: "render_command list \<Rightarrow> compositor \<Rightarrow> compositor" where
  "apply_render_commands commands c =
     (let placed = fold (place_command c) commands (cp_space c) in
      if \<exists>cmd \<in> set commands. rc_z_order cmd \<noteq> Preserve
      then let current = space_ids c placed; desired = restack current commands in
           if desired \<noteq> current then c\<lparr> cp_space := fold (raise_id c) desired placed \<rparr>
           else c\<lparr> cp_space := placed \<rparr>
      else c\<lparr> cp_space := placed \<rparr>)"

definition apply_wm_render_commands :: "compositor \<Rightarrow> compositor" where
  "apply_wm_render_commands c =
     apply_render_commands (on_render (map fst (cp_window_ids c)) (cp_builtin c)) c"

text \<open>The WM part of \<open>render_headless_frame\<close>.\<close>

definition render_wm_phase :: "compositor \<Rightarrow> compositor \<times> seat_out list" where
  "render_wm_phase c =
     (case cp_protocol c of
        Some p \<Rightarrow>
          if is_wm_connected p
          then let (p1, evs) = start_render_phase p; (p2, commands) = take_render_commands p1 in
               (apply_render_commands commands (c\<lparr> cp_protocol := Some p2 \<rparr>), map ToWm evs)
          else (apply_wm_render_commands c, [])
      | None \<Rightarrow> (apply_wm_render_commands c, []))"

subsection \<open>Keyboard and pointer\<close>

definition release_all_keys :: "compositor \<Rightarrow> compositor \<times> seat_out list" where
  "release_all_keys c =
     (c\<lparr> cp_modifiers := [], cp_pressed_keys := [] \<rparr>,
      map (\<lambda>k. SeatKey (k + 8) False) (cp_pressed_keys c))"

text \<open>\<open>space.raise_element\<close> and \<open>keyboard.set_focus\<close>.\<close>

definition focus_on :: "win \<Rightarrow> compositor \<Rightarrow> compositor \<times> seat_out list" where
  "focus_on w c = (c\<lparr> cp_space := raise_element w (cp_space c) \<rparr>, [SeatFocus w])"

definition focused_window :: "compositor \<Rightarrow> win option" where
  "focused_window c = (case focused (cp_builtin c) of None \<Rightarrow> None | Some i \<Rightarrow> window_for_id i c)"

text \<open>What follows a key press the built-in manager consumed.\<close>

definition builtin_action :: "u32 \<Rightarrow> compositor \<Rightarrow> compositor \<times> seat_out list" where
  "builtin_action key c =
     (let close = (if key = KEY_F4
                   then (case focused_window c of None \<Rightarrow> [] | Some w \<Rightarrow> [WinClose w]) else []);
          (c1, focus) = (if key = KEY_TAB
                   then (case focused_window c of None \<Rightarrow> (c, []) | Some w \<Rightarrow> focus_on w c) else (c, []));
          snap = (if key \<in> {KEY_LEFT, KEY_RIGHT, KEY_UP, KEY_DOWN}
                  then (case focused (cp_builtin c) of
                          None \<Rightarrow> []
                        | Some i \<Rightarrow>
                            (case geometry_of i (cp_builtin c) of
                               None \<Rightarrow> []
                             | Some (_, sz) \<Rightarrow>
                                 (case window_for_id i c of None \<Rightarrow> [] | Some w \<Rightarrow> [WinConfigure w (Some sz)])))
                  else [])
      in (c1, close @ focus @ snap))"

definition inject_keyboard :: "keyboard_event \<Rightarrow> compositor \<Rightarrow> compositor \<times> seat_out list" where
  "inject_keyboard ev c =
     (let pressed = (ke_state ev = KeyPressed);
          key = ke_keycode ev;
          c1 = c\<lparr> cp_modifiers := modifier_on_key key pressed (cp_modifiers c) \<rparr>;
          modifiers = modifier_mask (cp_modifiers c1);
          (external, evs) = (case cp_protocol c1 of
                               None \<Rightarrow> (False, [])
                             | Some p \<Rightarrow> check_key_binding key modifiers pressed p)
      in if external then (c1, map ToWm evs)
         else let (wm, consumed) =
                    (if pressed then on_key_binding key modifiers (cp_builtin c1) else (cp_builtin c1, False));
                  c2 = c1\<lparr> cp_builtin := wm \<rparr>
              in if consumed then builtin_action key c2
                 else (c2\<lparr> cp_pressed_keys := (if pressed then hs_insert key (cp_pressed_keys c2)
                                               else hs_remove key (cp_pressed_keys c2)) \<rparr>,
                       [SeatKey (key + 8) pressed]))"

text \<open>\<open>element_under(pos)\<close> down to a focused window, on a button press.\<close>

definition click_focus ::
  "(space \<Rightarrow> f64 \<times> f64 \<Rightarrow> win option) \<Rightarrow> compositor \<Rightarrow> compositor \<times> seat_out list" where
  "click_focus hit c =
     (case hit (cp_space c) (cp_pointer c) of
        None \<Rightarrow> (c, [])
      | Some w \<Rightarrow>
          (case window_id_for w c of
             None \<Rightarrow> (c, [])
           | Some i \<Rightarrow>
               (let (wm, f) = on_pointer_focus i (cp_builtin c); c1 = c\<lparr> cp_builtin := wm \<rparr> in
                case f of
                  None \<Rightarrow> (c1, [])
                | Some fid \<Rightarrow> (case window_for_id fid c1 of None \<Rightarrow> (c1, []) | Some fw \<Rightarrow> focus_on fw c1))))"

fun inject_network_input ::
  "(space \<Rightarrow> f64 \<times> f64 \<Rightarrow> win option) \<Rightarrow> input_message \<Rightarrow> compositor \<Rightarrow> compositor \<times> seat_out list" where
  "inject_network_input hit (Keyboard ev) c = inject_keyboard ev c"
| "inject_network_input hit (PointerMotion ev) c =
     (let pos = (pm_x ev, pm_y ev) in
      (c\<lparr> cp_pointer := pos \<rparr>, [SeatMotion pos (hit (cp_space c) pos)]))"
| "inject_network_input hit (PointerButton ev) c =
     (let pressed = (pb_state ev = ButtonPressed);
          (c1, evs) = (if pressed then click_focus hit c else (c, []))
      in (c1, evs @ [SeatButton (pb_button ev) pressed]))"
| "inject_network_input hit (PointerAxis ev) c =
     (c, [SeatAxis (pa_axis ev) (if pa_value ev \<noteq> 0 then Some (pa_value ev) else None)])"

subsection \<open>The clipboard\<close>

definition new_selection :: "bool \<Rightarrow> string list option \<Rightarrow> compositor \<Rightarrow> compositor" where
  "new_selection is_clipboard source c =
     (if \<not> is_clipboard then c
      else case source of
             None \<Rightarrow> c\<lparr> cp_pending_selection := None \<rparr>
           | Some mimes \<Rightarrow> if \<not> cp_clipboard_tx c then c else c\<lparr> cp_pending_selection := Some mimes \<rparr>)"

text \<open>\<open>piped\<close> and \<open>requested\<close>: creating the pipe and requesting the contents succeed.\<close>

definition process_pending_clipboard ::
  "bool \<Rightarrow> bool \<Rightarrow> compositor \<Rightarrow> compositor \<times> (string \<times> string list) option" where
  "process_pending_clipboard piped requested c =
     (case cp_pending_selection c of
        None \<Rightarrow> (c, None)
      | Some mimes \<Rightarrow>
          (let c1 = c\<lparr> cp_pending_selection := None \<rparr> in
           if \<not> cp_clipboard_tx c then (c1, None)
           else case preferred_mime_type mimes of
                  None \<Rightarrow> (c1, None)
                | Some mime \<Rightarrow> if piped \<and> requested then (c1, Some (mime, mimes)) else (c1, None)))"

definition set_remote_clipboard :: "clipboard_data \<Rightarrow> compositor \<Rightarrow> compositor \<times> seat_out list" where
  "set_remote_clipboard clip c =
     (let (data, truncated) = cap_clipboard_payload (cd_data clip) (cd_mime_type clip) in
      (c\<lparr> cp_remote_clipboard := Some (cd_mime_type clip, data) \<rparr>,
       [OfferSelection (clipboard_offer_mimes (cd_mime_type clip))]))"

definition send_selection :: "compositor \<Rightarrow> bytes option" where
  "send_selection c = map_option snd (cp_remote_clipboard c)"

text \<open>The results of the reads of the selection pipe.\<close>

datatype pipe_read = ReadBytes bytes | ReadEof | ReadInterrupted | ReadFailed

fun read_selection :: "pipe_read list \<Rightarrow> bytes \<Rightarrow> bytes option" where
  "read_selection [] data = Some data"
| "read_selection (r # rs) data =
     (if MAX_CLIPBOARD_DATA < length data then Some data
      else case r of
             ReadEof \<Rightarrow> Some data
           | ReadBytes bs \<Rightarrow> if bs = [] then Some data else read_selection rs (data @ bs)
           | ReadInterrupted \<Rightarrow> read_selection rs data
           | ReadFailed \<Rightarrow> None)"

definition read_selection_and_forward ::
  "pipe_read list \<Rightarrow> string \<Rightarrow> string list \<Rightarrow> control_message list" where
  "read_selection_and_forward reads mime offered =
     (case read_selection reads [] of
        None \<Rightarrow> []
      | Some data \<Rightarrow>
          if data = [] then []
          else let (capped, truncated) = cap_clipboard_payload data mime in
               [ClipboardOffer \<lparr> co_mime_types = offered \<rparr>,
                ClipboardData \<lparr> cd_mime_type = mime, cd_data = capped \<rparr>])"

subsection \<open>Toplevels and the actions of the external window manager\<close>

definition on_protocol :: "(wm_proto \<Rightarrow> wm_proto \<times> wm_out list) \<Rightarrow> compositor \<Rightarrow> compositor \<times> seat_out list" where
  "on_protocol f c =
     (case cp_protocol c of
        None \<Rightarrow> (c, [])
      | Some p \<Rightarrow>
          if is_wm_connected p
          then let (p', evs) = f p in (c\<lparr> cp_protocol := Some p' \<rparr>, map ToWm evs)
          else (c, []))"

definition new_toplevel :: "creator \<Rightarrow> win \<Rightarrow> compositor \<Rightarrow> compositor \<times> seat_out list" where
  "new_toplevel creator w c =
     (let info = \<lparr> wi_title = None, wi_app_id = None, wi_output_width = fst (cp_output_size c),
                   wi_output_height = snd (cp_output_size c), wi_min_size = None, wi_max_size = None \<rparr>;
          (c1, i) = register_window w c;
          (wm, response) = on_new_toplevel i info (cp_builtin c1);
          c2 = c1\<lparr> cp_builtin := wm, cp_space := map_element w (mr_position response) (cp_space c1) \<rparr>;
          focus = (if mr_focus response then [SeatFocus w] else []);
          (c3, evs) = on_protocol (\<lambda>p.
             let (p1, e1) = notify_new_window creator (i, None, None, fst (mr_size response), snd (mr_size response)) p;
                 (p2, e2) = start_manage_phase p1 in (p2, e1 @ e2)) c2
      in (c3, WinConfigure w (Some (mr_size response)) # focus @ evs))"

definition toplevel_destroyed :: "win \<Rightarrow> compositor \<Rightarrow> compositor \<times> seat_out list" where
  "toplevel_destroyed w c =
     (case position (\<lambda>p. snd p = w) (cp_window_ids c) of
        None \<Rightarrow> (c, [])
      | Some pos \<Rightarrow>
          (let i = fst (cp_window_ids c ! pos);
               c1 = c\<lparr> cp_window_ids := remove_at pos (cp_window_ids c),
                       cp_builtin := on_close_toplevel i (cp_builtin c),
                       cp_space := unmap_elem w (cp_space c) \<rparr>
           in on_protocol (notify_window_closed i) c1))"

text \<open>\<open>size_of\<close>: the size a toplevel has acknowledged, if any.\<close>

definition existing_windows :: "(win \<Rightarrow> (int \<times> int) option) \<Rightarrow> compositor \<Rightarrow> window_snapshot list" where
  "existing_windows size_of c =
     List.map_filter (\<lambda>(i, w). map_option (\<lambda>(sw, sh). (i, None, None, sw, sh)) (size_of w)) (cp_window_ids c)"

definition outputs :: "compositor \<Rightarrow> (string \<times> int \<times> int) list" where
  "outputs c = [(cp_output_name c, fst (cp_output_size c), snd (cp_output_size c))]"

fun perform_action :: "compositor_action \<Rightarrow> compositor \<Rightarrow> compositor \<times> seat_out list" where
  "perform_action (ConfigureWindow i w h) c =
     (case window_for_id i c of None \<Rightarrow> (c, []) | Some win \<Rightarrow> (c, [WinConfigure win (Some (w, h))]))"
| "perform_action (FocusWindow i) c =
     (case window_for_id i c of None \<Rightarrow> (c, []) | Some win \<Rightarrow> focus_on win c)"
| "perform_action (CloseWindow i) c =
     (case window_for_id i c of None \<Rightarrow> (c, []) | Some win \<Rightarrow> (c, [WinClose win]))"
| "perform_action (SetFullscreen i granted) c =
     (case window_for_id i c of None \<Rightarrow> (c, []) | Some win \<Rightarrow> (c, [WinFullscreen win granted]))"
| "perform_action (SetDecoration i mode) c =
     (case window_for_id i c of None \<Rightarrow> (c, []) | Some win \<Rightarrow> (c, [WinDecoration win mode]))"

subsection \<open>The compositor invariant\<close>

text \<open>
  \<open>compositor_ok\<close>: window ids and windows are in one-to-one correspondence, ids were handed out
  below \<open>next_window_id\<close>, the space holds each window at most once and registered windows only,
  and the built-in manager manages exactly the registered ids.
\<close>

definition compositor_ok :: "compositor \<Rightarrow> bool" where
  "compositor_ok c \<longleftrightarrow>
     distinct (map fst (cp_window_ids c)) \<and> distinct (map snd (cp_window_ids c))
     \<and> distinct (map fst (cp_space c)) \<and> fst ` set (cp_space c) \<subseteq> snd ` set (cp_window_ids c)
     \<and> fw_managed (cp_builtin c) = fst ` set (cp_window_ids c) \<and> floating_ok (cp_builtin c)
     \<and> (\<forall>i \<in> fst ` set (cp_window_ids c). i < cp_next_window_id c)"

lemma registered:
  assumes "compositor_ok c" "(i, w) \<in> set (cp_window_ids c)"
  shows "window_id_for w c = Some i" "window_for_id i c = Some w"
proof -
  have "iter_find (\<lambda>p. snd p = w) (cp_window_ids c) = Some (i, w)"
    "iter_find (\<lambda>p. fst p = i) (cp_window_ids c) = Some (i, w)"
    using assms by (auto simp: compositor_ok_def intro: find_unique)
  then show "window_id_for w c = Some i" "window_for_id i c = Some w"
    by (simp_all add: window_id_for_def window_for_id_def)
qed

lemma window_for_id_in: "window_for_id i c = Some w \<Longrightarrow> (i, w) \<in> set (cp_window_ids c)"
  by (auto simp: window_for_id_def dest: find_in)

lemma window_id_for_in: "window_id_for w c = Some i \<Longrightarrow> (i, w) \<in> set (cp_window_ids c)"
  by (auto simp: window_id_for_def dest: find_in)

lemma window_ids_inverse:
  "compositor_ok c \<Longrightarrow> window_id_for w c = Some i \<longleftrightarrow> window_for_id i c = Some w"
  using registered window_for_id_in window_id_for_in by metis

subsection \<open>The stack of the space\<close>

abbreviation space_wins :: "space \<Rightarrow> win list" where
  "space_wins sp \<equiv> map fst sp"

lemma space_remove_filter: "distinct (space_wins sp) \<Longrightarrow> space_remove w sp = filter (\<lambda>e. fst e \<noteq> w) sp"
proof (induction sp)
  case (Cons e sp)
  have "filter (\<lambda>e. fst e \<noteq> w) sp = sp" if "fst e = w"
  proof (rule filter_True, rule ballI)
    fix x assume "x \<in> set sp"
    then have "fst x \<in> fst ` set sp" by (rule imageI)
    moreover have "fst e \<notin> fst ` set sp" using Cons.prems by simp
    ultimately show "fst x \<noteq> w" using that by metis
  qed
  with Cons show ?case by auto
qed simp

lemma space_remove_wins: "distinct (space_wins sp) \<Longrightarrow> space_wins (space_remove w sp) = filter (\<lambda>v. v \<noteq> w) (space_wins sp)"
  by (simp add: space_remove_filter filter_map o_def)

lemma map_of_filter_key: "map_of (filter (\<lambda>e. fst e \<noteq> w) sp) v = (if v = w then None else map_of sp v)"
  by (induction sp) auto

lemma map_element_simps:
  assumes "distinct (space_wins sp)"
  shows "space_wins (map_element w pos sp) = filter (\<lambda>v. v \<noteq> w) (space_wins sp) @ [w]"
    and "distinct (space_wins (map_element w pos sp))"
    and "map_of (map_element w pos sp) = (map_of sp)(w \<mapsto> pos)"
proof -
  show wins: "space_wins (map_element w pos sp) = filter (\<lambda>v. v \<noteq> w) (space_wins sp) @ [w]"
    using space_remove_wins [OF assms] by (simp add: map_element_def)
  show "distinct (space_wins (map_element w pos sp))" unfolding wins using assms by simp
  show "map_of (map_element w pos sp) = (map_of sp)(w \<mapsto> pos)"
    using assms by (auto simp: map_element_def space_remove_filter map_add_def map_of_filter_key fun_eq_iff
        split: option.split)
qed

lemma unmap_elem_simps:
  assumes "distinct (space_wins sp)"
  shows "space_wins (unmap_elem w sp) = filter (\<lambda>v. v \<noteq> w) (space_wins sp)"
    and "distinct (space_wins (unmap_elem w sp))"
    and "map_of (unmap_elem w sp) = (map_of sp)(w := None)"
proof -
  show wins: "space_wins (unmap_elem w sp) = filter (\<lambda>v. v \<noteq> w) (space_wins sp)"
    using space_remove_wins [OF assms] by (simp add: unmap_elem_def)
  show "distinct (space_wins (unmap_elem w sp))" unfolding wins using assms by simp
  show "map_of (unmap_elem w sp) = (map_of sp)(w := None)"
    using assms by (auto simp: unmap_elem_def space_remove_filter map_of_filter_key fun_eq_iff)
qed

lemma raise_element_simps:
  assumes "distinct (space_wins sp)" "w \<in> set (space_wins sp)"
  shows "space_wins (raise_element w sp) = filter (\<lambda>v. v \<noteq> w) (space_wins sp) @ [w]"
    and "distinct (space_wins (raise_element w sp))"
    and "map_of (raise_element w sp) = map_of sp"
proof -
  obtain pos where pos: "(w, pos) \<in> set sp" using assms(2) by auto
  have find: "iter_find (\<lambda>e. fst e = w) sp = Some (w, pos)" by (rule find_unique [OF assms(1) pos]) simp
  then have eq: "raise_element w sp = map_element w pos sp"
    by (simp add: raise_element_def map_element_def)
  show "space_wins (raise_element w sp) = filter (\<lambda>v. v \<noteq> w) (space_wins sp) @ [w]"
    "distinct (space_wins (raise_element w sp))"
    unfolding eq by (rule map_element_simps [OF assms(1)])+
  show "map_of (raise_element w sp) = map_of sp"
    unfolding eq map_element_simps(3) [OF assms(1)] using assms(1) pos
    by (auto simp: fun_eq_iff hm_get_in)
qed

lemma raise_all:
  assumes "distinct (space_wins sp)" "distinct ws" "set ws \<subseteq> set (space_wins sp)"
  shows "space_wins (fold raise_element ws sp) = filter (\<lambda>v. v \<notin> set ws) (space_wins sp) @ ws
       \<and> distinct (space_wins (fold raise_element ws sp))
       \<and> map_of (fold raise_element ws sp) = map_of sp"
  using assms(2,3)
proof (induction ws rule: rev_induct)
  case (snoc w ws)
  let ?s = "fold raise_element ws sp"
  have IH: "space_wins ?s = filter (\<lambda>v. v \<notin> set ws) (space_wins sp) @ ws" "distinct (space_wins ?s)"
    "map_of ?s = map_of sp" and w: "w \<notin> set ws" "w \<in> set (space_wins sp)"
    using snoc by auto
  have "w \<in> set (space_wins ?s)" using w unfolding IH(1) by simp
  note raised = raise_element_simps [OF IH(2) this]
  have ws: "filter (\<lambda>v. v \<noteq> w) ws = ws" using w(1) by (auto intro: filter_True)
  have "space_wins (raise_element w ?s) = filter (\<lambda>v. v \<notin> set (ws @ [w])) (space_wins sp) @ ws @ [w]"
    unfolding raised(1) IH(1) by (simp add: ws) (metis (mono_tags, lifting))
  with raised(2,3) IH(3) show ?case by simp
qed (simp add: assms(1))

definition placed_ok :: "compositor \<Rightarrow> space \<Rightarrow> bool" where
  "placed_ok c sp \<longleftrightarrow> distinct (space_wins sp) \<and> set (space_wins sp) \<subseteq> snd ` set (cp_window_ids c)"

lemma place_command_ok: "placed_ok c sp \<Longrightarrow> placed_ok c (place_command c cmd sp)"
proof (cases "window_for_id (rc_id cmd) c")
  case (Some w)
  assume ok: "placed_ok c sp"
  then have d: "distinct (space_wins sp)" by (simp add: placed_ok_def)
  have "w \<in> snd ` set (cp_window_ids c)" using window_for_id_in [OF Some] by force
  with ok show ?thesis
    unfolding place_command_def Some option.case Let_def placed_ok_def
    using map_element_simps(1,2) [OF d] unmap_elem_simps(1,2) [OF d] by (auto simp del: map_map set_map)
qed (simp add: place_command_def)

lemma placed_all: "placed_ok c sp \<Longrightarrow> placed_ok c (fold (place_command c) cmds sp)"
  by (induction cmds arbitrary: sp) (simp_all add: place_command_ok)

lemma compositor_placed: "compositor_ok c \<Longrightarrow> placed_ok c (cp_space c)"
  by (simp add: compositor_ok_def placed_ok_def)

lemma compositor_ok_space: "compositor_ok c \<Longrightarrow> placed_ok c sp \<Longrightarrow> compositor_ok (c\<lparr> cp_space := sp \<rparr>)"
  by (simp add: compositor_ok_def placed_ok_def)

definition id_of :: "compositor \<Rightarrow> win \<Rightarrow> window_id" where
  "id_of c w = the (window_id_for w c)"

lemma space_ids_eq:
  assumes "compositor_ok c" "set (space_wins sp) \<subseteq> snd ` set (cp_window_ids c)"
  shows "space_ids c sp = map (id_of c) (space_wins sp)"
proof -
  have "window_id_for w c = Some (id_of c w)" if "w \<in> set (space_wins sp)" for w
    using that assms registered(1) [OF assms(1)] by (force simp: id_of_def)
  then show ?thesis by (induction sp) (simp_all add: space_ids_def List.map_filter_simps)
qed

lemma id_of_inj: "compositor_ok c \<Longrightarrow> inj_on (id_of c) (snd ` set (cp_window_ids c))"
  by (rule inj_onI) (auto simp: id_of_def registered, metis option.inject registered(2))

text \<open>Raising by id is raising the window of that id.\<close>

lemma raise_ids:
  assumes "compositor_ok c" "set ids \<subseteq> fst ` set (cp_window_ids c)"
  shows "fold (raise_id c) ids sp = fold raise_element (map (\<lambda>i. the (window_for_id i c)) ids) sp"
  using assms(2)
proof (induction ids arbitrary: sp)
  case (Cons i ids)
  then obtain w where "(i, w) \<in> set (cp_window_ids c)" by auto
  then have "window_for_id i c = Some w" by (rule registered [OF assms(1)])
  with Cons show ?case by (simp add: raise_id_def)
qed simp

lemma win_of_id_of:
  "compositor_ok c \<Longrightarrow> w \<in> snd ` set (cp_window_ids c) \<Longrightarrow> the (window_for_id (id_of c w) c) = w"
  by (auto simp: id_of_def registered)

lemma desired_wins:
  assumes "compositor_ok c" "placed_ok c sp" "set ids = set (space_ids c sp)" "distinct ids"
    and sp'_def: "sp' = fold (raise_id c) ids sp"
  shows "space_ids c sp' = ids \<and> map_of sp' = map_of sp \<and> placed_ok c sp'"
proof -
  let ?ws = "map (\<lambda>i. the (window_for_id i c)) ids"
  have sub: "set (space_wins sp) \<subseteq> snd ` set (cp_window_ids c)" and d: "distinct (space_wins sp)"
    using assms(2) by (simp_all add: placed_ok_def)
  have ids: "set ids = id_of c ` set (space_wins sp)"
    unfolding assms(3) space_ids_eq [OF assms(1) sub] by (rule set_map)
  have win_back: "the (window_for_id (id_of c w) c) = w" if "w \<in> set (space_wins sp)" for w
    using that sub win_of_id_of [OF assms(1)] by blast
  have set_ws: "set ?ws = set (space_wins sp)"
  proof -
    have "(\<lambda>w. the (window_for_id (id_of c w) c)) ` set (space_wins sp) = (\<lambda>w. w) ` set (space_wins sp)"
      by (rule image_cong [OF refl]) (rule win_back)
    then show ?thesis unfolding set_map [of "\<lambda>i. the (window_for_id i c)"] ids image_image by simp
  qed
  have inj: "inj_on (\<lambda>i. the (window_for_id i c)) (set ids)"
    unfolding ids by (rule inj_onI) (auto simp: win_back simp del: set_map)
  have d_ws: "distinct ?ws" using assms(4) inj by (simp add: distinct_map)
  have reg: "set ids \<subseteq> fst ` set (cp_window_ids c)"
  proof
    fix i assume "i \<in> set ids"
    then obtain w where w: "w \<in> set (space_wins sp)" "i = id_of c w" unfolding ids by blast
    with sub obtain j where "(j, w) \<in> set (cp_window_ids c)" by force
    with w(2) registered(1) [OF assms(1) this] show "i \<in> fst ` set (cp_window_ids c)"
      by (force simp: id_of_def)
  qed
  have "sp' = fold raise_element ?ws sp" unfolding sp'_def by (rule raise_ids [OF assms(1) reg])
  with raise_all [OF d d_ws] set_ws
  have wins: "space_wins sp' = ?ws" and locs: "map_of sp' = map_of sp" by simp_all
  have sp': "space_wins sp' = ?ws" "distinct (space_wins sp')" "map_of sp' = map_of sp"
    by (rule wins, unfold wins, rule d_ws, rule locs)
  have sub': "set (space_wins sp') \<subseteq> snd ` set (cp_window_ids c)" unfolding sp'(1) set_ws by (rule sub)
  have "space_ids c sp' = map (id_of c) ?ws"
    using space_ids_eq [OF assms(1) sub'] unfolding sp'(1) .
  moreover have "map (id_of c) ?ws = ids"
  proof -
    have "id_of c (the (window_for_id i c)) = i" if "i \<in> set ids" for i
    proof -
      from that obtain w where w: "w \<in> set (space_wins sp)" "i = id_of c w" unfolding ids by blast
      show ?thesis unfolding w(2) win_back [OF w(1)] ..
    qed
    then show ?thesis by (simp add: map_idI)
  qed
  ultimately have "space_ids c sp' = ids" by (rule trans)
  then show ?thesis using sp'(2,3) sub' unfolding placed_ok_def by blast
qed

lemma restack_preserve: "(\<forall>cmd \<in> set cmds. rc_z_order cmd = Preserve) \<Longrightarrow> restack stack cmds = stack"
  unfolding restack_def
  by (induction cmds arbitrary: stack) (auto simp: restack_one_def split: option.split)

lemma apply_render_commands_facts:
  assumes "compositor_ok c"
    and placed_def: "placed = fold (place_command c) cmds (cp_space c)"
    and c'_def: "c' = apply_render_commands cmds c"
  shows "space_ids c (cp_space c') = restack (space_ids c placed) cmds
       \<and> map_of (cp_space c') = map_of placed \<and> placed_ok c (cp_space c')
       \<and> c' = c\<lparr> cp_space := cp_space c' \<rparr>"
proof -
  have ok: "placed_ok c placed" unfolding placed_def by (rule placed_all [OF compositor_placed [OF assms(1)]])
  then have sub: "set (space_wins placed) \<subseteq> snd ` set (cp_window_ids c)" and "distinct (space_wins placed)"
    by (simp_all add: placed_ok_def)
  then have d: "distinct (space_ids c placed)"
    using inj_on_subset [OF id_of_inj [OF assms(1)] sub]
    unfolding space_ids_eq [OF assms(1) sub] distinct_map [of "id_of c" "space_wins placed"] by blast
  show ?thesis
  proof (cases "\<exists>cmd \<in> set cmds. rc_z_order cmd \<noteq> Preserve")
    case False
    then have "c' = c\<lparr> cp_space := placed \<rparr>" by (simp add: c'_def apply_render_commands_def placed_def)
    with False ok show ?thesis by (simp add: restack_preserve)
  next
    case True
    note perm = restack_perm [OF d, of cmds "\<lambda>_. True"]
    have "space_ids c (fold (raise_id c) (restack (space_ids c placed) cmds) placed) = restack (space_ids c placed) cmds
        \<and> map_of (fold (raise_id c) (restack (space_ids c placed) cmds) placed) = map_of placed
        \<and> placed_ok c (fold (raise_id c) (restack (space_ids c placed) cmds) placed)"
      using perm by (intro desired_wins [OF assms(1) ok _ _ refl]) auto
    then show ?thesis
      using True ok by (simp add: c'_def apply_render_commands_def Let_def flip: placed_def)
  qed
qed

text \<open>
  C17.  Applying the window manager's commands.  After the position and visibility pass, the space is
  raised into exactly the stacking order the z directives ask for (\<open>restack\<close> of the order that
  pass left), no window moves or appears or vanishes in the second pass, and nothing but the space
  changes.
\<close>
theorem apply_render_commands_order:
  assumes "compositor_ok c" "placed = fold (place_command c) cmds (cp_space c)"
  shows "space_ids c (cp_space (apply_render_commands cmds c)) = restack (space_ids c placed) cmds
       \<and> map_of (cp_space (apply_render_commands cmds c)) = map_of placed
       \<and> apply_render_commands cmds c = c\<lparr> cp_space := cp_space (apply_render_commands cmds c) \<rparr>
       \<and> compositor_ok (apply_render_commands cmds c)"
proof -
  note facts = apply_render_commands_facts [OF assms(1) refl refl, of cmds]
  then have "compositor_ok (c\<lparr> cp_space := cp_space (apply_render_commands cmds c) \<rparr>)"
    by (intro compositor_ok_space [OF assms(1)]) blast
  moreover have eq: "apply_render_commands cmds c = c\<lparr> cp_space := cp_space (apply_render_commands cmds c) \<rparr>"
    using facts by blast
  ultimately have "compositor_ok (apply_render_commands cmds c)" by (simp only: eq [symmetric])
  with facts show ?thesis unfolding assms(2) by blast
qed

text \<open>Every frame maps the windows again, which puts each on top of the ones before it.\<close>

lemma place_all_order:
  assumes "placed_ok c sp" "distinct (map rc_id cmds)" "inj_on (\<lambda>i. window_for_id i c) (rc_id ` set cmds)"
    and "\<And>cmd. cmd \<in> set cmds \<Longrightarrow> \<exists>w. window_for_id (rc_id cmd) c = Some w"
    and "\<And>cmd. cmd \<in> set cmds \<Longrightarrow> rc_visible cmd \<and>
          (case cp_protocol c of None \<Rightarrow> True | Some p \<Rightarrow> workspace_visible (rc_id cmd) (cp_output_name c) p)"
    and ws_def: "ws = map (\<lambda>cmd. the (window_for_id (rc_id cmd) c)) cmds"
  shows "space_wins (fold (place_command c) cmds sp) = filter (\<lambda>w. w \<notin> set ws) (space_wins sp) @ ws"
  using assms(1-5) unfolding ws_def
proof (induction cmds rule: rev_induct)
  case (snoc cmd cmds)
  let ?win = "\<lambda>cmd. the (window_for_id (rc_id cmd) c)"
  let ?s = "fold (place_command c) cmds sp"
  have IH: "space_wins ?s = filter (\<lambda>w. w \<notin> set (map ?win cmds)) (space_wins sp) @ map ?win cmds"
  proof (rule snoc.IH)
    show "inj_on (\<lambda>i. window_for_id i c) (rc_id ` set cmds)" using snoc.prems(3) by (rule inj_on_subset) auto
    show "distinct (map rc_id cmds)" using snoc.prems(2) by simp
  qed (use snoc.prems in simp_all)
  have d: "distinct (space_wins ?s)" using placed_all [OF snoc.prems(1)] by (simp add: placed_ok_def)
  have step: "place_command c cmd ?s = map_element (?win cmd) (rc_position cmd) ?s"
    using snoc.prems(4,5) [of cmd] by (auto simp: place_command_def)
  have other: "?win e \<noteq> ?win cmd" if e: "e \<in> set cmds" for e
  proof
    assume eq: "?win e = ?win cmd"
    obtain v w where v: "window_for_id (rc_id e) c = Some v" "window_for_id (rc_id cmd) c = Some w"
      using snoc.prems(4) [of e] snoc.prems(4) [of cmd] e by auto
    with eq have "window_for_id (rc_id e) c = window_for_id (rc_id cmd) c" by simp
    then have "rc_id e = rc_id cmd" by (rule inj_onD [OF snoc.prems(3)]) (use e in simp_all)
    moreover have "rc_id cmd \<notin> rc_id ` set cmds" using snoc.prems(2) by simp
    ultimately show False using e by (metis imageI)
  qed
  have "filter (\<lambda>v. v \<noteq> ?win cmd) (map ?win cmds) = map ?win cmds"
    using other by (auto intro: filter_True)
  then show ?case
    unfolding fold_append o_apply fold_simps step map_element_simps(1) [OF d] IH
    by (simp add: conj_comms)
qed simp

definition two_windows :: compositor where
  "two_windows = fst (new_toplevel None 8 (fst (new_toplevel None 7 (compositor_new ''wayray-0'' (1024, 768)))))"

lemma on_protocol_simps [simp]:
  "cp_window_ids (fst (on_protocol f x)) = cp_window_ids x"
  "cp_space (fst (on_protocol f x)) = cp_space x" "cp_builtin (fst (on_protocol f x)) = cp_builtin x"
  "cp_next_window_id (fst (on_protocol f x)) = cp_next_window_id x"
  by (simp_all add: on_protocol_def split: option.split prod.split)

definition toplevel_info :: "compositor \<Rightarrow> window_info" where
  "toplevel_info c = \<lparr> wi_title = None, wi_app_id = None, wi_output_width = fst (cp_output_size c),
     wi_output_height = snd (cp_output_size c), wi_min_size = None, wi_max_size = None \<rparr>"

lemma new_toplevel_ids [simp]:
  "cp_window_ids (fst (new_toplevel creator w c)) = cp_window_ids c @ [(cp_next_window_id c, w)]"
  "cp_next_window_id (fst (new_toplevel creator w c)) = cp_next_window_id c + 1"
  "cp_builtin (fst (new_toplevel creator w c))
     = fst (on_new_toplevel (cp_next_window_id c) (toplevel_info c) (cp_builtin c))"
  "cp_space (fst (new_toplevel creator w c)) = map_element w
     (mr_position (snd (on_new_toplevel (cp_next_window_id c) (toplevel_info c) (cp_builtin c)))) (cp_space c)"
  by (simp_all add: new_toplevel_def register_window_def Let_def split_beta toplevel_info_def)

lemma register_ok:
  assumes ok: "compositor_ok c" and w: "w \<notin> snd ` set (cp_window_ids c)" and "cp_next_window_id c \<noteq> - 1"
  shows "compositor_ok (fst (new_toplevel creator w c))"
proof -
  let ?i = "cp_next_window_id c"
  have fresh: "?i \<notin> fst ` set (cp_window_ids c)" using ok by (auto simp: compositor_ok_def)
  have bound: "j < ?i + 1" if "j \<in> insert ?i (fst ` set (cp_window_ids c))" for j
  proof -
    have "j \<le> ?i" using that ok by (auto simp: compositor_ok_def less_imp_le)
    moreover have "unat (?i + 1) = unat ?i + 1"
      using assms(3) by (metis Suc_eq_plus1 add.commute add_eq_0_iff2 unatSuc)
    ultimately show ?thesis by (simp add: word_less_nat_alt word_le_nat_alt)
  qed
  have d: "distinct (space_wins (cp_space c))" using ok by (simp add: compositor_ok_def)
  have wm: "floating_ok (cp_builtin c)" "fw_managed (cp_builtin c) = fst ` set (cp_window_ids c)"
    using ok by (simp_all add: compositor_ok_def)
  have "floating_ok (fst (on_new_toplevel ?i (toplevel_info c) (cp_builtin c)))"
    by (rule floating.new_inv [OF wm(1)]) (simp only: wm(2) fresh not_False_eq_True)
  moreover have "fw_managed (fst (on_new_toplevel ?i (toplevel_info c) (cp_builtin c)))
      = insert ?i (fst ` set (cp_window_ids c))"
    using floating.new_managed [OF wm(1), of ?i "toplevel_info c"] by (simp only: wm(2))
  moreover have "set (space_wins (map_element w pos (cp_space c))) \<subseteq> insert w (snd ` set (cp_window_ids c))" for pos
    unfolding map_element_simps(1) [OF d] using ok by (auto simp: compositor_ok_def)
  moreover have "distinct (space_wins (map_element w pos (cp_space c)))" for pos
    by (rule map_element_simps(2) [OF d])
  moreover have "distinct (map fst (cp_window_ids c))" "distinct (map snd (cp_window_ids c))"
    using ok by (simp_all add: compositor_ok_def)
  ultimately show ?thesis
    unfolding compositor_ok_def new_toplevel_ids using w fresh bound by (simp add: insert_commute)
qed

lemma compositor_new_ok: "compositor_ok (compositor_new name sz)"
  by (simp add: compositor_ok_def compositor_new_def floating_new_ok)

lemma two_windows_ok: "compositor_ok two_windows" "map snd (cp_window_ids two_windows) = [7, 8]"
proof -
  let ?c1 = "fst (new_toplevel None 7 (compositor_new ''wayray-0'' (1024, 768)))"
  have c0: "cp_window_ids (compositor_new ''wayray-0'' (1024, 768)) = []"
    "cp_next_window_id (compositor_new ''wayray-0'' (1024, 768)) = 1" by (simp_all add: compositor_new_def)
  have "compositor_ok ?c1"
    by (rule register_ok [OF compositor_new_ok]) (simp_all add: c0)
  then show "compositor_ok two_windows"
    unfolding two_windows_def by (rule register_ok) (simp_all add: c0)
  show "map snd (cp_window_ids two_windows) = [7, 8]" by (simp add: two_windows_def c0)
qed

theorem apply_render_commands_order_witness:
  "compositor_ok (apply_render_commands
     [\<lparr> rc_id = 1, rc_position = (5, 5), rc_z_order = Top, rc_visible = True \<rparr>] two_windows)"
  using apply_render_commands_order [OF two_windows_ok(1) refl,
      of "[\<lparr> rc_id = 1, rc_position = (5, 5), rc_z_order = Top, rc_visible = True \<rparr>]"]
  by blast

text \<open>The built-in manager hides no window, and no window is kept off the output.\<close>

definition all_shown :: "compositor \<Rightarrow> bool" where
  "all_shown c \<longleftrightarrow> (\<forall>i \<in> fst ` set (cp_window_ids c).
     (\<forall>st. hm_get (fw_windows (cp_builtin c)) i = Some st \<longrightarrow> fs_visible st)
     \<and> (case cp_protocol c of None \<Rightarrow> True | Some p \<Rightarrow> workspace_visible i (cp_output_name c) p))"

lemma frame_order:
  assumes ok: "compositor_ok c" and shown: "all_shown c"
  shows "space_wins (cp_space (apply_wm_render_commands c)) = map snd (cp_window_ids c)"
proof -
  define cmds where "cmds = on_render (map fst (cp_window_ids c)) (cp_builtin c)"
  have ids: "map rc_id cmds = map fst (cp_window_ids c)"
    unfolding cmds_def map_filter_ids
    using ok by (intro filter_True) (auto simp: compositor_ok_def)
  have win: "map (\<lambda>cmd. the (window_for_id (rc_id cmd) c)) cmds = map snd (cp_window_ids c)"
  proof -
    have "map (\<lambda>cmd. the (window_for_id (rc_id cmd) c)) cmds = map (\<lambda>i. the (window_for_id i c)) (map rc_id cmds)"
      by simp
    also have "\<dots> = map (\<lambda>p. the (window_for_id (fst p) c)) (cp_window_ids c)" unfolding ids by simp
    also have "\<dots> = map snd (cp_window_ids c)" using registered(2) [OF ok] by (intro map_cong) force+
    finally show ?thesis .
  qed
  have preserve: "rc_z_order cmd = Preserve \<and> rc_visible cmd" if "cmd \<in> set cmds" for cmd
  proof -
    have "rc_id cmd \<in> fst ` set (cp_window_ids c)" using that ids by (metis imageI set_map)
    with that shown show ?thesis
      by (auto simp: cmds_def on_render_def List.map_filter_def all_shown_def)
  qed
  have reg: "\<exists>w. window_for_id (rc_id cmd) c = Some w" if "cmd \<in> set cmds" for cmd
  proof -
    have "rc_id cmd \<in> fst ` set (cp_window_ids c)" using that ids by (metis imageI set_map)
    then show ?thesis using registered(2) [OF ok] by force
  qed
  have "space_wins (fold (place_command c) cmds (cp_space c))
      = filter (\<lambda>w. w \<notin> set (map snd (cp_window_ids c))) (space_wins (cp_space c)) @ map snd (cp_window_ids c)"
    unfolding win [symmetric]
  proof (rule place_all_order [OF compositor_placed [OF ok] _ _ _ _ refl])
    show "distinct (map rc_id cmds)" unfolding ids using ok by (simp add: compositor_ok_def)
    have "set (map rc_id cmds) = fst ` set (cp_window_ids c)" by (simp only: ids set_map)
    then show "inj_on (\<lambda>i. window_for_id i c) (rc_id ` set cmds)"
      using ok registered(2) [OF ok] unfolding compositor_ok_def inj_on_def
      by simp (metis (no_types, lifting) imageE prod.collapse window_ids_inverse ok option.inject)
    show "\<exists>w. window_for_id (rc_id cmd) c = Some w" if "cmd \<in> set cmds" for cmd by (rule reg [OF that])
    show "rc_visible cmd \<and> (case cp_protocol c of None \<Rightarrow> True
        | Some p \<Rightarrow> workspace_visible (rc_id cmd) (cp_output_name c) p)" if cmd: "cmd \<in> set cmds" for cmd
    proof -
      have "rc_id cmd \<in> fst ` set (cp_window_ids c)" using cmd ids by (metis imageI set_map)
      with preserve [OF cmd] shown show ?thesis unfolding all_shown_def by blast
    qed
  qed
  moreover have "filter (\<lambda>w. w \<notin> set (map snd (cp_window_ids c))) (space_wins (cp_space c)) = []"
    using ok by (auto simp: compositor_ok_def filter_empty_conv)
  moreover have "cp_space (apply_wm_render_commands c) = fold (place_command c) cmds (cp_space c)"
    using preserve by (auto simp: apply_wm_render_commands_def apply_render_commands_def cmds_def)
  ultimately show ?thesis by simp
qed

text \<open>
  C20.  The built-in manager's commands say that every window keeps its place in the stack, but each
  frame maps the windows again in the order of their creation, and mapping puts a window on top:
  after a frame the stack is the creation order, whatever was raised before it by a click or by
  Alt+Tab.
\<close>
theorem frame_undoes_raise:
  assumes "compositor_ok c" "all_shown c"
  shows "space_wins (cp_space (apply_wm_render_commands (fst (focus_on w c)))) = map snd (cp_window_ids c)"
proof -
  have "placed_ok c (raise_element w (cp_space c))"
  proof (cases "w \<in> set (space_wins (cp_space c))")
    case True
    have d: "distinct (space_wins (cp_space c))" using assms(1) by (simp add: compositor_ok_def)
    show ?thesis
      unfolding placed_ok_def raise_element_simps(1) [OF d True]
      using raise_element_simps(2) [OF d True] compositor_placed [OF assms(1)] True
      by (auto simp: placed_ok_def raise_element_simps(1) [OF d True])
  next
    case False
    have "fst e \<noteq> w" if "e \<in> set (cp_space c)" for e
      using imageI [OF that, of fst] False unfolding set_map by metis
    then have "iter_find (\<lambda>e. fst e = w) (cp_space c) = None" unfolding find_None_iff by blast
    then show ?thesis using compositor_placed [OF assms(1)] by (simp add: raise_element_def)
  qed
  then have "compositor_ok (fst (focus_on w c))" "all_shown (fst (focus_on w c))"
    using assms by (simp_all add: focus_on_def compositor_ok_space all_shown_def cong: option.case_cong)
  from frame_order [OF this] show ?thesis by (simp add: focus_on_def)
qed

lemma two_windows_shown: "all_shown two_windows"
  by (simp add: all_shown_def two_windows_def new_toplevel_def register_window_def compositor_new_def
      on_new_toplevel_def on_protocol_def wm_proto_new_def is_wm_connected_def floating_new_def
      workspace_visible_def is_visible_def workspace_default_def Let_def)

theorem frame_undoes_raise_witness:
  "space_wins (cp_space (apply_wm_render_commands (fst (focus_on 7 two_windows)))) = [7, 8]"
  using frame_undoes_raise [OF two_windows_ok(1) two_windows_shown] two_windows_ok(2) by simp

text \<open>
  With an external window manager connected, the frame starts a render phase, which empties the
  list of collected commands, and takes the commands in the same breath: whatever the manager
  sent since the last frame is dropped, and the space is left as it was.
\<close>
theorem external_commands_dropped:
  assumes "cp_protocol c = Some p" "wp_wm_client p = Some wm"
  shows "cp_space (fst (render_wm_phase c)) = cp_space c
       \<and> (\<exists>p'. cp_protocol (fst (render_wm_phase c)) = Some p' \<and> wp_pending p' = [])
       \<and> snd (render_wm_phase c) = [ToWm (EvRenderStart wm)]"
  using assms
  by (simp add: render_wm_phase_def is_wm_connected_def start_render_phase_def take_render_commands_def
      apply_render_commands_def)

theorem external_commands_dropped_witness:
  "let p = fst (handle_window_request 1 (SetPosition 100 50) (wm_proto_new\<lparr> wp_wm_client := Some 3 \<rparr>))
   in wp_pending p \<noteq> [] \<and>
      cp_space (fst (render_wm_phase (two_windows\<lparr> cp_protocol := Some p \<rparr>))) = cp_space two_windows"
proof -
  let ?p = "fst (handle_window_request 1 (SetPosition 100 50) (wm_proto_new\<lparr> wp_wm_client := Some 3 \<rparr>))"
  have "wp_pending ?p \<noteq> []" by simp
  moreover have "cp_space (fst (render_wm_phase (two_windows\<lparr> cp_protocol := Some ?p \<rparr>)))
      = cp_space (two_windows\<lparr> cp_protocol := Some ?p \<rparr>)"
    by (rule external_commands_dropped [of _ ?p 3, THEN conjunct1]) simp_all
  ultimately show ?thesis by simp
qed

subsection \<open>Keys held on the seat\<close>

text \<open>The keycodes the seat considers pressed after a list of events.\<close>

fun seat_keys :: "seat_out list \<Rightarrow> u32 set \<Rightarrow> u32 set" where
  "seat_keys [] ks = ks"
| "seat_keys (SeatKey k True # es) ks = seat_keys es (insert k ks)"
| "seat_keys (SeatKey k False # es) ks = seat_keys es (ks - {k})"
| "seat_keys (_ # es) ks = seat_keys es ks"

lemma seat_keys_append: "seat_keys (xs @ ys) ks = seat_keys ys (seat_keys xs ks)"
  by (induction xs ks rule: seat_keys.induct) simp_all

lemma seat_keys_ToWm [simp]: "seat_keys (map ToWm es) ks = ks"
  by (induction es) simp_all

lemma seat_keys_release: "seat_keys (map (\<lambda>k. SeatKey (k + 8) False) hs) ks = ks - (\<lambda>k. k + 8) ` set hs"
  by (induction hs arbitrary: ks) auto

lemma seat_keys_focus [simp]: "seat_keys (snd (focus_on w c)) ks = ks"
  by (simp add: focus_on_def)

lemma builtin_action_keys:
  "seat_keys (snd (builtin_action key c)) ks = ks \<and> cp_pressed_keys (fst (builtin_action key c)) = cp_pressed_keys c"
  by (auto simp: builtin_action_def Let_def focus_on_def seat_keys_append split: option.split prod.split)

definition keys_ok :: "u32 set \<Rightarrow> compositor \<Rightarrow> bool" where
  "keys_ok ks c \<longleftrightarrow> ks = (\<lambda>k. k + 8) ` set (cp_pressed_keys c)"

lemma image_add8: "(\<lambda>k :: u32. k + 8) ` (A - {k}) = (\<lambda>k. k + 8) ` A - {k + 8}"
  by auto

lemma inject_keyboard_keys:
  assumes "keys_ok ks c"
  shows "keys_ok (seat_keys (snd (inject_keyboard ev c)) ks) (fst (inject_keyboard ev c))"
  using assms builtin_action_keys
  by (auto simp: inject_keyboard_def Let_def keys_ok_def split_beta image_add8 split: option.split)

lemma click_focus_keys:
  "seat_keys (snd (click_focus hit c)) ks = ks \<and> cp_pressed_keys (fst (click_focus hit c)) = cp_pressed_keys c"
  by (auto simp: click_focus_def Let_def focus_on_def split: option.split prod.split)

lemma inject_keys:
  assumes "keys_ok ks c"
  shows "keys_ok (seat_keys (snd (inject_network_input hit msg c)) ks) (fst (inject_network_input hit msg c))"
proof (cases msg)
  case (PointerButton ev)
  with assms click_focus_keys [of hit c ks] show ?thesis
    by (auto simp: Let_def keys_ok_def split_beta seat_keys_append)
qed (use assms inject_keyboard_keys in \<open>auto simp: keys_ok_def Let_def\<close>)

text \<open>A stretch of input from one client, with the events the seat sees.\<close>

fun inject_all ::
  "(space \<Rightarrow> f64 \<times> f64 \<Rightarrow> win option) \<Rightarrow> input_message list \<Rightarrow> compositor \<Rightarrow> compositor \<times> seat_out list" where
  "inject_all hit [] c = (c, [])"
| "inject_all hit (m # ms) c =
     (let (c1, e1) = inject_network_input hit m c; (c2, e2) = inject_all hit ms c1 in (c2, e1 @ e2))"

lemma inject_all_keys:
  "keys_ok ks c \<Longrightarrow> keys_ok (seat_keys (snd (inject_all hit ms c)) ks) (fst (inject_all hit ms c))"
proof (induction ms arbitrary: c ks)
  case (Cons m ms)
  from Cons.IH [OF inject_keys [OF Cons.prems, of hit m]] show ?case
    by (simp add: Let_def split_beta seat_keys_append)
qed simp

text \<open>
  C18.  No stuck keys.  Whatever a client sent before it disconnected, including keys it never
  released and keys a binding swallowed, after \<open>release_all_keys\<close> the seat holds no key, no
  modifier is held, and the next client starts clean.
\<close>
theorem no_stuck_keys:
  assumes "cp_pressed_keys c = []" "inject_all hit msgs c = (c1, evs)" "release_all_keys c1 = (c2, rel)"
  shows "seat_keys (evs @ rel) {} = {} \<and> cp_pressed_keys c2 = [] \<and> modifier_mask (cp_modifiers c2) = 0"
proof -
  have "keys_ok (seat_keys evs {}) c1"
    using inject_all_keys [of "{}" c hit msgs] assms(1,2) by (simp add: keys_ok_def)
  with assms(3) show ?thesis
    by (auto simp: release_all_keys_def keys_ok_def seat_keys_append seat_keys_release modifier_mask_def
        List.map_filter_simps)
qed

definition key_event :: "u32 \<Rightarrow> key_state \<Rightarrow> input_message" where
  "key_event k st = Keyboard \<lparr> ke_keycode = k, ke_state = st, ke_time = 0 \<rparr>"

theorem no_stuck_keys_witness:
  "let (c1, evs) = inject_all (\<lambda>_ _. None) [key_event 30 KeyPressed, key_event 42 KeyPressed] two_windows;
       (c2, rel) = release_all_keys c1
   in seat_keys (evs @ rel) {} = {}"
proof -
  obtain c1 evs where 1: "inject_all (\<lambda>_ _. None) [key_event 30 KeyPressed, key_event 42 KeyPressed] two_windows = (c1, evs)"
    by fastforce
  obtain c2 rel where 2: "release_all_keys c1 = (c2, rel)" by fastforce
  have "cp_pressed_keys two_windows = []"
    by (simp add: two_windows_def new_toplevel_def register_window_def compositor_new_def on_protocol_def
        on_new_toplevel_def wm_proto_new_def is_wm_connected_def Let_def)
  then have "seat_keys (evs @ rel) {} = {}" using no_stuck_keys [OF _ 1 2] by blast
  then show ?thesis by (simp only: 1 2 Let_def prod.case)
qed

text \<open>
  C19.  A binding of the external manager also swallows the release of a key whose press went to a
  client: a key pressed alone, then released while the modifiers of a binding on it are held, stays
  pressed on the seat after the client has released everything.
\<close>
theorem binding_swallows_release:
  assumes "cp_protocol c = Some p" "cp_pressed_keys c = []" "cp_modifiers c = []"
    and "wp_keybindings p = {(key, MOD_SUPER, [])}" "modifier_bit key = None"
    and "inject_all hit [key_event key KeyPressed, key_event KEY_LEFTMETA KeyPressed,
           key_event key KeyReleased, key_event KEY_LEFTMETA KeyReleased] c = (c', evs)"
  shows "seat_keys evs {} = {key + 8} \<and> cp_pressed_keys c' = [key]"
proof -
  have meta: "modifier_bit KEY_LEFTMETA = Some MOD_SUPER"
    by (simp add: modifier_bit_def KEY_LEFTMETA_def KEY_LEFTSHIFT_def KEY_RIGHTSHIFT_def KEY_LEFTCTRL_def
        KEY_RIGHTCTRL_def KEY_LEFTALT_def KEY_RIGHTALT_def)
  then have key: "key \<noteq> KEY_LEFTMETA" "KEY_LEFTMETA \<noteq> key" using assms(5) by auto
  have masks: "modifier_mask [] = 0" "modifier_mask [KEY_LEFTMETA] = MOD_SUPER" "MOD_SUPER \<noteq> 0"
    by (simp_all add: modifier_mask_def List.map_filter_simps meta) (simp add: MOD_SUPER_def)
  have builtin: "on_key_binding key 0 wm = (wm, False)" "on_key_binding KEY_LEFTMETA MOD_SUPER wm = (wm, False)" for wm
    by (simp_all add: on_key_binding_def from_key_def KEY_LEFTMETA_def KEY_F4_def KEY_TAB_def KEY_LEFT_def
        KEY_RIGHT_def KEY_UP_def KEY_DOWN_def split: option.split)
  have bound: "check_key_binding key 0 True p = (False, [])" "fst (check_key_binding key MOD_SUPER False p)"
    "check_key_binding KEY_LEFTMETA m pr p = (False, [])" for m pr
    using masks(3) key by (auto simp: check_key_binding_def assms(4) Let_def)
  obtain evs' where b: "check_key_binding key MOD_SUPER False p = (True, evs')"
    using bound(2) by (metis prod.collapse)
  let ?c1 = "c\<lparr> cp_pressed_keys := [key] \<rparr>"
  have 1: "inject_network_input hit (key_event key KeyPressed) c = (?c1, [SeatKey (key + 8) True])"
    using assms(1-3,5) by (simp add: key_event_def inject_keyboard_def modifier_on_key_def masks builtin bound
        hs_insert_def)
  let ?c2 = "?c1\<lparr> cp_modifiers := [KEY_LEFTMETA], cp_pressed_keys := [key, KEY_LEFTMETA] \<rparr>"
  have 2: "inject_network_input hit (key_event KEY_LEFTMETA KeyPressed) ?c1 = (?c2, [SeatKey (KEY_LEFTMETA + 8) True])"
    using assms(1-3) key by (simp add: key_event_def inject_keyboard_def modifier_on_key_def meta masks builtin bound
        hs_insert_def)
  have 3: "inject_network_input hit (key_event key KeyReleased) ?c2 = (?c2, map ToWm evs')"
    using assms(1-3,5) by (simp add: key_event_def inject_keyboard_def modifier_on_key_def masks b)
  let ?c4 = "?c2\<lparr> cp_modifiers := [], cp_pressed_keys := [key] \<rparr>"
  have 4: "inject_network_input hit (key_event KEY_LEFTMETA KeyReleased) ?c2 = (?c4, [SeatKey (KEY_LEFTMETA + 8) False])"
    using assms(1-3) key by (simp add: key_event_def inject_keyboard_def modifier_on_key_def meta masks bound
        hs_remove_def)
  have evs: "evs = [SeatKey (key + 8) True, SeatKey (KEY_LEFTMETA + 8) True] @ map ToWm evs' @ [SeatKey (KEY_LEFTMETA + 8) False]"
    and c': "c' = ?c4"
    using assms(6) unfolding inject_all.simps Let_def 1 prod.case 2 3 4 by simp_all
  show ?thesis unfolding evs c' using key by (simp add: seat_keys_append)
qed

theorem binding_swallows_release_witness:
  "\<exists>c evs. inject_all (\<lambda>_ _. None) [key_event 30 KeyPressed, key_event KEY_LEFTMETA KeyPressed,
       key_event 30 KeyReleased, key_event KEY_LEFTMETA KeyReleased]
       ((compositor_new ''wayray-0'' (1024, 768))\<lparr> cp_protocol :=
          Some (wm_proto_new\<lparr> wp_keybindings := {(30, MOD_SUPER, [])} \<rparr>) \<rparr>) = (c, evs)
     \<and> seat_keys evs {} = {38}"
proof -
  let ?c = "(compositor_new ''wayray-0'' (1024, 768))\<lparr> cp_protocol :=
          Some (wm_proto_new\<lparr> wp_keybindings := {(30, MOD_SUPER, [])} \<rparr>) \<rparr>"
  obtain c evs where i: "inject_all (\<lambda>_ _. None) [key_event 30 KeyPressed, key_event KEY_LEFTMETA KeyPressed,
       key_event 30 KeyReleased, key_event KEY_LEFTMETA KeyReleased] ?c = (c, evs)" by fastforce
  have "modifier_bit 30 = None"
    by (simp add: modifier_bit_def KEY_LEFTMETA_def KEY_RIGHTMETA_def KEY_LEFTSHIFT_def KEY_RIGHTSHIFT_def
        KEY_LEFTCTRL_def KEY_RIGHTCTRL_def KEY_LEFTALT_def KEY_RIGHTALT_def)
  then have "seat_keys evs {} = {30 + 8}"
    by (intro binding_swallows_release [where p = "wm_proto_new\<lparr> wp_keybindings := {(30, MOD_SUPER, [])} \<rparr>",
          OF _ _ _ _ _ i, THEN conjunct1]) (simp_all add: compositor_new_def)
  with i show ?thesis by simp
qed

end
