(* ===== verification/Toplevels.thy ===== *)
theory Toplevels
  imports Compositor
begin

text \<open>
  What a window is told (\<open>handlers/xdg_shell.rs\<close>, \<open>handlers/compositor.rs\<close>, \<open>handlers/wm_protocol.rs\<close>): the
  configure state of an xdg toplevel, as the vendored smithay keeps it (\<open>wayland/shell/xdg/mod.rs\<close>), under
  the compositor's handlers and the requests of the window's client.  What the window manager decides
  is told at once; the activation of a window and the decoration mode offered to it are not.
\<close>

subsection \<open>The surface\<close>

text \<open>
  Bounds, capabilities and the output of a fullscreen window are never set here and left out.  A serial
  is a number; the global counter of serials is counted per surface.
\<close>

record toplevel_state =
  ts_size :: "(int \<times> int) option"
  ts_fullscreen :: bool
  ts_activated :: bool
  ts_decoration :: "decoration_mode option"

definition toplevel_state_default :: toplevel_state where
  "toplevel_state_default =
     \<lparr> ts_size = None, ts_fullscreen = False, ts_activated = False, ts_decoration = None \<rparr>"

text \<open>
  The attributes of the role.  \<open>tl_buffer\<close>: whether the renderer holds a buffer, \<open>None\<close> before the first
  commit; \<open>tl_decoration\<close>: the client has a decoration object.
\<close>

record toplevel =
  tl_initial_sent :: bool
  tl_decoration_sent :: bool
  tl_pending :: "toplevel_state option"
  tl_sent :: "(nat \<times> toplevel_state) list"
  tl_acked :: "toplevel_state option"
  tl_current :: toplevel_state
  tl_has_buffer :: bool
  tl_buffer :: "bool option"
  tl_decoration :: bool
  tl_serial :: nat

definition toplevel_new :: toplevel where
  "toplevel_new =
     \<lparr> tl_initial_sent = False, tl_decoration_sent = False, tl_pending = None, tl_sent = [], tl_acked = None,
       tl_current = toplevel_state_default, tl_has_buffer = False, tl_buffer = None, tl_decoration = False,
       tl_serial = 1 \<rparr>"

datatype toplevel_event =
    DecorationConfigure decoration_mode
  | SurfaceConfigure nat toplevel_state

definition current_server_state :: "toplevel \<Rightarrow> toplevel_state" where
  "current_server_state t =
     (if tl_sent t \<noteq> [] then snd (last (tl_sent t))
      else case tl_acked t of Some s \<Rightarrow> s | None \<Rightarrow> tl_current t)"

definition with_pending_state :: "(toplevel_state \<Rightarrow> toplevel_state) \<Rightarrow> toplevel \<Rightarrow> toplevel" where
  "with_pending_state f t =
     t\<lparr> tl_pending := Some (f (case tl_pending t of Some s \<Rightarrow> s | None \<Rightarrow> current_server_state t)) \<rparr>"

definition unsent_changes :: "toplevel \<Rightarrow> bool" where
  "unsent_changes t = (case tl_pending t of None \<Rightarrow> False | Some s \<Rightarrow> s \<noteq> current_server_state t)"

definition has_pending_changes :: "toplevel \<Rightarrow> bool" where
  "has_pending_changes t \<longleftrightarrow> \<not> tl_initial_sent t \<or> unsent_changes t"

definition get_pending_state :: "toplevel \<Rightarrow> toplevel \<times> toplevel_state option" where
  "get_pending_state t =
     (if \<not> tl_initial_sent t
      then (t\<lparr> tl_pending := None \<rparr>,
            Some (case tl_pending t of Some s \<Rightarrow> s | None \<Rightarrow> current_server_state t))
      else if \<not> unsent_changes t then (t, None)
      else (t\<lparr> tl_pending := None \<rparr>, tl_pending t))"

definition send_configure :: "toplevel \<Rightarrow> toplevel \<times> toplevel_event list" where
  "send_configure t =
     (let (t1, new) = get_pending_state t;
          pending = (case new of Some s \<Rightarrow> s | None \<Rightarrow> current_server_state t1);
          decoration_changed = (\<not> tl_decoration_sent t1
            \<or> ts_decoration pending \<noteq> ts_decoration (current_server_state t1));
          serial = tl_serial t1
      in (t1\<lparr> tl_sent := tl_sent t1 @ [(serial, pending)], tl_serial := serial + 1, tl_initial_sent := True,
              tl_decoration_sent := tl_decoration_sent t1 \<or> tl_decoration t1 \<rparr>,
          (if decoration_changed \<and> tl_decoration t1
           then [DecorationConfigure (case ts_decoration pending of Some m \<Rightarrow> m | None \<Rightarrow> ClientSide)] else [])
          @ [SurfaceConfigure serial pending]))"

definition send_pending_configure :: "toplevel \<Rightarrow> toplevel \<times> toplevel_event list" where
  "send_pending_configure t = (if has_pending_changes t then send_configure t else (t, []))"

definition ack_configure :: "nat \<Rightarrow> toplevel \<Rightarrow> toplevel" where
  "ack_configure serial t =
     (case iter_find (\<lambda>c. fst c = serial) (tl_sent t) of
        None \<Rightarrow> t
      | Some c \<Rightarrow> t\<lparr> tl_acked := Some (snd c), tl_sent := filter (\<lambda>c. serial < fst c) (tl_sent t) \<rparr>)"

text \<open>The hook smithay runs before the handler of a commit.\<close>

definition commit_hook :: "toplevel \<Rightarrow> toplevel" where
  "commit_hook t =
     (let t1 = (case tl_buffer t of
                  None \<Rightarrow> t
                | Some b \<Rightarrow>
                    (if tl_has_buffer t \<and> \<not> b then t\<lparr> tl_initial_sent := False, tl_decoration_sent := False \<rparr> else t)
                      \<lparr> tl_has_buffer := b \<rparr>)
      in case tl_acked t1 of None \<Rightarrow> t1 | Some s \<Rightarrow> t1\<lparr> tl_current := s \<rparr>)"

subsection \<open>The handlers\<close>

text \<open>
  \<open>commit\<close>.  \<open>attached\<close>: the commit attaches a buffer, removes it (\<open>Some False\<close>) or does neither;
  \<open>shown\<close>: the window is in the space, which is where the handler looks for it.
\<close>

definition commit :: "bool option \<Rightarrow> bool \<Rightarrow> toplevel \<Rightarrow> toplevel \<times> toplevel_event list" where
  "commit attached shown t =
     (let t1 = commit_hook t;
          t2 = t1\<lparr> tl_buffer := Some (case attached of Some b \<Rightarrow> b | None \<Rightarrow> tl_buffer t1 = Some True) \<rparr>
      in if shown \<and> \<not> tl_initial_sent t2 then send_configure t2 else (t2, []))"

definition set_size :: "int \<times> int \<Rightarrow> toplevel \<Rightarrow> toplevel" where
  "set_size sz = with_pending_state (\<lambda>s. s\<lparr> ts_size := Some sz \<rparr>)"

definition set_decoration_mode :: "decoration_mode \<Rightarrow> toplevel \<Rightarrow> toplevel" where
  "set_decoration_mode m = with_pending_state (\<lambda>s. s\<lparr> ts_decoration := Some m \<rparr>)"

definition set_activated :: "bool \<Rightarrow> toplevel \<Rightarrow> toplevel" where
  "set_activated b = with_pending_state (\<lambda>s. s\<lparr> ts_activated := b \<rparr>)"

definition new_decoration :: "toplevel \<Rightarrow> toplevel" where
  "new_decoration t = set_decoration_mode ServerSide (t\<lparr> tl_decoration := True \<rparr>)"

definition request_mode :: "decoration_mode \<Rightarrow> toplevel \<Rightarrow> toplevel \<times> toplevel_event list" where
  "request_mode m t =
     (let t1 = set_decoration_mode m t in if tl_initial_sent t1 then send_pending_configure t1 else (t1, []))"

definition unset_mode :: "toplevel \<Rightarrow> toplevel \<times> toplevel_event list" where
  "unset_mode t = request_mode ServerSide t"

text \<open>
  What can happen to a toplevel, and the step it makes.  A size is also set by a snap of the built-in
  manager.  A second decoration object is a protocol error, which ends the client.
\<close>

datatype toplevel_op =
    Resize "int \<times> int"
  | GrantFullscreen bool
  | Decorate decoration_mode
  | Activation bool
  | NewDecoration
  | RequestMode decoration_mode
  | UnsetMode
  | DropDecoration
  | Ack nat
  | Commit "bool option" bool

fun toplevel_step :: "toplevel_op \<Rightarrow> toplevel \<Rightarrow> toplevel \<times> toplevel_event list" where
  "toplevel_step (Resize sz) t = send_pending_configure (set_size sz t)"
| "toplevel_step (GrantFullscreen b) t =
     send_pending_configure (with_pending_state (\<lambda>s. s\<lparr> ts_fullscreen := b \<rparr>) t)"
| "toplevel_step (Decorate m) t = send_pending_configure (set_decoration_mode m t)"
| "toplevel_step (Activation b) t = (set_activated b t, [])"
| "toplevel_step NewDecoration t = (new_decoration t, [])"
| "toplevel_step (RequestMode m) t = request_mode m t"
| "toplevel_step UnsetMode t = unset_mode t"
| "toplevel_step DropDecoration t = (t\<lparr> tl_decoration := False \<rparr>, [])"
| "toplevel_step (Ack serial) t = (ack_configure serial t, [])"
| "toplevel_step (Commit attached shown) t = commit attached shown t"

fun toplevel_run :: "toplevel_op list \<Rightarrow> toplevel \<Rightarrow> toplevel \<times> toplevel_event list" where
  "toplevel_run [] t = (t, [])"
| "toplevel_run (op # ops) t =
     (let (t1, evs1) = toplevel_step op t; (t2, evs2) = toplevel_run ops t1 in (t2, evs1 @ evs2))"

text \<open>\<open>new_toplevel\<close> on the surface: the first configure, then the mapping, which activates the window.\<close>

definition toplevel_created :: "int \<times> int \<Rightarrow> toplevel \<times> toplevel_event list" where
  "toplevel_created sz =
     (let (t, evs) = send_configure (set_size sz toplevel_new) in (set_activated True t, evs))"

subsection \<open>What the client is told\<close>

text \<open>The abstract state: what the window manager, the focus and the client's requests have decided.\<close>

fun intend :: "toplevel_op \<Rightarrow> toplevel_state \<Rightarrow> toplevel_state" where
  "intend (Resize sz) s = s\<lparr> ts_size := Some sz \<rparr>"
| "intend (GrantFullscreen b) s = s\<lparr> ts_fullscreen := b \<rparr>"
| "intend (Decorate m) s = s\<lparr> ts_decoration := Some m \<rparr>"
| "intend (Activation b) s = s\<lparr> ts_activated := b \<rparr>"
| "intend (RequestMode m) s = s\<lparr> ts_decoration := Some m \<rparr>"
| "intend NewDecoration s = s\<lparr> ts_decoration := Some ServerSide \<rparr>"
| "intend UnsetMode s = s\<lparr> ts_decoration := Some ServerSide \<rparr>"
| "intend op s = s"

text \<open>What the server would send.\<close>

definition wanted :: "toplevel \<Rightarrow> toplevel_state" where
  "wanted t = (case tl_pending t of Some s \<Rightarrow> s | None \<Rightarrow> current_server_state t)"

definition toplevel_ok :: "toplevel \<Rightarrow> bool" where
  "toplevel_ok t \<longleftrightarrow> sorted_wrt (<) (map fst (tl_sent t)) \<and> (\<forall>c\<in>set (tl_sent t). fst c < tl_serial t)"

text \<open>\<open>announced t\<close>: the client has been sent a configure, and the last one is all there is to say.\<close>

definition announced :: "toplevel \<Rightarrow> bool" where
  "announced t \<longleftrightarrow> tl_initial_sent t \<and> wanted t = current_server_state t"

lemma current_server_state_cong:
  "tl_sent t1 = tl_sent t \<Longrightarrow> tl_acked t1 = tl_acked t \<Longrightarrow> tl_current t1 = tl_current t \<Longrightarrow>
     current_server_state t1 = current_server_state t"
  by (simp add: current_server_state_def split: option.split)

lemma pending_simps [simp]:
  "current_server_state (t\<lparr> tl_pending := p \<rparr>) = current_server_state t"
  "current_server_state (t\<lparr> tl_buffer := b \<rparr>) = current_server_state t"
  "current_server_state (t\<lparr> tl_decoration := d \<rparr>) = current_server_state t"
  by (rule current_server_state_cong; simp)+

lemma wanted_simps [simp]:
  "wanted (t\<lparr> tl_buffer := b \<rparr>) = wanted t" "wanted (t\<lparr> tl_decoration := d \<rparr>) = wanted t"
  "toplevel_ok (t\<lparr> tl_buffer := b \<rparr>) = toplevel_ok t" "toplevel_ok (t\<lparr> tl_decoration := d \<rparr>) = toplevel_ok t"
  by (simp_all add: wanted_def toplevel_ok_def split: option.split)

lemma with_pending_simps [simp]:
  "wanted (with_pending_state f t) = f (wanted t)"
  "current_server_state (with_pending_state f t) = current_server_state t"
  "toplevel_ok (with_pending_state f t) = toplevel_ok t"
  "tl_initial_sent (with_pending_state f t) = tl_initial_sent t"
  "tl_decoration_sent (with_pending_state f t) = tl_decoration_sent t"
  "tl_sent (with_pending_state f t) = tl_sent t" "tl_acked (with_pending_state f t) = tl_acked t"
  "tl_current (with_pending_state f t) = tl_current t" "tl_serial (with_pending_state f t) = tl_serial t"
  "tl_has_buffer (with_pending_state f t) = tl_has_buffer t" "tl_buffer (with_pending_state f t) = tl_buffer t"
  "tl_decoration (with_pending_state f t) = tl_decoration t"
  by (simp_all add: with_pending_state_def wanted_def toplevel_ok_def)

lemma send_configure_facts:
  assumes "send_configure t = (t1, evs)"
  shows "wanted t1 = wanted t" "announced t1" "toplevel_ok t \<Longrightarrow> toplevel_ok t1"
    "tl_sent t1 = tl_sent t @ [(tl_serial t, wanted t)]" "tl_acked t1 = tl_acked t" "tl_current t1 = tl_current t"
    "SurfaceConfigure (tl_serial t) (wanted t) \<in> set evs"
proof -
  have f: "tl_sent t1 = tl_sent t @ [(tl_serial t, wanted t)] \<and> tl_acked t1 = tl_acked t \<and> tl_current t1 = tl_current t
    \<and> SurfaceConfigure (tl_serial t) (wanted t) \<in> set evs \<and> tl_initial_sent t1 \<and> tl_serial t1 = tl_serial t + 1
    \<and> (tl_pending t1 = None \<or> tl_pending t1 = Some (wanted t))"
    using assms by (cases "tl_initial_sent t"; cases "tl_pending t")
      (auto simp: send_configure_def get_pending_state_def unsent_changes_def wanted_def Let_def split: if_splits)
  then have "current_server_state t1 = wanted t" by (simp add: current_server_state_def)
  then show "wanted t1 = wanted t" "announced t1" using f by (auto simp: wanted_def announced_def)
  show "toplevel_ok t \<Longrightarrow> toplevel_ok t1" using f by (auto simp: toplevel_ok_def sorted_wrt_append)
  show "tl_sent t1 = tl_sent t @ [(tl_serial t, wanted t)]" "tl_acked t1 = tl_acked t" "tl_current t1 = tl_current t"
    "SurfaceConfigure (tl_serial t) (wanted t) \<in> set evs" using f by blast+
qed

lemma send_pending_facts:
  assumes "send_pending_configure t = (t1, evs)"
  shows "wanted t1 = wanted t" "announced t1" "toplevel_ok t \<Longrightarrow> toplevel_ok t1"
    "tl_sent t \<noteq> [] \<Longrightarrow> tl_sent t1 \<noteq> []" "tl_acked t1 = tl_acked t" "tl_current t1 = tl_current t"
proof -
  have "wanted t1 = wanted t \<and> announced t1 \<and> (toplevel_ok t \<longrightarrow> toplevel_ok t1) \<and> (tl_sent t \<noteq> [] \<longrightarrow> tl_sent t1 \<noteq> [])
    \<and> tl_acked t1 = tl_acked t \<and> tl_current t1 = tl_current t"
  proof (cases "has_pending_changes t")
    case True
    then show ?thesis using assms send_configure_facts [of t t1 evs] by (simp add: send_pending_configure_def)
  next
    case False
    then show ?thesis using assms
      by (auto simp: send_pending_configure_def has_pending_changes_def unsent_changes_def announced_def wanted_def
          split: option.splits)
  qed
  then show "wanted t1 = wanted t" "announced t1" "toplevel_ok t \<Longrightarrow> toplevel_ok t1"
    "tl_sent t \<noteq> [] \<Longrightarrow> tl_sent t1 \<noteq> []" "tl_acked t1 = tl_acked t" "tl_current t1 = tl_current t" by blast+
qed

text \<open>An acknowledgement, of the last configure or an older one, does not change what was last sent.\<close>

lemma ack_facts:
  assumes "toplevel_ok t"
  shows "current_server_state (ack_configure n t) = current_server_state t" "toplevel_ok (ack_configure n t)"
    "wanted (ack_configure n t) = wanted t" "tl_initial_sent (ack_configure n t) = tl_initial_sent t"
proof -
  have "current_server_state (ack_configure n t) = current_server_state t \<and> toplevel_ok (ack_configure n t)"
  proof (cases "iter_find (\<lambda>c. fst c = n) (tl_sent t)")
    case None
    then show ?thesis using assms by (simp add: ack_configure_def)
  next
    case (Some c)
    then have c: "c \<in> set (tl_sent t)" "fst c = n" by (auto dest: find_in)
    then obtain xs l where sent: "tl_sent t = xs @ [l]" by (metis empty_iff list.set(1) rev_exhaust)
    have less: "fst x < fst l" if "x \<in> set xs" for x using assms that by (auto simp: toplevel_ok_def sent sorted_wrt_append)
    have "current_server_state (ack_configure n t) = current_server_state t"
    proof (cases "n < fst l")
      case True
      then show ?thesis by (simp add: ack_configure_def Some [unfolded sent] current_server_state_def sent)
    next
      case False
      then have "c = l" using c less [of c] by (auto simp: sent)
      moreover have "filter (\<lambda>c. n < fst c) (xs @ [l]) = []" using False less by (fastforce simp: filter_empty_conv)
      ultimately show ?thesis by (simp add: ack_configure_def Some [unfolded sent] current_server_state_def sent)
    qed
    moreover have "toplevel_ok (ack_configure n t)" using assms
      by (auto simp: ack_configure_def Some toplevel_ok_def sorted_wrt_map sorted_wrt_filter)
    ultimately show ?thesis by blast
  qed
  then show "current_server_state (ack_configure n t) = current_server_state t" "toplevel_ok (ack_configure n t)" by blast+
  then show "wanted (ack_configure n t) = wanted t" by (simp add: wanted_def ack_configure_def split: option.split)
  show "tl_initial_sent (ack_configure n t) = tl_initial_sent t" by (simp add: ack_configure_def split: option.split)
qed

lemma commit_hook_facts:
  shows "current_server_state (commit_hook t) = current_server_state t" "toplevel_ok (commit_hook t) = toplevel_ok t"
    "wanted (commit_hook t) = wanted t" "tl_sent (commit_hook t) = tl_sent t" "tl_acked (commit_hook t) = tl_acked t"
    "tl_current (commit_hook t) = (case tl_acked t of Some s \<Rightarrow> s | None \<Rightarrow> tl_current t)"
  by (auto simp: commit_hook_def Let_def current_server_state_def toplevel_ok_def wanted_def split: option.splits)

lemma commit_facts:
  assumes "commit attached shown t = (t1, evs)"
  shows "wanted t1 = wanted t" "toplevel_ok t \<Longrightarrow> toplevel_ok t1"
    "tl_current t1 = (case tl_acked t of Some s \<Rightarrow> s | None \<Rightarrow> tl_current t)" "tl_acked t1 = tl_acked t"
    "tl_sent t \<noteq> [] \<Longrightarrow> tl_sent t1 \<noteq> []"
proof -
  let ?t = "commit_hook t\<lparr> tl_buffer := Some (case attached of Some b \<Rightarrow> b | None \<Rightarrow> tl_buffer (commit_hook t) = Some True) \<rparr>"
  have h: "wanted ?t = wanted t" "toplevel_ok ?t = toplevel_ok t" "tl_sent ?t = tl_sent t" "tl_acked ?t = tl_acked t"
    "tl_current ?t = (case tl_acked t of Some s \<Rightarrow> s | None \<Rightarrow> tl_current t)"
    using commit_hook_facts [of t] by simp_all
  consider "t1 = ?t" | "send_configure ?t = (t1, evs)"
    using assms by (auto simp: commit_def Let_def split: if_splits)
  then have "wanted t1 = wanted t \<and> (toplevel_ok t \<longrightarrow> toplevel_ok t1)
    \<and> tl_current t1 = (case tl_acked t of Some s \<Rightarrow> s | None \<Rightarrow> tl_current t) \<and> tl_acked t1 = tl_acked t
    \<and> (tl_sent t \<noteq> [] \<longrightarrow> tl_sent t1 \<noteq> [])"
  proof cases
    case 1
    then show ?thesis using h by simp
  next
    case 2
    from send_configure_facts [OF 2] show ?thesis using h by simp
  qed
  then show "wanted t1 = wanted t" "toplevel_ok t \<Longrightarrow> toplevel_ok t1"
    "tl_current t1 = (case tl_acked t of Some s \<Rightarrow> s | None \<Rightarrow> tl_current t)" "tl_acked t1 = tl_acked t"
    "tl_sent t \<noteq> [] \<Longrightarrow> tl_sent t1 \<noteq> []" by blast+
qed

text \<open>The client has been configured once: something is on its way to it, or it acknowledged something.\<close>

definition was_configured :: "toplevel \<Rightarrow> bool" where
  "was_configured t \<longleftrightarrow> tl_sent t \<noteq> [] \<or> tl_acked t \<noteq> None"

lemma request_mode_facts:
  assumes "request_mode m t = (t1, evs)"
  shows "wanted t1 = (wanted t)\<lparr> ts_decoration := Some m \<rparr>" "toplevel_ok t \<Longrightarrow> toplevel_ok t1"
    "was_configured t \<Longrightarrow> was_configured t1" "tl_initial_sent t \<Longrightarrow> announced t1"
  using assms send_pending_facts [of "set_decoration_mode m t" t1 evs]
  by (auto simp: request_mode_def set_decoration_mode_def was_configured_def Let_def split: if_splits)

lemma toplevel_step_facts:
  assumes step: "toplevel_step op t = (t1, evs)" and ok: "toplevel_ok t"
  shows "wanted t1 = intend op (wanted t) \<and> toplevel_ok t1 \<and> (was_configured t \<longrightarrow> was_configured t1)"
proof (cases op)
  case (Ack n)
  then have t1: "t1 = ack_configure n t" using step by simp
  have "was_configured t \<longrightarrow> was_configured t1" by (auto simp: t1 ack_configure_def was_configured_def split: option.split)
  then show ?thesis using ack_facts [OF ok, of n] by (simp add: t1 Ack)
next
  case (Commit attached shown)
  then show ?thesis using step commit_facts [of attached shown t t1 evs] ok by (auto simp: was_configured_def)
next
  case (RequestMode m)
  then show ?thesis using step request_mode_facts [of m t t1 evs] ok by auto
next
  case UnsetMode
  then show ?thesis using step request_mode_facts [of ServerSide t t1 evs] ok by (auto simp: unset_mode_def)
next
  case DropDecoration
  then have t1: "t1 = t\<lparr> tl_decoration := False \<rparr>" using step by simp
  then show ?thesis using ok by (simp add: DropDecoration was_configured_def)
next
  case NewDecoration
  then show ?thesis using step ok
    by (auto simp: new_decoration_def set_decoration_mode_def was_configured_def)
next
  case (Activation b)
  then show ?thesis using step ok by (auto simp: set_activated_def was_configured_def)
next
  case (Resize sz)
  then show ?thesis using step ok send_pending_facts [of "set_size sz t" t1 evs]
    by (auto simp: set_size_def was_configured_def)
next
  case (GrantFullscreen b)
  then show ?thesis using step ok send_pending_facts [of "with_pending_state (\<lambda>s. s\<lparr> ts_fullscreen := b \<rparr>) t" t1 evs]
    by (auto simp: was_configured_def)
next
  case (Decorate m)
  then show ?thesis using step ok send_pending_facts [of "set_decoration_mode m t" t1 evs]
    by (auto simp: set_decoration_mode_def was_configured_def)
qed

lemma toplevel_run_facts:
  "toplevel_run ops t = (t1, evs) \<Longrightarrow> toplevel_ok t \<Longrightarrow>
     wanted t1 = fold intend ops (wanted t) \<and> toplevel_ok t1 \<and> (was_configured t \<longrightarrow> was_configured t1)"
proof (induction ops arbitrary: t t1 evs)
  case (Cons op ops)
  obtain t2 evs2 where s: "toplevel_step op t = (t2, evs2)" by fastforce
  obtain evs3 where r: "toplevel_run ops t2 = (t1, evs3)" using Cons.prems(1) s by (auto split: prod.splits)
  show ?case using toplevel_step_facts [OF s Cons.prems(2)] Cons.IH [OF r] by simp
qed simp

lemma toplevel_created_facts:
  assumes "toplevel_created sz = (t, evs)"
  shows "toplevel_ok t" "was_configured t" "tl_initial_sent t" "\<not> tl_decoration_sent t" "tl_buffer t = None"
    "\<not> tl_has_buffer t" "current_server_state t = toplevel_state_default\<lparr> ts_size := Some sz \<rparr>"
    "wanted t = toplevel_state_default\<lparr> ts_size := Some sz, ts_activated := True \<rparr>"
    "evs = [SurfaceConfigure 1 (toplevel_state_default\<lparr> ts_size := Some sz \<rparr>)]"
  using assms
  by (auto simp: toplevel_created_def send_configure_def set_size_def set_activated_def with_pending_state_def
      get_pending_state_def toplevel_new_def current_server_state_def toplevel_ok_def was_configured_def wanted_def Let_def)

definition decided_by_wm :: "toplevel_op \<Rightarrow> bool" where
  "decided_by_wm op = (case op of Resize _ \<Rightarrow> True | GrantFullscreen _ \<Rightarrow> True | Decorate _ \<Rightarrow> True | _ \<Rightarrow> False)"

lemma wm_announced: "toplevel_step op t = (t1, evs) \<Longrightarrow> decided_by_wm op \<Longrightarrow> announced t1"
  by (cases op) (auto simp: decided_by_wm_def dest: send_pending_facts(2))

subsection \<open>The window manager and the client\<close>

text \<open>What an output of the compositor does to the surface of window \<open>w\<close>.\<close>

definition toplevel_op_of :: "win \<Rightarrow> seat_out \<Rightarrow> toplevel_op option" where
  "toplevel_op_of w out =
     (case out of
        WinConfigure v (Some sz) \<Rightarrow> if v = w then Some (Resize sz) else None
      | WinFullscreen v b \<Rightarrow> if v = w then Some (GrantFullscreen b) else None
      | WinDecoration v m \<Rightarrow> if v = w then Some (Decorate m) else None
      | _ \<Rightarrow> None)"

definition toplevel_ops :: "win \<Rightarrow> seat_out list \<Rightarrow> toplevel_op list" where
  "toplevel_ops w outs = List.map_filter (toplevel_op_of w) outs"

text \<open>The client acknowledges the last configure, if it has not yet, and commits.\<close>

definition catch_up :: "bool option \<Rightarrow> bool \<Rightarrow> toplevel \<Rightarrow> toplevel_op list" where
  "catch_up attached shown t =
     (if tl_sent t = [] then [] else [Ack (fst (last (tl_sent t)))]) @ [Commit attached shown]"

lemma caught_up:
  assumes "toplevel_ok t" "was_configured t" "toplevel_run (catch_up attached shown t) t = (t1, evs)"
  shows "tl_current t1 = current_server_state t"
proof (cases "tl_sent t" rule: rev_cases)
  case Nil
  then obtain s where "tl_acked t = Some s" using assms(2) by (auto simp: was_configured_def)
  moreover have "tl_current t1 = (case tl_acked t of Some s \<Rightarrow> s | None \<Rightarrow> tl_current t)"
    using assms(3) commit_facts(3) [of attached shown t] by (auto simp: catch_up_def Nil split: prod.splits)
  ultimately show ?thesis by (simp add: current_server_state_def Nil)
next
  case (snoc xs l)
  have less: "fst x < fst l" if "x \<in> set xs" for x using assms(1) that by (auto simp: toplevel_ok_def snoc sorted_wrt_append)
  have "\<forall>x\<in>set xs. fst x \<noteq> fst l \<Longrightarrow> iter_find (\<lambda>c. fst c = fst l) (xs @ [l]) = Some l" by (induction xs) auto
  then have "iter_find (\<lambda>c. fst c = fst l) (xs @ [l]) = Some l" by (metis less less_irrefl)
  then have "tl_acked (ack_configure (fst l) t) = Some (snd l)" by (simp add: ack_configure_def snoc)
  moreover have "tl_current t1 = (case tl_acked (ack_configure (fst l) t) of Some s \<Rightarrow> s | None \<Rightarrow> tl_current (ack_configure (fst l) t))"
    using assms(3) commit_facts(3) [of attached shown "ack_configure (fst l) t"]
    by (auto simp: catch_up_def snoc split: prod.splits)
  ultimately show ?thesis by (simp add: current_server_state_def snoc)
qed

text \<open>The decisions of the external window manager about a window.\<close>

fun wm_decision :: "compositor_action \<Rightarrow> (window_id \<times> toplevel_op) option" where
  "wm_decision (ConfigureWindow i width height) = Some (i, Resize (width, height))"
| "wm_decision (SetFullscreen i granted) = Some (i, GrantFullscreen granted)"
| "wm_decision (SetDecoration i mode) = Some (i, Decorate mode)"
| "wm_decision _ = None"

lemma wm_decision_ops:
  assumes "wm_decision a = Some (i, op)" "window_for_id i c = Some w"
  shows "toplevel_ops w (snd (perform_action a c)) = [op]" "decided_by_wm op"
  using assms by (cases a; auto simp: toplevel_ops_def toplevel_op_of_def List.map_filter_simps decided_by_wm_def)+

lemma map_filter_in: "x \<in> set xs \<Longrightarrow> f x = Some y \<Longrightarrow> y \<in> set (List.map_filter f xs)"
  by (induction xs) (auto simp: List.map_filter_simps split: option.split)

text \<open>
  C21.  A decision of the external window manager reaches the client.  Whatever happened to the window
  before, its last configure then says all that was decided about it, by the managers, the focus and
  the client's own requests, with nothing left unsent; and when the client has acknowledged it and
  commits, that is its state, and the size the compositor reports for the window.
\<close>
theorem wm_decision_reaches_client:
  assumes "toplevel_created sz = (t0, evs0)" "toplevel_run ops t0 = (t, evs)"
    and "wm_decision a = Some (i, op)" "window_for_id i c = Some w"
    and "toplevel_run (toplevel_ops w (snd (perform_action a c))) t = (t1, evs1)"
    and "toplevel_run (catch_up attached shown t1) t1 = (t2, evs2)"
  shows "announced t1
     \<and> current_server_state t1 = fold intend (ops @ [op]) (toplevel_state_default\<lparr> ts_size := Some sz, ts_activated := True \<rparr>)
     \<and> tl_current t2 = current_server_state t1
     \<and> (op = Resize (width, height) \<longrightarrow>
          (i, None, None, width, height) \<in> set (existing_windows (\<lambda>v. if v = w then ts_size (tl_current t2) else size_of v) c))"
proof -
  note new = toplevel_created_facts [OF assms(1)]
  note run = toplevel_run_facts [OF assms(2) new(1)]
  obtain evs3 where step: "toplevel_step op t = (t1, evs3)"
    using assms(5) by (auto simp: wm_decision_ops(1) [OF assms(3,4)] split: prod.splits)
  have t: "toplevel_ok t" using run by blast
  note f = toplevel_step_facts [OF step t]
  have a: "announced t1" by (rule wm_announced [OF step wm_decision_ops(2) [OF assms(3,4)]])
  have told: "current_server_state t1 = fold intend (ops @ [op]) (toplevel_state_default\<lparr> ts_size := Some sz, ts_activated := True \<rparr>)"
    using a f run by (simp add: announced_def new(8))
  have cur: "tl_current t2 = current_server_state t1" by (rule caught_up [OF _ _ assms(6)]) (use f run new(2) in simp_all)
  have "ts_size (tl_current t2) = Some (width, height)" if "op = Resize (width, height)" by (simp add: cur told that)
  then show ?thesis using a told cur window_for_id_in [OF assms(4)]
    by (auto simp: existing_windows_def intro!: map_filter_in)
qed

subsection \<open>What the client is not told\<close>

text \<open>The life of a window about which no manager and no client decides anything.\<close>

definition undecided :: "toplevel_op \<Rightarrow> bool" where
  "undecided op = (case op of Activation _ \<Rightarrow> True | NewDecoration \<Rightarrow> True | Ack _ \<Rightarrow> True
     | Commit attached shown \<Rightarrow> attached \<noteq> Some False | _ \<Rightarrow> False)"

definition kept_quiet :: "toplevel_state \<Rightarrow> toplevel \<Rightarrow> bool" where
  "kept_quiet s t \<longleftrightarrow> toplevel_ok t \<and> tl_initial_sent t \<and> current_server_state t = s \<and> (tl_has_buffer t \<longrightarrow> tl_buffer t = Some True)"

lemma commit_hook_quiet:
  "tl_initial_sent t \<Longrightarrow> tl_has_buffer t \<longrightarrow> tl_buffer t = Some True \<Longrightarrow>
     tl_initial_sent (commit_hook t) \<and> tl_buffer (commit_hook t) = tl_buffer t
   \<and> (tl_has_buffer (commit_hook t) \<longrightarrow> tl_buffer t = Some True)"
  by (auto simp: commit_hook_def Let_def split: option.splits)

lemma undecided_step:
  assumes quiet: "kept_quiet s t" and "undecided op" and step: "toplevel_step op t = (t1, evs)"
  shows "kept_quiet s t1 \<and> evs = []"
proof (cases op)
  case (Commit attached shown)
  have h: "tl_initial_sent (commit_hook t)" "tl_has_buffer (commit_hook t) \<longrightarrow> tl_buffer t = Some True"
    "tl_buffer (commit_hook t) = tl_buffer t"
    using commit_hook_quiet [of t] quiet by (auto simp: kept_quiet_def)
  have t1: "t1 = commit_hook t\<lparr> tl_buffer := Some (case attached of Some b \<Rightarrow> b | None \<Rightarrow> tl_buffer (commit_hook t) = Some True) \<rparr>"
    "evs = []" using step h(1) by (simp_all add: Commit commit_def Let_def)
  have "attached \<noteq> Some False" using assms(2) by (simp add: Commit undecided_def)
  then show ?thesis using h quiet commit_hook_facts(1,2) [of t] by (auto simp: t1 kept_quiet_def split: option.split)
next
  case (Ack n)
  have "tl_has_buffer (ack_configure n t) = tl_has_buffer t" "tl_buffer (ack_configure n t) = tl_buffer t"
    by (simp_all add: ack_configure_def split: option.split)
  then show ?thesis using step quiet ack_facts [of t n] by (auto simp: Ack kept_quiet_def)
qed (use assms in \<open>auto simp: undecided_def kept_quiet_def set_activated_def new_decoration_def set_decoration_mode_def\<close>)

lemma undecided_run:
  "kept_quiet s t \<Longrightarrow> \<forall>op\<in>set ops. undecided op \<Longrightarrow> toplevel_run ops t = (t1, evs) \<Longrightarrow> kept_quiet s t1 \<and> evs = []"
proof (induction ops arbitrary: t t1 evs)
  case (Cons op ops)
  obtain t2 evs2 where st: "toplevel_step op t = (t2, evs2)" by fastforce
  obtain evs3 where r: "toplevel_run ops t2 = (t1, evs3)" "evs = evs2 @ evs3"
    using Cons.prems(3) st by (auto split: prod.splits)
  show ?case using undecided_step [OF Cons.prems(1) _ st] Cons.IH [OF _ _ r(1)] Cons.prems(2) r(2) by simp
qed simp

lemma fold_intend_decoration:
  "\<forall>op\<in>set ops. undecided op \<Longrightarrow> NewDecoration \<in> set ops \<or> ts_decoration s = Some ServerSide \<Longrightarrow>
     ts_decoration (fold intend ops s) = Some ServerSide"
proof (induction ops arbitrary: s)
  case (Cons op ops)
  then show ?case by (cases op) (auto simp: undecided_def)
qed simp

text \<open>
  C22.  Server-side decorations are never offered.  A client that creates a decoration object and leaves
  the choice to the compositor, as the handler expects, is told nothing: however often it commits and
  acknowledges, and whichever window is activated meanwhile, it gets no configure after the first one,
  which has no decoration mode and says that the window is not active.  The mode the handler chose
  stays pending until some manager resizes the window.
\<close>
theorem decoration_untold:
  assumes "toplevel_created sz = (t0, evs0)" "\<forall>op\<in>set ops. undecided op" "NewDecoration \<in> set ops"
    and "toplevel_run ops t0 = (t, evs)"
  shows "evs0 @ evs = [SurfaceConfigure 1 (toplevel_state_default\<lparr> ts_size := Some sz \<rparr>)]
     \<and> ts_decoration (wanted t) = Some ServerSide \<and> ts_decoration (current_server_state t) = None
     \<and> \<not> ts_activated (current_server_state t) \<and> \<not> announced t"
proof -
  note new = toplevel_created_facts [OF assms(1)]
  have "kept_quiet (toplevel_state_default\<lparr> ts_size := Some sz \<rparr>) t0" using new by (simp add: kept_quiet_def)
  note q = undecided_run [OF this assms(2,4)]
  have "ts_decoration (wanted t) = Some ServerSide"
    using toplevel_run_facts [OF assms(4) new(1)] fold_intend_decoration [OF assms(2)] assms(3) by simp
  then show ?thesis using q by (auto simp: new(9) kept_quiet_def announced_def toplevel_state_default_def)
qed

text \<open>
  A client that unmaps its window while the window manager hides it is not configured again: the
  handler looks for it in the space, where it is not.  A shown window is.
\<close>

lemma hidden_commits:
  "tl_buffer t = Some False \<Longrightarrow> snd (toplevel_run (replicate n (Commit None False)) t) = []
     \<and> tl_buffer (fst (toplevel_run (replicate n (Commit None False)) t)) = Some False"
proof (induction n arbitrary: t)
  case (Suc n)
  have "tl_buffer (fst (commit None False t)) = Some False" "snd (commit None False t) = []"
    using Suc.prems by (simp_all add: commit_def commit_hook_def Let_def split: option.split)
  then show ?case using Suc.IH [of "fst (commit None False t)"] by (auto split: prod.splits)
qed simp

lemma hidden_window_unanswered:
  assumes "tl_buffer t = Some True" "tl_initial_sent t"
  shows "snd (toplevel_run (Commit (Some False) False # replicate n (Commit None False)) t) = []"
    and "snd (toplevel_run [Commit (Some False) True, Commit None True] t) \<noteq> []"
proof -
  have "tl_buffer (fst (commit (Some False) False t)) = Some False" "snd (commit (Some False) False t) = []"
    by (simp_all add: commit_def Let_def)
  then show "snd (toplevel_run (Commit (Some False) False # replicate n (Commit None False)) t) = []"
    using hidden_commits [of "fst (commit (Some False) False t)" n] by (auto split: prod.splits)
  show "snd (toplevel_run [Commit (Some False) True, Commit None True] t) \<noteq> []"
    using assms by (auto simp: commit_def commit_hook_def send_configure_def Let_def split: option.splits prod.splits)
qed

theorem wm_decision_reaches_client_witness:
  "let t0 = fst (toplevel_created (800, 600)); ops = [NewDecoration, Commit (Some True) True, Ack 1, Activation False];
       t = fst (toplevel_run ops t0); c = (compositor_new ''o'' (640, 480))\<lparr> cp_window_ids := [(1, 5)] \<rparr>;
       t1 = fst (toplevel_run (toplevel_ops 5 (snd (perform_action (ConfigureWindow 1 300 200) c))) t);
       t2 = fst (toplevel_run (catch_up None True t1) t1)
   in announced t1 \<and> ts_decoration (current_server_state t1) = Some ServerSide
      \<and> (1, None, None, 300, 200) \<in> set (existing_windows (\<lambda>v. if v = 5 then ts_size (tl_current t2) else None) c)"
proof -
  let ?c = "(compositor_new ''o'' (640, 480))\<lparr> cp_window_ids := [(1, 5)] \<rparr>" and ?a = "ConfigureWindow 1 300 200"
  let ?ops = "[NewDecoration, Commit (Some True) True, Ack 1, Activation False]"
  obtain t0 evs0 where 0: "toplevel_created (800, 600) = (t0, evs0)" by fastforce
  obtain t evs where t: "toplevel_run ?ops t0 = (t, evs)" by (metis prod.collapse)
  obtain t1 evs1 where 1: "toplevel_run (toplevel_ops 5 (snd (perform_action ?a ?c))) t = (t1, evs1)" by (metis prod.collapse)
  obtain t2 evs2 where 2: "toplevel_run (catch_up None True t1) t1 = (t2, evs2)" by (metis prod.collapse)
  have w: "wm_decision ?a = Some (1, Resize (300, 200))" "window_for_id 1 ?c = Some 5"
    by (simp_all add: window_for_id_def)
  show ?thesis
    using wm_decision_reaches_client [OF 0 t w 1 2, of 300 200 "\<lambda>_. None"]
    unfolding Let_def 0 fst_conv t 1 2 by simp
qed

theorem decoration_untold_witness:
  "let (t0, evs0) = toplevel_created (800, 600);
       (t, evs) = toplevel_run [NewDecoration, Commit None True, Ack 1, Commit (Some True) True] t0
   in length (evs0 @ evs) = 1 \<and> \<not> announced t"
proof -
  let ?ops = "[NewDecoration, Commit None True, Ack 1, Commit (Some True) True]"
  obtain t0 evs0 where 0: "toplevel_created (800, 600) = (t0, evs0)" by fastforce
  obtain t evs where t: "toplevel_run ?ops t0 = (t, evs)" by (metis prod.collapse)
  have "evs0 @ evs = [SurfaceConfigure 1 (toplevel_state_default\<lparr> ts_size := Some (800, 600) \<rparr>)]" "\<not> announced t"
    using decoration_untold [OF 0 _ _ t] by (simp_all add: undecided_def)
  then show ?thesis unfolding Let_def 0 prod.case t by simp
qed

end
