(* ===== verification/Cluster.thy ===== *)
theory Cluster
  imports Tls
begin

text \<open>
  The configuration files (\<open>crates/wayray-protocol/src/cluster.rs\<close>, \<open>session_config.rs\<close>): the static view
  of the cluster and the desktop of a session.  Reading a file and the TOML parser are parameters:
  \<open>read\<close> gives the text at a path or \<open>None\<close> for an I/O error, \<open>parse\<close> the value or \<open>None\<close>.
\<close>

subsection \<open>The cluster\<close>

record server_entry =
  sv_id :: string
  sv_addr :: string
  sv_weight :: u32
  sv_fingerprint :: string

definition default_weight :: u32 where "default_weight = 1"

record cluster_config =
  cc_local_id :: string
  cc_cluster_secret :: string
  cc_servers :: "server_entry list"

definition cluster_config_default :: cluster_config where
  "cluster_config_default = \<lparr> cc_local_id = '''', cc_cluster_secret = '''', cc_servers = [] \<rparr>"

datatype config_error = ConfigIo string | ConfigParse string

definition load_config ::
  "(string \<Rightarrow> string option) \<Rightarrow> (string \<Rightarrow> 'c option) \<Rightarrow> string \<Rightarrow> config_error + 'c" where
  "load_config read parse path =
     (case read path of
        None \<Rightarrow> Inl (ConfigIo path)
      | Some content \<Rightarrow> (case parse content of None \<Rightarrow> Inl (ConfigParse path) | Some c \<Rightarrow> Inr c))"

definition cluster_config_paths :: "string option \<Rightarrow> string option \<Rightarrow> string list" where
  "cluster_config_paths xdg_config_home home =
     (case (case xdg_config_home of
              Some base \<Rightarrow> Some base
            | None \<Rightarrow> map_option (\<lambda>h. path_join h ''.config'') home) of
        Some base \<Rightarrow> [path_join (path_join base ''wayray'') ''cluster.toml'']
      | None \<Rightarrow> []) @ [''/etc/wayray/cluster.toml'']"

text \<open>A file that does not parse is reported and skipped, like one that cannot be read.\<close>

fun cluster_load_default ::
  "(string \<Rightarrow> string option) \<Rightarrow> (string \<Rightarrow> cluster_config option) \<Rightarrow> string list \<Rightarrow> cluster_config" where
  "cluster_load_default read parse [] = cluster_config_default"
| "cluster_load_default read parse (path # paths) =
     (case load_config read parse path of
        Inr config \<Rightarrow> config
      | Inl (ConfigIo p) \<Rightarrow> cluster_load_default read parse paths
      | Inl (ConfigParse p) \<Rightarrow> cluster_load_default read parse paths)"

definition cluster_server :: "string \<Rightarrow> cluster_config \<Rightarrow> server_entry option" where
  "cluster_server i c = iter_find (\<lambda>s. sv_id s = i) (cc_servers c)"

definition addr_of :: "string \<Rightarrow> cluster_config \<Rightarrow> string option" where
  "addr_of i c = map_option sv_addr (cluster_server i c)"

definition fingerprint_of :: "string \<Rightarrow> cluster_config \<Rightarrow> string option" where
  "fingerprint_of i c =
     (case cluster_server i c of None \<Rightarrow> None
      | Some s \<Rightarrow> if sv_fingerprint s \<noteq> '''' then Some (sv_fingerprint s) else None)"

definition peers :: "cluster_config \<Rightarrow> server_entry list" where
  "peers c = filter (\<lambda>s. sv_id s \<noteq> cc_local_id c) (cc_servers c)"

definition is_clustered :: "cluster_config \<Rightarrow> bool" where
  "is_clustered c \<longleftrightarrow> list_ex (\<lambda>s. sv_id s \<noteq> cc_local_id c) (cc_servers c)"

lemma is_clustered_peers: "is_clustered c \<longleftrightarrow> peers c \<noteq> []"
  by (auto simp: is_clustered_def peers_def list_ex_iff filter_empty_conv)

lemma is_clustered_default [simp]: "\<not> is_clustered cluster_config_default"
  by (simp add: is_clustered_def cluster_config_default_def)

lemma cluster_load_default_none:
  "(\<forall>p \<in> set paths. \<forall>c. load_config read parse p \<noteq> Inr c) \<Longrightarrow>
     cluster_load_default read parse paths = cluster_config_default"
  by (induction paths) (auto split: sum.split config_error.split)

lemma cluster_load_default_first:
  "(\<forall>p \<in> set before. \<forall>c. load_config read parse p \<noteq> Inr c) \<Longrightarrow> load_config read parse p = Inr c \<Longrightarrow>
     cluster_load_default read parse (before @ p # after) = c"
  by (induction before) (auto split: sum.split config_error.split)

subsection \<open>The desktop of a session\<close>

record session_config =
  sn_wm :: string
  sn_panel :: "string option"
  sn_launcher :: "string option"
  sn_notifications :: "string option"
  sn_autostart :: "string list"

definition session_config_default :: session_config where
  "session_config_default =
     \<lparr> sn_wm = ''wr-wm-floating'', sn_panel = None, sn_launcher = None, sn_notifications = None,
       sn_autostart = [] \<rparr>"

definition session_config_path :: "string option \<Rightarrow> string option \<Rightarrow> string" where
  "session_config_path xdg_config_home home =
     (let base = (case xdg_config_home of
                    Some base \<Rightarrow> base
                  | None \<Rightarrow> path_join (case home of None \<Rightarrow> ''/tmp'' | Some h \<Rightarrow> h) ''.config'')
      in path_join (path_join base ''wayray'') ''session.toml'')"

definition session_load_default ::
  "(string \<Rightarrow> string option) \<Rightarrow> (string \<Rightarrow> session_config option) \<Rightarrow> string \<Rightarrow> session_config" where
  "session_load_default read parse path =
     (case load_config read parse path of
        Inr config \<Rightarrow> config
      | Inl e \<Rightarrow> session_config_default)"

definition opt_entry :: "string option \<Rightarrow> (string \<times> bool) list" where
  "opt_entry b = (case b of None \<Rightarrow> [] | Some x \<Rightarrow> [(x, False)])"

definition launch_list :: "session_config \<Rightarrow> (string \<times> bool) list" where
  "launch_list c =
     [(sn_wm c, True)] @ opt_entry (sn_panel c) @ opt_entry (sn_launcher c)
       @ opt_entry (sn_notifications c) @ map (\<lambda>app. (app, False)) (sn_autostart c)"

lemma launch_list_one_wm: "filter snd (launch_list c) = [(sn_wm c, True)]"
  by (auto simp: launch_list_def opt_entry_def filter_empty_conv split: option.split)

end
