(* ===== verification/Network.thy ===== *)
theory Network
  imports Cluster Registry "HOL-Library.Sublist"
begin

text \<open>
  The network thread of the server (\<open>crates/wrsrvd/src/network.rs\<close>): the classification of incoming
  connections, the handshake and relay loop of the one client being served, and the accept loop
  with preemption.  The thread is a state machine: an event is one resolution of a \<open>select!\<close>; it
  returns what is sent to the compositor and what is written to the client.  QUIC and the runtime
  are the source of the events; whether a stream accepts a write is an argument.
\<close>

subsection \<open>Messages between the threads\<close>

datatype compositor_to_net =
    SendFrame frame_update
  | SendKeyframe frame_update
  | SendControl control_message
  | SendAudio audio_message
  | Shutdown

record client_capabilities =
  cl_display :: bool
  cl_clipboard :: bool
  cl_audio :: bool

definition from_advertised :: "string list \<Rightarrow> client_capabilities" where
  "from_advertised advertised =
     \<lparr> cl_display = cap_DISPLAY \<in> set advertised, cl_clipboard = cap_CLIPBOARD \<in> set advertised,
       cl_audio = cap_AUDIO \<in> set advertised \<rparr>"

record session_binding =
  bi_session_id :: u64
  bi_resumed :: bool
  bi_token :: string

datatype connect_decision = Bind session_binding | Redirect string string

datatype net_to_compositor =
    Input input_message
  | Control control_message
  | ClientConnected client_hello string
  | ClientDisconnected

record server_config =
  sv_output_width :: u32
  sv_output_height :: u32
  sv_server_id :: string
  sv_capacity :: u32
  sv_cluster_secret :: string

definition server_config_default :: server_config where
  "server_config_default =
     \<lparr> sv_output_width = 1280, sv_output_height = 720, sv_server_id = '''', sv_capacity = of_nat DEFAULT_CAPACITY,
       sv_cluster_secret = '''' \<rparr>"

definition peer_authenticated :: "string \<Rightarrow> string \<Rightarrow> bool" where
  "peer_authenticated configured_secret auth \<longleftrightarrow> configured_secret \<noteq> '''' \<and> auth = configured_secret"

text \<open>What the compositor publishes for peers: the active-session count and the resumable tokens.\<close>

record published =
  pb_active_sessions :: u32
  pb_local_tokens :: "string list"

definition set_active_sessions :: "u32 \<Rightarrow> published \<Rightarrow> published" where
  "set_active_sessions n p = p\<lparr> pb_active_sessions := n \<rparr>"

definition set_local_tokens :: "string list \<Rightarrow> published \<Rightarrow> published" where
  "set_local_tokens ts p = p\<lparr> pb_local_tokens := fold hs_insert ts [] \<rparr>"

subsection \<open>Classification of connections\<close>

fun show_nat :: "nat \<Rightarrow> string" where
  "show_nat n = (if n < 10 then [char_of (48 + n)] else show_nat (n div 10) @ [char_of (48 + n mod 10)])"

declare show_nat.simps [simp del]

definition version_reason :: "u32 \<Rightarrow> string" where
  "version_reason v =
     ''client protocol version '' @ show_nat (unat v) @ '' is not supported by this server (supported: ''
       @ show_nat (unat MIN_PROTOCOL_VERSION) @ ''..='' @ show_nat (unat PROTOCOL_VERSION) @ '')''"

text \<open>\<open>reject_incompatible_client\<close>: the message written, and the code and reason of the close.\<close>

definition reject_incompatible_client :: "u32 \<Rightarrow> control_message \<times> (u32 \<times> string)" where
  "reject_incompatible_client v =
     (ProtocolError \<lparr> pe_code = VersionMismatch, pe_reason = version_reason v \<rparr>,
      (close_code_VERSION_MISMATCH, version_reason v))"

datatype classified =
    RoutedClient client_hello
  | Answered control_message
  | Refused
  | Incompatible control_message "u32 \<times> string"
  | ClassifyError

definition classify_connection ::
  "server_config \<Rightarrow> published \<Rightarrow> bool \<Rightarrow> control_message \<Rightarrow> classified" where
  "classify_connection cfg pub writable first =
     (case first of
        ClientHello hello \<Rightarrow>
          if \<not> version_compatible (ch_version hello)
          then (case reject_incompatible_client (ch_version hello) of (msg, close) \<Rightarrow> Incompatible msg close)
          else RoutedClient hello
      | ServerInfoRequest auth \<Rightarrow>
          if \<not> peer_authenticated (sv_cluster_secret cfg) auth then Refused
          else if writable
          then Answered (ServerInfo \<lparr> si_server_id = sv_server_id cfg,
                           si_active_sessions = pb_active_sessions pub, si_capacity = sv_capacity cfg \<rparr>)
          else ClassifyError
      | SessionLookupRequest token auth \<Rightarrow>
          if \<not> peer_authenticated (sv_cluster_secret cfg) auth then Refused
          else if writable
          then Answered (SessionLookupResponse \<lparr> sl_server_id = sv_server_id cfg,
                           sl_hosts = (token \<in> set (pb_local_tokens pub)) \<rparr>)
          else ClassifyError
      | _ \<Rightarrow> ClassifyError)"

subsection \<open>Serving a client\<close>

datatype client_out =
    OutControl control_message
  | OutDisplay display_message
  | OutAudio audio_message
  | OpenDisplay
  | OpenAudio

record streams_up =
  up_control :: bool
  up_display :: bool
  up_audio :: bool

text \<open>
  The handshake after the compositor has decided (\<open>None\<close>: it did not answer in time).  The result is
  what is written and whether the relay loop is entered; it is not when a write fails or the client
  is sent elsewhere.
\<close>

definition audio_announcement :: audio_message where
  "audio_announcement = AudioStart \<lparr> as_sample_rate = 48000, as_channels = 2, as_codec = PcmS16Le \<rparr>"

definition serve_handshake ::
  "server_config \<Rightarrow> client_capabilities \<Rightarrow> streams_up \<Rightarrow> connect_decision option \<Rightarrow> client_out list \<times> bool" where
  "serve_handshake cfg caps up decision =
     (case decision of
        None \<Rightarrow> ([], False)
      | Some (Redirect server addr) \<Rightarrow>
          (if up_control up then [OutControl (SessionRedirect server addr)] else [], False)
      | Some (Bind b) \<Rightarrow>
          if \<not> up_control up then ([], False)
          else let hello = [OutControl (ServerHello \<lparr> sh_version = PROTOCOL_VERSION, sh_session_id = bi_session_id b,
                              sh_output_width = sv_output_width cfg, sh_output_height = sv_output_height cfg,
                              sh_resumed = bi_resumed b, sh_token = bi_token b \<rparr>)]
                           @ (if bi_resumed b then [OutControl (SessionEvent (Resumed (bi_session_id b)))] else []);
                   display = (if cl_display caps then [OpenDisplay] else []);
                   audio = (if cl_audio caps then [OpenAudio, OutAudio audio_announcement] else [])
               in if cl_display caps \<and> \<not> up_display up then (hello, False)
                  else if cl_audio caps \<and> \<not> up_audio up then (hello @ display, False)
                  else (hello @ display @ audio, True))"

text \<open>
  \<open>check_compositor_commands\<close>: one pass over the channel.  The result is what is written, the new
  \<open>keyframe_seen\<close>, the rest of the channel and whether it returned, which ends the client's session.
\<close>

definition is_clipboard :: "control_message \<Rightarrow> bool" where
  "is_clipboard msg = (case msg of ClipboardOffer _ \<Rightarrow> True | ClipboardData _ \<Rightarrow> True | _ \<Rightarrow> False)"

fun check_compositor_commands ::
  "client_capabilities \<Rightarrow> streams_up \<Rightarrow> bool \<Rightarrow> compositor_to_net list
     \<Rightarrow> client_out list \<times> bool \<times> compositor_to_net list \<times> bool" where
  "check_compositor_commands caps up seen [] = ([], seen, [], False)"
| "check_compositor_commands caps up seen (SendFrame f # rest) =
     (if \<not> seen \<or> \<not> cl_display caps then check_compositor_commands caps up seen rest
      else if \<not> up_display up then ([], seen, rest, True)
      else let (outs, r) = check_compositor_commands caps up seen rest
           in (OutDisplay (FrameUpdate f) # outs, r))"
| "check_compositor_commands caps up seen (SendKeyframe f # rest) =
     (if \<not> cl_display caps then check_compositor_commands caps up True rest
      else if \<not> up_display up then ([], True, rest, True)
      else let (outs, r) = check_compositor_commands caps up True rest
           in (OutDisplay (FrameUpdate f) # outs, r))"
| "check_compositor_commands caps up seen (SendControl msg # rest) =
     (if is_clipboard msg \<and> \<not> cl_clipboard caps then check_compositor_commands caps up seen rest
      else if \<not> up_control up then ([], seen, rest, True)
      else let (outs, r) = check_compositor_commands caps up seen rest
           in (OutControl msg # outs, r))"
| "check_compositor_commands caps up seen (SendAudio msg # rest) =
     (if \<not> cl_audio caps then check_compositor_commands caps up seen rest
      else if \<not> up_audio up then ([], seen, rest, True)
      else let (outs, r) = check_compositor_commands caps up seen rest
           in (OutAudio msg # outs, r))"
| "check_compositor_commands caps up seen (Shutdown # rest) = ([], seen, rest, True)"

text \<open>\<open>check_shutdown_async\<close>: drains the channel up to a shutdown request.\<close>

fun check_shutdown :: "compositor_to_net list \<Rightarrow> compositor_to_net list \<times> bool" where
  "check_shutdown [] = ([], False)"
| "check_shutdown (Shutdown # rest) = (rest, True)"
| "check_shutdown (m # rest) = check_shutdown rest"

subsection \<open>The server loop\<close>

datatype net_phase =
    Idle
  | Deciding client_capabilities
  | Relaying client_capabilities bool bool  \<comment> \<open>input stream accepted, keyframe seen\<close>
  | Stopped

record net_state =
  nt_phase :: net_phase
  nt_queue :: "compositor_to_net list"

text \<open>
  The resolutions of the \<open>select!\<close>s.  \<open>NetClient\<close> is a routed client, whether it is waited for or
  preempts the one being served; \<open>None\<close> in a message event is a stream error.
\<close>

datatype net_event =
    NetQueue compositor_to_net
  | NetClient client_hello string
  | NetAcceptorStopped
  | NetDecision streams_up "connect_decision option"
  | NetAcceptInput bool
  | NetControl "control_message option"
  | NetInput "input_message option"
  | NetPoll streams_up

definition serving :: "net_phase \<Rightarrow> bool" where
  "serving ph = (case ph of Idle \<Rightarrow> False | Stopped \<Rightarrow> False | _ \<Rightarrow> True)"

definition session_ended :: "net_state \<Rightarrow> net_state \<times> net_to_compositor list \<times> client_out list" where
  "session_ended s = (s\<lparr> nt_phase := Idle \<rparr>, [ClientDisconnected], [])"

fun server_step ::
  "server_config \<Rightarrow> net_event \<Rightarrow> net_state \<Rightarrow> net_state \<times> net_to_compositor list \<times> client_out list" where
  "server_step cfg (NetQueue m) s = (s\<lparr> nt_queue := nt_queue s @ [m] \<rparr>, [], [])"
| "server_step cfg (NetClient hello addr) s =
     (if nt_phase s = Stopped then (s, [], [])
      else (s\<lparr> nt_phase := Deciding (from_advertised (ch_capabilities hello)) \<rparr>,
            (if serving (nt_phase s) then [ClientDisconnected] else []) @ [ClientConnected hello addr], []))"
| "server_step cfg NetAcceptorStopped s =
     (s\<lparr> nt_phase := Stopped \<rparr>, if serving (nt_phase s) then [ClientDisconnected] else [], [])"
| "server_step cfg (NetDecision up decision) s =
     (case nt_phase s of
        Deciding caps \<Rightarrow>
          (let (outs, relay) = serve_handshake cfg caps up decision in
           if relay then (s\<lparr> nt_phase := Relaying caps False False \<rparr>, [], outs)
           else case session_ended s of (s1, evs, _) \<Rightarrow> (s1, evs, outs))
      | _ \<Rightarrow> (s, [], []))"
| "server_step cfg (NetAcceptInput ok) s =
     (case nt_phase s of
        Relaying caps False seen \<Rightarrow>
          if ok then (s\<lparr> nt_phase := Relaying caps True seen \<rparr>, [], []) else session_ended s
      | _ \<Rightarrow> (s, [], []))"
| "server_step cfg (NetControl msg) s =
     (case nt_phase s of
        Relaying caps input seen \<Rightarrow>
          (case msg of Some m \<Rightarrow> (s, [Control m], []) | None \<Rightarrow> session_ended s)
      | _ \<Rightarrow> (s, [], []))"
| "server_step cfg (NetInput msg) s =
     (case nt_phase s of
        Relaying caps True seen \<Rightarrow>
          (case msg of Some m \<Rightarrow> (s, [Input m], []) | None \<Rightarrow> session_ended s)
      | _ \<Rightarrow> (s, [], []))"
| "server_step cfg (NetPoll up) s =
     (case nt_phase s of
        Idle \<Rightarrow>
          (let (rest, stop) = check_shutdown (nt_queue s) in
           (s\<lparr> nt_queue := rest, nt_phase := if stop then Stopped else Idle \<rparr>, [], []))
      | Relaying caps input seen \<Rightarrow>
          (let (outs, seen1, rest, returned) = check_compositor_commands caps up seen (nt_queue s);
               s1 = s\<lparr> nt_queue := rest, nt_phase := Relaying caps input seen1 \<rparr>
           in if returned then (case session_ended s1 of (s2, evs, _) \<Rightarrow> (s2, evs, outs))
              else (s1, [], outs))
      | _ \<Rightarrow> (s, [], []))"

definition net_initial :: net_state where
  "net_initial = \<lparr> nt_phase = Idle, nt_queue = [] \<rparr>"

fun server_run ::
  "server_config \<Rightarrow> net_event list \<Rightarrow> net_state \<Rightarrow> net_state \<times> net_to_compositor list \<times> client_out list" where
  "server_run cfg [] s = (s, [], [])"
| "server_run cfg (e # es) s =
     (let (s1, evs, outs) = server_step cfg e s; (s2, evs2, outs2) = server_run cfg es s1
      in (s2, evs @ evs2, outs @ outs2))"

subsection \<open>Probing a peer\<close>

text \<open>
  A probe of a peer: the certificate the peer presents (\<open>None\<close>: it cannot be reached in time), what
  writing its pin to the \<open>known_hosts\<close> file does, and its answer to the request.
\<close>

record peer_reply =
  pr_cert :: "bytes option"
  pr_write :: write_result
  pr_answer :: "control_message \<Rightarrow> control_message option"

definition peer_exchange ::
  "(bytes \<Rightarrow> bytes) \<Rightarrow> pin_policy \<Rightarrow> peer_reply \<Rightarrow> control_message \<Rightarrow> pin_store
     \<Rightarrow> pin_store \<times> control_message option" where
  "peer_exchange sha256 policy peer request pins =
     (case pr_cert peer of
        None \<Rightarrow> (pins, None)
      | Some cert \<Rightarrow>
          (case check_pin sha256 policy False (pr_write peer) cert pins of
             (pins1, Inl e) \<Rightarrow> (pins1, None)
           | (pins1, Inr _) \<Rightarrow> (pins1, pr_answer peer request)))"

definition query_peer_info ::
  "(bytes \<Rightarrow> bytes) \<Rightarrow> peer_reply \<Rightarrow> string \<Rightarrow> pin_policy \<Rightarrow> pin_store \<Rightarrow> pin_store \<times> server_info_msg option" where
  "query_peer_info sha256 peer auth policy pins =
     (case peer_exchange sha256 policy peer (ServerInfoRequest auth) pins of
        (pins1, Some (ServerInfo info)) \<Rightarrow> (pins1, Some info)
      | (pins1, _) \<Rightarrow> (pins1, None))"

definition query_peer_for_token ::
  "(bytes \<Rightarrow> bytes) \<Rightarrow> peer_reply \<Rightarrow> string \<Rightarrow> string \<Rightarrow> pin_policy \<Rightarrow> pin_store \<Rightarrow> pin_store \<times> string option" where
  "query_peer_for_token sha256 peer token auth policy pins =
     (case peer_exchange sha256 policy peer (SessionLookupRequest token auth) pins of
        (pins1, Some (SessionLookupResponse r)) \<Rightarrow> (pins1, if sl_hosts r then Some (sl_server_id r) else None)
      | (pins1, _) \<Rightarrow> (pins1, None))"

subsection \<open>What the compositor sees\<close>

text \<open>
  The events of a client lie between its connect and its disconnect: \<open>session_trace c evs\<close> says that
  they do when a client is connected at the start exactly if \<open>c\<close>.
\<close>

fun session_trace :: "bool \<Rightarrow> net_to_compositor list \<Rightarrow> bool" where
  "session_trace c [] = True"
| "session_trace c (ClientConnected hello addr # es) = (\<not> c \<and> session_trace True es)"
| "session_trace c (ClientDisconnected # es) = (c \<and> session_trace False es)"
| "session_trace c (Input m # es) = (c \<and> session_trace c es)"
| "session_trace c (Control m # es) = (c \<and> session_trace c es)"

fun connected_after :: "bool \<Rightarrow> net_to_compositor list \<Rightarrow> bool" where
  "connected_after c [] = c"
| "connected_after c (ClientConnected hello addr # es) = connected_after True es"
| "connected_after c (ClientDisconnected # es) = connected_after False es"
| "connected_after c (e # es) = connected_after c es"

lemma session_trace_append:
  "session_trace c (xs @ ys) \<longleftrightarrow> session_trace c xs \<and> session_trace (connected_after c xs) ys"
proof (induction xs arbitrary: c)
  case (Cons e xs)
  show ?case by (cases e) (simp_all add: Cons.IH)
qed simp

lemma connected_after_append: "connected_after c (xs @ ys) = connected_after (connected_after c xs) ys"
proof (induction xs arbitrary: c)
  case (Cons e xs)
  show ?case by (cases e) (simp_all add: Cons.IH)
qed simp

lemma session_trace_step:
  assumes "server_step cfg e s = (s1, evs, outs)"
  shows "session_trace (serving (nt_phase s)) evs"
    and "connected_after (serving (nt_phase s)) evs = serving (nt_phase s1)"
proof -
  have "session_trace (serving (nt_phase s)) evs \<and> connected_after (serving (nt_phase s)) evs = serving (nt_phase s1)"
  proof (cases e)
    case (NetPoll up)
    then show ?thesis using assms
      by (cases "nt_phase s") (auto simp: serving_def session_ended_def Let_def split: prod.splits if_splits)
  next
    case (NetDecision up d)
    then show ?thesis using assms
      by (cases "nt_phase s") (auto simp: serving_def session_ended_def Let_def split: prod.splits if_splits)
  next
    case (NetAcceptInput ok)
    then show ?thesis using assms
      by (auto simp: serving_def session_ended_def split: net_phase.splits bool.splits if_splits)
  next
    case (NetInput m)
    then show ?thesis using assms
      by (auto simp: serving_def session_ended_def split: net_phase.splits bool.splits option.splits)
  next
    case (NetControl m)
    then show ?thesis using assms
      by (auto simp: serving_def session_ended_def split: net_phase.splits option.splits)
  qed (use assms in \<open>auto simp: serving_def split: if_splits\<close>)
  then show "session_trace (serving (nt_phase s)) evs"
    "connected_after (serving (nt_phase s)) evs = serving (nt_phase s1)" by blast+
qed

text \<open>
  Whatever the network does, the compositor sees well-bracketed sessions: connect and disconnect
  alternate, also when a newcomer preempts a client that is being served or still waits for its
  binding, input and control messages arrive only in between, and a client is connected exactly
  while one is being served.
\<close>
theorem sessions_alternate:
  "case server_run cfg es net_initial of (s, evs, outs) \<Rightarrow>
     session_trace False evs \<and> connected_after False evs = serving (nt_phase s)"
proof -
  have "session_trace (serving (nt_phase s0)) evs \<and> connected_after (serving (nt_phase s0)) evs = serving (nt_phase s)"
    if "server_run cfg es s0 = (s, evs, outs)" for s0 s evs outs
    using that
  proof (induction es arbitrary: s0 s evs outs)
    case (Cons e es)
    obtain s1 evs1 outs1 where 1: "server_step cfg e s0 = (s1, evs1, outs1)" by (metis prod_cases3)
    obtain s2 evs2 outs2 where 2: "server_run cfg es s1 = (s2, evs2, outs2)" by (metis prod_cases3)
    from Cons.prems have "evs = evs1 @ evs2" "s = s2" by (simp_all add: 1 2)
    with Cons.IH [OF 2] session_trace_step [OF 1] show ?case
      by (simp add: session_trace_append connected_after_append)
  qed simp
  from this [of net_initial] show ?thesis
    by (auto simp: net_initial_def serving_def split: prod.split)
qed

subsection \<open>What the client sees\<close>

definition display_frames :: "client_out list \<Rightarrow> frame_update list" where
  "display_frames outs = List.map_filter
     (\<lambda>out. case out of OutDisplay (FrameUpdate f) \<Rightarrow> Some f | _ \<Rightarrow> None) outs"

lemma display_frames_simps [simp]:
  "display_frames [] = []"
  "display_frames (OutDisplay (FrameUpdate f) # outs) = f # display_frames outs"
  "display_frames (OutControl m # outs) = display_frames outs"
  "display_frames (OutAudio a # outs) = display_frames outs"
  "display_frames (OpenDisplay # outs) = display_frames outs"
  "display_frames (OpenAudio # outs) = display_frames outs"
  by (simp_all add: display_frames_def List.map_filter_simps)

lemma display_frames_append [simp]: "display_frames (xs @ ys) = display_frames xs @ display_frames ys"
  by (simp add: display_frames_def List.map_filter_def)

definition is_keyframe :: "compositor_to_net \<Rightarrow> bool" where
  "is_keyframe m = (case m of SendKeyframe _ \<Rightarrow> True | _ \<Rightarrow> False)"

definition frame_of :: "compositor_to_net \<Rightarrow> frame_update option" where
  "frame_of m = (case m of SendKeyframe f \<Rightarrow> Some f | SendFrame f \<Rightarrow> Some f | _ \<Rightarrow> None)"

text \<open>The frames of a channel from its first keyframe on.\<close>

definition frames_from_keyframe :: "compositor_to_net list \<Rightarrow> frame_update list" where
  "frames_from_keyframe q = List.map_filter frame_of (dropWhile (\<lambda>m. \<not> is_keyframe m) q)"

definition live_frames :: "bool \<Rightarrow> compositor_to_net list \<Rightarrow> frame_update list" where
  "live_frames seen q = (if seen then List.map_filter frame_of q else frames_from_keyframe q)"

lemma live_frames_simps [simp]:
  "live_frames seen [] = []"
  "live_frames seen (SendFrame f # q) = (if seen then f # live_frames True q else live_frames False q)"
  "live_frames seen (SendKeyframe f # q) = f # live_frames True q"
  "live_frames seen (SendControl m # q) = live_frames seen q"
  "live_frames seen (SendAudio a # q) = live_frames seen q"
  "live_frames seen (Shutdown # q) = live_frames seen q"
  by (simp_all add: live_frames_def frames_from_keyframe_def is_keyframe_def frame_of_def List.map_filter_simps)

lemma check_commands_all:
  "cl_display caps \<Longrightarrow>
     (case check_compositor_commands caps up seen q of (outs, seen1, rest, returned) \<Rightarrow>
        if returned then prefix (display_frames outs) (live_frames seen (q @ p))
        else live_frames seen (q @ p) = display_frames outs @ live_frames seen1 (rest @ p))"
  by (induction caps up seen q rule: check_compositor_commands.induct) (auto split: prod.splits if_splits)

lemma check_commands_frames:
  "check_compositor_commands caps up seen q = (outs, seen1, rest, returned) \<Longrightarrow> cl_display caps \<Longrightarrow>
     (if returned then prefix (display_frames outs) (live_frames seen (q @ p))
      else live_frames seen (q @ p) = display_frames outs @ live_frames seen1 (rest @ p))"
  using check_commands_all [where caps = caps and up = up and seen = seen and q = q and p = p] by simp

lemma check_commands_no_display:
  "\<not> cl_display caps \<Longrightarrow> display_frames (fst (check_compositor_commands caps up seen q)) = []"
  by (induction caps up seen q rule: check_compositor_commands.induct) (auto split: prod.splits if_splits)

definition pushed :: "net_event list \<Rightarrow> compositor_to_net list" where
  "pushed es = List.map_filter (\<lambda>e. case e of NetQueue m \<Rightarrow> Some m | _ \<Rightarrow> None) es"

lemma pushed_simps [simp]:
  "pushed [] = []" "pushed (NetQueue m # es) = m # pushed es"
  "pushed (NetClient h a # es) = pushed es" "pushed (NetAcceptorStopped # es) = pushed es"
  "pushed (NetDecision up d # es) = pushed es" "pushed (NetAcceptInput b # es) = pushed es"
  "pushed (NetControl c # es) = pushed es" "pushed (NetInput i # es) = pushed es"
  "pushed (NetPoll up # es) = pushed es"
  by (simp_all add: pushed_def List.map_filter_simps)

fun another_client :: "net_event \<Rightarrow> bool" where
  "another_client (NetClient h a) = True"
| "another_client e = False"

text \<open>The frames one connection may still show, in each phase.\<close>

definition to_show :: "net_state \<Rightarrow> compositor_to_net list \<Rightarrow> frame_update list" where
  "to_show s p =
     (case nt_phase s of
        Deciding caps \<Rightarrow> if cl_display caps then live_frames False (nt_queue s @ p) else []
      | Relaying caps input seen \<Rightarrow> if cl_display caps then live_frames seen (nt_queue s @ p) else []
      | _ \<Rightarrow> [])"

lemma handshake_frames [simp]: "display_frames (fst (serve_handshake cfg caps up d)) = []"
  by (auto simp: serve_handshake_def Let_def split: option.split connect_decision.split)

lemma to_show_step:
  assumes "server_step cfg e s = (s1, evs, outs)" "\<not> another_client e"
  shows "prefix (display_frames outs @ to_show s1 p) (to_show s (pushed [e] @ p))"
proof (cases e)
  case (NetDecision up d)
  have "display_frames o1 = []" if "serve_handshake cfg caps up d = (o1, b)" for caps o1 b
    using handshake_frames [of cfg caps up d] that by simp
  with assms NetDecision show ?thesis
    by (auto simp: to_show_def session_ended_def Let_def split: net_phase.splits prod.splits if_splits)
next
  case (NetPoll up)
  show ?thesis
  proof (cases "nt_phase s")
    case (Relaying caps input seen)
    obtain o1 seen1 rest ret where c: "check_compositor_commands caps up seen (nt_queue s) = (o1, seen1, rest, ret)"
      by (metis prod_cases4)
    with assms(1) NetPoll Relaying have o: "outs = o1"
      and s1: "s1 = (if ret then s\<lparr> nt_queue := rest, nt_phase := Idle \<rparr>
                     else s\<lparr> nt_queue := rest, nt_phase := Relaying caps input seen1 \<rparr>)"
      by (auto simp: session_ended_def Let_def split: if_splits)
    show ?thesis
    proof (cases "cl_display caps")
      case True
      from check_commands_frames [OF c this, of p] show ?thesis
        by (auto simp: to_show_def Relaying True o s1 NetPoll)
    next
      case False
      from check_commands_no_display [OF this, of up seen "nt_queue s"] show ?thesis
        by (simp add: c to_show_def Relaying False o s1 NetPoll)
    qed
  qed (use assms NetPoll in \<open>auto simp: to_show_def split_beta\<close>)
qed (use assms in \<open>auto simp: to_show_def session_ended_def
      split: net_phase.splits option.splits bool.splits if_splits\<close>)

lemma to_show_run:
  "server_run cfg es s = (s1, evs, outs) \<Longrightarrow> list_all (\<lambda>e. \<not> another_client e) es \<Longrightarrow>
     prefix (display_frames outs @ to_show s1 p) (to_show s (pushed es @ p))"
proof (induction es arbitrary: s s1 evs outs)
  case (Cons e es)
  obtain t evs1 outs1 where 1: "server_step cfg e s = (t, evs1, outs1)" by (metis prod_cases3)
  obtain s2 evs2 outs2 where 2: "server_run cfg es t = (s2, evs2, outs2)" by (metis prod_cases3)
  from Cons.prems have o: "outs = outs1 @ outs2" "s1 = s2" by (simp_all add: 1 2)
  have "prefix (display_frames outs1 @ to_show t (pushed es @ p)) (to_show s (pushed [e] @ pushed es @ p))"
    using to_show_step [OF 1] Cons.prems(2) by simp
  moreover have "prefix (display_frames outs2 @ to_show s1 p) (to_show t (pushed es @ p))"
    using Cons.IH [OF 2] Cons.prems(2) o by simp
  moreover have "pushed (e # es) = pushed [e] @ pushed es" by (cases e) simp_all
  ultimately show ?case
    by (simp add: o(1)) (metis (no_types, lifting) prefix_order.trans same_prefix_prefix)
qed simp

lemma connection_frames:
  assumes "nt_phase s \<noteq> Stopped" "server_run cfg (NetClient hello addr # es) s = (s1, evs, outs)"
    and "list_all (\<lambda>e. \<not> another_client e) es"
  shows "prefix (display_frames outs)
           (if cap_DISPLAY \<in> set (ch_capabilities hello) then frames_from_keyframe (nt_queue s @ pushed es) else [])"
proof -
  let ?caps = "from_advertised (ch_capabilities hello)"
  obtain evs2 where run: "server_run cfg es (s\<lparr> nt_phase := Deciding ?caps \<rparr>) = (s1, evs2, outs)"
    using assms(1,2) by (auto split: prod.splits if_splits)
  from to_show_run [OF run assms(3), of "[]"]
  have "prefix (display_frames outs) (to_show (s\<lparr> nt_phase := Deciding ?caps \<rparr>) (pushed es))"
    by (metis append_prefixD append_Nil2)
  then show ?thesis
    by (simp add: to_show_def live_frames_def from_advertised_def split: if_splits)
qed

text \<open>
  The frames one connection shows.  From the moment a client arrives until it leaves, what is
  written to its display stream is a gap-free prefix of the frames the compositor queued, starting
  at the first keyframe: deltas left over from the previous connection never reach it, nothing is
  dropped or reordered after the keyframe, and a client without the display capability gets none.
\<close>
theorem connection_starts_at_keyframe:
  assumes "nt_phase s \<noteq> Stopped" "server_run cfg (NetClient hello addr # es) s = (s1, evs, outs)"
    and "list_all (\<lambda>e. \<not> another_client e) es"
  shows "prefix (display_frames outs)
           (if cap_DISPLAY \<in> set (ch_capabilities hello) then frames_from_keyframe (nt_queue s @ pushed es) else [])"
  by (rule connection_frames [OF assms])

definition sample_frame :: "nat \<Rightarrow> frame_update" where
  "sample_frame n = \<lparr> fu_sequence = of_nat n, fu_regions = [], fu_checksum = 0 \<rparr>"

definition all_up :: streams_up where
  "all_up = \<lparr> up_control = True, up_display = True, up_audio = True \<rparr>"

definition display_hello :: client_hello where
  "display_hello = \<lparr> ch_version = PROTOCOL_VERSION, ch_capabilities = [cap_DISPLAY], ch_token = None \<rparr>"

theorem connection_starts_at_keyframe_witness:
  "let es = [NetQueue (SendKeyframe (sample_frame 8)), NetQueue (SendFrame (sample_frame 9)),
             NetDecision all_up (Some (Bind \<lparr> bi_session_id = 1, bi_resumed = False, bi_token = ''t'' \<rparr>)), NetPoll all_up];
       (s1, evs, outs) = server_run server_config_default (NetClient display_hello ''a'' # es)
                           \<lparr> nt_phase = Idle, nt_queue = [SendFrame (sample_frame 7)] \<rparr>
   in prefix (display_frames outs) [sample_frame 8, sample_frame 9] \<and> display_frames outs \<noteq> []"
proof -
  let ?es = "[NetQueue (SendKeyframe (sample_frame 8)), NetQueue (SendFrame (sample_frame 9)),
             NetDecision all_up (Some (Bind \<lparr> bi_session_id = 1, bi_resumed = False, bi_token = ''t'' \<rparr>)), NetPoll all_up]"
  let ?s = "\<lparr> nt_phase = Idle, nt_queue = [SendFrame (sample_frame 7)] \<rparr>"
  obtain s1 evs outs where run: "server_run server_config_default (NetClient display_hello ''a'' # ?es) ?s = (s1, evs, outs)"
    by (metis prod_cases3)
  have "nt_phase ?s \<noteq> Stopped" "list_all (\<lambda>e. \<not> another_client e) ?es" by simp_all
  note p = connection_starts_at_keyframe [OF this(1) run this(2)]
  have "cap_DISPLAY \<in> set (ch_capabilities display_hello)" by (simp add: display_hello_def)
  moreover have "frames_from_keyframe (nt_queue ?s @ pushed ?es) = [sample_frame 8, sample_frame 9]"
    by (simp add: frames_from_keyframe_def is_keyframe_def frame_of_def List.map_filter_simps)
  moreover have "display_frames outs \<noteq> []"
    using run by (auto simp: serving_def serve_handshake_def all_up_def from_advertised_def display_hello_def Let_def
        cap_DISPLAY_def cap_CLIPBOARD_def cap_AUDIO_def)
  ultimately show ?thesis unfolding Let_def run prod.case using p by simp
qed

subsection \<open>Probes\<close>

text \<open>
  No token oracle.  A peer probe is answered exactly when a cluster secret is configured and the
  probe carries it, and the answer to a lookup is whether the token is published; without the
  secret the outcome is the same whatever tokens and load the server has.  A \<open>ClientHello\<close> of an
  unsupported version is told why and never becomes a client, so it cannot preempt the one being
  served.
\<close>
theorem probes_authenticated:
  "(classify_connection cfg pub True (SessionLookupRequest token auth) =
      (if sv_cluster_secret cfg \<noteq> '''' \<and> auth = sv_cluster_secret cfg
       then Answered (SessionLookupResponse \<lparr> sl_server_id = sv_server_id cfg,
                         sl_hosts = (token \<in> set (pb_local_tokens pub)) \<rparr>)
       else Refused))
   \<and> (\<not> peer_authenticated (sv_cluster_secret cfg) auth \<longrightarrow>
        classify_connection cfg pub w (SessionLookupRequest token auth)
          = classify_connection cfg pub' w' (SessionLookupRequest token' auth)
      \<and> classify_connection cfg pub w (ServerInfoRequest auth) = classify_connection cfg pub' w' (ServerInfoRequest auth))
   \<and> (\<forall>hello. classify_connection cfg pub w first = RoutedClient hello \<longleftrightarrow>
        first = ClientHello hello \<and> version_compatible (ch_version hello))
   \<and> (\<not> version_compatible (ch_version h) \<longrightarrow>
        (\<exists>r. classify_connection cfg pub w (ClientHello h)
           = Incompatible (ProtocolError \<lparr> pe_code = VersionMismatch, pe_reason = r \<rparr>) (close_code_VERSION_MISMATCH, r)))"
  by (auto simp: classify_connection_def peer_authenticated_def reject_incompatible_client_def
      split: control_message.split)

definition nothing_published :: published where
  "nothing_published = \<lparr> pb_active_sessions = 0, pb_local_tokens = [] \<rparr>"

theorem probes_authenticated_witness:
  "classify_connection server_config_default nothing_published True (SessionLookupRequest ''t'' '''') = Refused
   \<and> classify_connection server_config_default nothing_published True (ClientHello (display_hello\<lparr> ch_version := 99 \<rparr>))
       \<noteq> RoutedClient (display_hello\<lparr> ch_version := 99 \<rparr>)"
proof -
  have v: "\<not> version_compatible 99" by (simp add: version_compatible_def PROTOCOL_VERSION_def MIN_PROTOCOL_VERSION_def)
  have "sv_cluster_secret server_config_default = ''''" by (simp add: server_config_default_def)
  with v show ?thesis
    using probes_authenticated [of server_config_default nothing_published "''t''" "''''" True nothing_published True "''t''"
        "ClientHello (display_hello\<lparr> ch_version := 99 \<rparr>)" display_hello]
    by simp
qed

subsection \<open>Shutdown\<close>

definition no_shutdown :: "compositor_to_net list \<Rightarrow> bool" where
  "no_shutdown q \<longleftrightarrow> Shutdown \<notin> set q"

lemma check_shutdown_none: "no_shutdown q \<Longrightarrow> check_shutdown q = ([], False)"
  by (induction q rule: check_shutdown.induct) (auto simp: no_shutdown_def)

lemma check_commands_shutdown:
  "no_shutdown q1 \<Longrightarrow> up = all_up \<Longrightarrow>
     (case check_compositor_commands caps up seen (q1 @ Shutdown # q2) of
        (outs, seen1, rest, returned) \<Rightarrow> returned \<and> rest = q2)"
  by (induction caps up seen q1 rule: check_compositor_commands.induct)
    (auto simp: no_shutdown_def all_up_def split: prod.splits)

text \<open>
  C28.  A shutdown request is lost while a client is served: the relay loop takes it from the channel and
  ends the client's session only, and the server loop then waits for the next client; no number of
  further polls stops it.  (\<open>NetworkHandle::shutdown\<close> joins the thread right after this one request.)
\<close>
theorem shutdown_lost_while_serving:
  assumes "nt_phase s = Relaying caps input seen" "nt_queue s = q1 @ Shutdown # q2"
    and "no_shutdown q1" "no_shutdown q2"
  shows "case server_run cfg (NetPoll all_up # map NetPoll ups) s of
           (s1, evs, outs) \<Rightarrow> nt_phase s1 = Idle \<and> evs = [ClientDisconnected]"
proof -
  obtain outs seen1 where c: "check_compositor_commands caps all_up seen (q1 @ Shutdown # q2) = (outs, seen1, q2, True)"
    using check_commands_shutdown [where caps = caps and seen = seen and ?q2.0 = q2, OF assms(3) refl] by (auto split: prod.splits)
  have idle: "case server_run cfg (map NetPoll ups) t of (t1, evs, outs) \<Rightarrow> nt_phase t1 = Idle \<and> evs = []"
    if "nt_phase t = Idle" "no_shutdown (nt_queue t)" for t
    using that
  proof (induction ups arbitrary: t)
    case (Cons u us)
    have "no_shutdown (nt_queue (t\<lparr> nt_queue := [], nt_phase := Idle \<rparr>))" by (simp add: no_shutdown_def)
    from Cons.IH [OF _ this] Cons.prems show ?case
      by (auto simp: check_shutdown_none split: prod.splits)
  qed simp
  from idle [of "s\<lparr> nt_queue := q2, nt_phase := Idle \<rparr>"] assms(4) show ?thesis
    by (auto simp: assms(1,2) c session_ended_def Let_def split: prod.splits)
qed

theorem shutdown_lost_while_serving_witness:
  "case server_run server_config_default [NetPoll all_up, NetPoll all_up, NetPoll all_up]
          \<lparr> nt_phase = Relaying (from_advertised [cap_DISPLAY]) True True, nt_queue = [Shutdown] \<rparr> of
     (s1, evs, outs) \<Rightarrow> nt_phase s1 = Idle \<and> evs = [ClientDisconnected]"
proof -
  let ?s = "\<lparr> nt_phase = Relaying (from_advertised [cap_DISPLAY]) True True, nt_queue = [Shutdown] \<rparr>"
  have "nt_phase ?s = Relaying (from_advertised [cap_DISPLAY]) True True" "nt_queue ?s = [] @ Shutdown # []"
    "no_shutdown []" by (simp_all add: no_shutdown_def)
  from shutdown_lost_while_serving [OF this(1,2) this(3) this(3), of server_config_default "[all_up, all_up]"]
  show ?thesis by (simp only: list.map)
qed

end
