(* ===== verification/Headless.thy ===== *)
theory Headless
  imports Network Restart Compositor Encoding
begin

text \<open>
  The headless backend (\<open>crates/wrsrvd/src/backend/headless.rs\<close>): the main loop's state, the events of
  the network thread, the placement of sessions in a cluster, admin queries, the periodic cleanup,
  and the encoding of frames.  The renderer is not modelled: a frame is its pixels and the damage
  it reports.
\<close>

subsection \<open>State and surroundings\<close>

text \<open>A rectangle: x, y, width, height.\<close>

type_synonym rect = "int \<times> int \<times> int \<times> int"

text \<open>A solid-color buffer; \<open>bb_commit\<close> counts its updates, which is how the damage tracker sees a change.\<close>

record border_buffer =
  bb_size :: "int \<times> int"
  bb_color :: "rat list"
  bb_commit :: nat

type_synonym border_buffers = "(window_id, border_buffer list) hashmap"

record headless =
  hd_state :: compositor
  hd_previous_frame :: bytes
  hd_frame_sequence :: u64
  hd_client_connected :: bool
  hd_force_keyframe :: bool
  hd_frames_since_keyframe :: u32
  hd_registry :: registry
  hd_active_session :: "session_id option"
  hd_cluster :: cluster_config
  hd_peer_rt :: bool
  hd_peer_pin_store :: pin_store
  hd_border_buffers :: border_buffers
  hd_launcher :: bool
  hd_connected_client_addr :: "string option"
  hd_server_started :: instant
  hd_published :: published

text \<open>
  What an operation takes from its surroundings: the clock, SHA-256, which addresses parse, whether
  the probe deadline has passed before the n-th candidate, the peers by address, 16 random bytes,
  and the hit test of the space.
\<close>

record surroundings =
  en_clock :: clock
  en_sha256 :: "bytes \<Rightarrow> bytes"
  en_addr_ok :: "string \<Rightarrow> bool"
  en_late :: "nat \<Rightarrow> bool"
  en_peer :: "string \<Rightarrow> peer_reply"
  en_random :: bytes
  en_hit :: "space \<Rightarrow> f64 \<times> f64 \<Rightarrow> win option"

datatype headless_out =
    SeatEvent seat_out
  | Reply connect_decision
  | LauncherSessionCreated string
  | LauncherSessionDestroyed string session_id
  | ToNet compositor_to_net
  | AdminReply admin_response

text \<open>
  The state \<open>run\<close> builds.  \<open>db\<close> is the database option: \<open>None\<close> without one, \<open>Some opened\<close> with the store
  or the failure to open it; \<open>built\<close>: the runtime for peer queries could be built.
\<close>

definition headless_start ::
  "clock \<Rightarrow> compositor \<Rightarrow> nat \<Rightarrow> cluster_config \<Rightarrow> store option option \<Rightarrow> bool \<Rightarrow> pin_store \<Rightarrow> bool \<Rightarrow> headless" where
  "headless_start ck st frame_size cluster db built pins launcher =
     (let registry = with_cluster (cc_local_id cluster) DEFAULT_CAPACITY in
      \<lparr> hd_state = st\<lparr> cp_clipboard_tx := True \<rparr>, hd_previous_frame = replicate frame_size 0,
        hd_frame_sequence = 0, hd_client_connected = False, hd_force_keyframe = False,
        hd_frames_since_keyframe = 0,
        hd_registry = (case db of None \<Rightarrow> registry | Some opened \<Rightarrow> enable_persistence ck opened registry),
        hd_active_session = None, hd_cluster = cluster, hd_peer_rt = (is_clustered cluster \<and> built),
        hd_peer_pin_store = pins, hd_border_buffers = [], hd_launcher = launcher, hd_connected_client_addr = None,
        hd_server_started = ck_now ck,
        hd_published = \<lparr> pb_active_sessions = 0, pb_local_tokens = [] \<rparr> \<rparr>)"

subsection \<open>Placement in the cluster\<close>

definition LOAD_REDIRECT_THRESHOLD :: rat where
  "LOAD_REDIRECT_THRESHOLD = 9 / 10"

definition peer_pin_policy :: "cluster_config \<Rightarrow> string \<Rightarrow> string \<Rightarrow> pin_policy" where
  "peer_pin_policy cluster server_id addr =
     (case fingerprint_of server_id cluster of Some fp \<Rightarrow> Fixed fp | None \<Rightarrow> Tofu addr)"

definition candidates :: "cluster_config \<Rightarrow> (string \<times> string) list" where
  "candidates c = map (\<lambda>s. (sv_id s, sv_addr s)) (peers c)"

fun lookup_candidates ::
  "surroundings \<Rightarrow> cluster_config \<Rightarrow> session_token \<Rightarrow> nat \<Rightarrow> (string \<times> string) list \<Rightarrow> pin_store
     \<Rightarrow> pin_store \<times> string option" where
  "lookup_candidates env cluster token n [] pins = (pins, None)"
| "lookup_candidates env cluster token n ((i, addr) # rest) pins =
     (if en_late env n then (pins, None)
      else if \<not> en_addr_ok env addr then lookup_candidates env cluster token (n + 1) rest pins
      else case query_peer_for_token (en_sha256 env) (en_peer env addr) token (cc_cluster_secret cluster)
                  (peer_pin_policy cluster i addr) pins of
             (pins1, Some server_id) \<Rightarrow> (pins1, Some server_id)
           | (pins1, None) \<Rightarrow> lookup_candidates env cluster token (n + 1) rest pins1)"

definition discover_remote_home :: "surroundings \<Rightarrow> session_token \<Rightarrow> headless \<Rightarrow> headless \<times> string option" where
  "discover_remote_home env token h =
     (let cluster = hd_cluster h in
      if \<not> is_clustered cluster \<or> cc_cluster_secret cluster = '''' \<or> \<not> hd_peer_rt h then (h, None)
      else case lookup_candidates env cluster token 0 (candidates cluster) (hd_peer_pin_store h) of
             (pins, home) \<Rightarrow> (h\<lparr> hd_peer_pin_store := pins \<rparr>, home))"

record peer_load =
  pl_index :: nat
  pl_load_factor :: rat
  pl_weight :: u32

definition load_score :: "peer_load \<Rightarrow> rat" where
  "load_score p = pl_load_factor p / rat_of_nat (max (unat (pl_weight p)) 1)"

text \<open>\<open>Iterator::min_by\<close>: the first of several minima.\<close>

fun min_by_score :: "peer_load list \<Rightarrow> peer_load option" where
  "min_by_score [] = None"
| "min_by_score (p # ps) =
     (case min_by_score ps of
        None \<Rightarrow> Some p
      | Some q \<Rightarrow> if load_score q < load_score p then Some q else Some p)"

definition select_least_loaded_peer :: "peer_load list \<Rightarrow> nat option" where
  "select_least_loaded_peer ps = map_option pl_index (min_by_score (filter (\<lambda>p. pl_load_factor p < 1) ps))"

fun probe_loads ::
  "surroundings \<Rightarrow> cluster_config \<Rightarrow> nat \<Rightarrow> (string \<times> string) list \<Rightarrow> pin_store \<Rightarrow> pin_store \<times> peer_load list" where
  "probe_loads env cluster n [] pins = (pins, [])"
| "probe_loads env cluster n ((i, addr) # rest) pins =
     (if en_late env n then (pins, [])
      else if \<not> en_addr_ok env addr then probe_loads env cluster (n + 1) rest pins
      else let weight = (case cluster_server i cluster of None \<Rightarrow> 1 | Some s \<Rightarrow> sv_weight s);
               (pins1, answer) = query_peer_info (en_sha256 env) (en_peer env addr) (cc_cluster_secret cluster)
                                   (peer_pin_policy cluster i addr) pins;
               (pins2, loads) = probe_loads env cluster (n + 1) rest pins1
           in (pins2, (case answer of None \<Rightarrow> []
                       | Some info \<Rightarrow>
                           [\<lparr> pl_index = n,
                              pl_load_factor = rat_of_nat (unat (si_active_sessions info))
                                / rat_of_nat (max (unat (si_capacity info)) 1),
                              pl_weight = weight \<rparr>]) @ loads))"

definition pick_peer_for_new_session :: "surroundings \<Rightarrow> headless \<Rightarrow> headless \<times> (string \<times> string) option" where
  "pick_peer_for_new_session env h =
     (let cluster = hd_cluster h; local_load = load_factor (hd_registry h) in
      if \<not> is_clustered cluster \<or> local_load \<le> LOAD_REDIRECT_THRESHOLD \<or> cc_cluster_secret cluster = ''''
         \<or> \<not> hd_peer_rt h then (h, None)
      else case probe_loads env cluster 0 (candidates cluster) (hd_peer_pin_store h) of
             (pins, loads) \<Rightarrow>
               (h\<lparr> hd_peer_pin_store := pins \<rparr>,
                case select_least_loaded_peer loads of
                  None \<Rightarrow> None
                | Some best \<Rightarrow>
                    (case iter_find (\<lambda>p. pl_index p = best) loads of
                       None \<Rightarrow> None
                     | Some p \<Rightarrow> if pl_load_factor p < local_load then Some (candidates cluster ! best) else None)))"

definition publish_cluster_state :: "headless \<Rightarrow> headless" where
  "publish_cluster_state h =
     h\<lparr> hd_published := set_local_tokens (resumable_tokens (hd_registry h))
          (set_active_sessions (of_nat (count_by_state Active (hd_registry h))) (hd_published h)) \<rparr>"

subsection \<open>Network events\<close>

definition generate_random_token :: "bytes \<Rightarrow> string" where
  "generate_random_token random = hex random"

definition connecting_token :: "surroundings \<Rightarrow> client_hello \<Rightarrow> session_token" where
  "connecting_token env hello =
     (case ch_token hello of Some t \<Rightarrow> t | None \<Rightarrow> generate_random_token (en_random env))"

text \<open>Where the session lives, after a probe of the peers when that is not known.\<close>

definition resolve_location :: "surroundings \<Rightarrow> session_token \<Rightarrow> headless \<Rightarrow> headless \<times> session_location" where
  "resolve_location env token h =
     (case locate (ck_now (en_clock env)) token (hd_registry h) of
        Unknown \<Rightarrow>
          (case discover_remote_home env token h of
             (h1, Some server_id) \<Rightarrow>
               (h1\<lparr> hd_registry := note_remote_session (ck_now (en_clock env)) token server_id (hd_registry h1) \<rparr>,
                Remote server_id)
           | (h1, None) \<Rightarrow> (h1, Unknown))
      | loc \<Rightarrow> (h, loc))"

text \<open>A transition of the registry whose error is logged and ignored.\<close>

definition ok_or_keep :: "registry \<Rightarrow> transition_error + registry \<Rightarrow> registry" where
  "ok_or_keep r res = (case res of Inl _ \<Rightarrow> r | Inr r' \<Rightarrow> r')"

text \<open>
  Resume, take over or create: \<open>Inl\<close> is a peer the new session is placed on, \<open>Inr\<close> the session, whether
  it was resumed, and whether the launcher is told.
\<close>

definition resolve_session ::
  "surroundings \<Rightarrow> session_token \<Rightarrow> headless \<Rightarrow> headless \<times> ((string \<times> string) + (session_id \<times> bool))" where
  "resolve_session env token h =
     (let ck = en_clock env; r = hd_registry h in
      case is_resumable token r of
        Some i \<Rightarrow>
          (case (case hm_get (rg_sessions r) i of None \<Rightarrow> Destroyed | Some s \<Rightarrow> s_state s) of
             Suspended \<Rightarrow> (h\<lparr> hd_registry := ok_or_keep r (activate ck i r) \<rparr>, Inr (i, True))
           | _ \<Rightarrow> (h, Inr (i, True)))
      | None \<Rightarrow>
          (case pick_peer_for_new_session env h of
             (h1, Some (server_id, addr)) \<Rightarrow> (h1, Inl (server_id, addr))
           | (h1, None) \<Rightarrow>
               (let (r1, i) = create_session ck token (hd_registry h1)
                in (h1\<lparr> hd_registry := ok_or_keep r1 (activate ck i r1) \<rparr>, Inr (i, False)))))"

definition bind_session :: "surroundings \<Rightarrow> session_token \<Rightarrow> string \<Rightarrow> headless \<Rightarrow> headless \<times> headless_out list" where
  "bind_session env token remote_addr h =
     (case resolve_session env token h of
        (h1, Inl (server_id, addr)) \<Rightarrow> (h1, [Reply (Redirect server_id addr)])
      | (h1, Inr (session_id, resumed)) \<Rightarrow>
          (publish_cluster_state
             (h1\<lparr> hd_active_session := Some session_id, hd_client_connected := True,
                  hd_connected_client_addr := Some remote_addr,
                  hd_previous_frame := replicate (length (hd_previous_frame h1)) 0,
                  hd_force_keyframe := True \<rparr>),
           (if \<not> resumed \<and> hd_launcher h1 then [LauncherSessionCreated token] else [])
           @ [Reply (Bind \<lparr> bi_session_id = session_id, bi_resumed = resumed, bi_token = token \<rparr>)]))"

definition client_connected :: "surroundings \<Rightarrow> client_hello \<Rightarrow> string \<Rightarrow> headless \<Rightarrow> headless \<times> headless_out list" where
  "client_connected env hello remote_addr h =
     (let token = connecting_token env hello in
      case resolve_location env token h of
        (h1, Remote server_id) \<Rightarrow>
          (case addr_of server_id (hd_cluster h1) of
             Some addr \<Rightarrow> (h1, [Reply (Redirect server_id addr)])
           | None \<Rightarrow> bind_session env token remote_addr h1)
      | (h1, _) \<Rightarrow> bind_session env token remote_addr h1)"

definition client_disconnected :: "surroundings \<Rightarrow> headless \<Rightarrow> headless \<times> headless_out list" where
  "client_disconnected env h =
     (let (st, evs) = release_all_keys (hd_state h);
          r = hd_registry h
      in (publish_cluster_state
            (h\<lparr> hd_state := st, hd_active_session := None,
                hd_registry := (case hd_active_session h of
                                  None \<Rightarrow> r | Some i \<Rightarrow> ok_or_keep r (suspend (en_clock env) i r)),
                hd_client_connected := False, hd_connected_client_addr := None \<rparr>),
          map SeatEvent evs))"

definition handle_control :: "control_message \<Rightarrow> headless \<Rightarrow> headless \<times> headless_out list" where
  "handle_control ctrl h =
     (case ctrl of
        RequestKeyframe \<Rightarrow> (h\<lparr> hd_force_keyframe := True \<rparr>, [])
      | ClipboardData clip \<Rightarrow>
          (let (st, evs) = set_remote_clipboard clip (hd_state h) in (h\<lparr> hd_state := st \<rparr>, map SeatEvent evs))
      | _ \<Rightarrow> (h, []))"

fun network_event :: "surroundings \<Rightarrow> net_to_compositor \<Rightarrow> headless \<Rightarrow> headless \<times> headless_out list" where
  "network_event env (Input msg) h =
     (let (st, evs) = inject_network_input (en_hit env) msg (hd_state h) in (h\<lparr> hd_state := st \<rparr>, map SeatEvent evs))"
| "network_event env (ClientConnected hello addr) h = client_connected env hello addr h"
| "network_event env ClientDisconnected h = client_disconnected env h"
| "network_event env (Control ctrl) h = handle_control ctrl h"

text \<open>The whole drain: the queued events, each with its surroundings, and whether the channel is closed.\<close>

fun drain_network_events ::
  "(surroundings \<times> net_to_compositor) list \<Rightarrow> bool \<Rightarrow> headless \<Rightarrow> headless \<times> headless_out list" where
  "drain_network_events [] hung_up h = (if hung_up then (h\<lparr> hd_client_connected := False \<rparr>, []) else (h, []))"
| "drain_network_events ((env, e) # es) hung_up h =
     (let (h1, outs1) = network_event env e h; (h2, outs2) = drain_network_events es hung_up h1
      in (h2, outs1 @ outs2))"

subsection \<open>Admin queries and the periodic cleanup\<close>

definition admin_answer :: "string \<Rightarrow> clock \<Rightarrow> admin_request \<Rightarrow> headless \<Rightarrow> admin_response" where
  "admin_answer version ck request h =
     (case request of
        ListSessions \<Rightarrow>
          SessionList (admin_snapshot ck
            (case hd_active_session h of
               Some i \<Rightarrow> if hd_client_connected h then Some (i, hd_connected_client_addr h) else None
             | None \<Rightarrow> None) (hd_registry h))
      | ServerStatusReq \<Rightarrow>
          ServerStatus \<lparr> ss_version = version,
            ss_uptime_secs = as_secs (elapsed (ck_now ck) (hd_server_started h)),
            ss_sessions = state_counts (hd_registry h), ss_cluster_peers = length (peers (hd_cluster h)) \<rparr>)"

definition drain_admin_queries ::
  "string \<Rightarrow> clock \<Rightarrow> bool \<Rightarrow> admin_request list \<Rightarrow> headless \<Rightarrow> headless_out list" where
  "drain_admin_queries version ck linked requests h =
     (if linked then map (\<lambda>q. AdminReply (admin_answer version ck q h)) requests else [])"

definition CLEANUP_INTERVAL :: u32 where "CLEANUP_INTERVAL = 3600"

definition destroyed_notice :: "registry \<Rightarrow> session_id \<Rightarrow> headless_out option" where
  "destroyed_notice r i =
     map_option (\<lambda>s. LauncherSessionDestroyed (s_token s) i) (hm_get (rg_sessions r) i)"

definition periodic_cleanup :: "clock \<Rightarrow> u32 \<Rightarrow> headless \<Rightarrow> headless \<times> u32 \<times> headless_out list" where
  "periodic_cleanup ck counter h =
     (if counter + 1 < CLEANUP_INTERVAL then (h, counter + 1, [])
      else let (r1, expired) = cleanup_expired ck (hd_registry h);
               outs = (if expired \<noteq> [] \<and> hd_launcher h then List.map_filter (destroyed_notice r1) expired else []);
               r2 = (if expired \<noteq> [] then purge_destroyed r1 else r1)
           in (h\<lparr> hd_registry := prune_remote_sessions (ck_now ck) r2 \<rparr>, 0, outs))"

subsection \<open>Frames\<close>

definition KEYFRAME_INTERVAL :: u32 where "KEYFRAME_INTERVAL = 120"

definition encode_damage ::
  "(bytes \<Rightarrow> bytes option) \<Rightarrow> bytes \<Rightarrow> int \<Rightarrow> int \<Rightarrow> nat \<Rightarrow> rect \<Rightarrow> damage_region option" where
  "encode_damage zenc pixels width height stride rect =
     (case rect of (x, y, w, h) \<Rightarrow>
        encode_region zenc pixels stride (of_int (max x 0)) (of_int (max y 0))
          (of_int (max (min w (width - max x 0)) 0)) (of_int (max (min h (height - max y 0)) 0)))"

text \<open>\<open>iter().map(f).collect()\<close> where a call of \<open>f\<close> may panic.\<close>

fun map_panic :: "('a \<Rightarrow> 'b option) \<Rightarrow> 'a list \<Rightarrow> 'b list option" where
  "map_panic f [] = Some []"
| "map_panic f (x # xs) =
     (case f x of None \<Rightarrow> None | Some y \<Rightarrow> map_option ((#) y) (map_panic f xs))"

definition frame_regions ::
  "(bytes \<Rightarrow> bytes option) \<Rightarrow> bytes \<Rightarrow> rect list option \<Rightarrow> int \<Rightarrow> int \<Rightarrow> nat \<Rightarrow> bool \<Rightarrow> damage_region list option" where
  "frame_regions zenc pixels damage width height stride force =
     (case damage of
        Some rects \<Rightarrow>
          if rects \<noteq> [] \<and> \<not> force
          then map_option (filter (\<lambda>r. dr_width r > 0 \<and> dr_height r > 0))
                 (map_panic (encode_damage zenc pixels width height stride) rects)
          else map_option (\<lambda>r. [r]) (encode_region zenc pixels stride 0 0 (of_int width) (of_int height))
      | None \<Rightarrow> map_option (\<lambda>r. [r]) (encode_region zenc pixels stride 0 0 (of_int width) (of_int height)))"

text \<open>
  \<open>send_frame_to_network\<close>; \<open>sent\<close>: the channel accepts the message.  The result is \<open>None\<close> for a panic, and
  otherwise the message, if one was produced.
\<close>

definition send_frame_to_network ::
  "(bytes \<Rightarrow> bytes option) \<Rightarrow> bool \<Rightarrow> bytes \<Rightarrow> rect list option \<Rightarrow> int \<Rightarrow> int \<Rightarrow> nat \<Rightarrow> headless
     \<Rightarrow> (headless \<times> compositor_to_net option) option" where
  "send_frame_to_network zenc sent pixels damage width height stride h =
     (if \<not> hd_force_keyframe h \<and> pixels = hd_previous_frame h then Some (h, None)
      else let force = hd_force_keyframe h \<or> hd_frames_since_keyframe h \<ge> KEYFRAME_INTERVAL in
           case frame_regions zenc pixels damage width height stride force of
             None \<Rightarrow> None
           | Some regions \<Rightarrow>
               (case checksum pixels stride (nat width * 4) (nat height) of
                  None \<Rightarrow> None
                | Some crc \<Rightarrow>
                    let seq = hd_frame_sequence h + 1;
                        update = \<lparr> fu_sequence = seq, fu_regions = regions, fu_checksum = crc \<rparr>;
                        msg = (if force then SendKeyframe update else SendFrame update)
                    in Some (h\<lparr> hd_force_keyframe := False,
                                hd_frames_since_keyframe := (if force then 0 else hd_frames_since_keyframe h + 1),
                                hd_frame_sequence := seq,
                                hd_client_connected := (hd_client_connected h \<and> sent),
                                hd_previous_frame := pixels \<rparr>,
                             Some msg)))"

subsection \<open>Borders\<close>

definition buffer_default :: border_buffer where
  "buffer_default = \<lparr> bb_size = (0, 0), bb_color = [0, 0, 0, 0], bb_commit = 0 \<rparr>"

definition buffer_update :: "int \<times> int \<Rightarrow> rat list \<Rightarrow> border_buffer \<Rightarrow> border_buffer" where
  "buffer_update sz color b =
     (if sz \<noteq> bb_size b \<or> color \<noteq> bb_color b
      then \<lparr> bb_size = sz, bb_color = color, bb_commit = bb_commit b + 1 \<rparr> else b)"

text \<open>The bars around a geometry: top, bottom, left, right.\<close>

definition border_rects :: "rect \<Rightarrow> int \<Rightarrow> rect list" where
  "border_rects geometry width =
     (case geometry of (x, y, gw, gh) \<Rightarrow>
        let w = max width 0 in
        [(wrap32 (x - w), wrap32 (y - w), wrap32 (gw + wrap32 (2 * w)), w),
         (wrap32 (x - w), wrap32 (y + gh), wrap32 (gw + wrap32 (2 * w)), w),
         (wrap32 (x - w), y, w, gh),
         (wrap32 (x + gw), y, w, gh)])"

text \<open>An element: the place of a bar, and its buffer.\<close>

type_synonym border_element = "point \<times> border_buffer"

definition border_bar :: "rat list \<Rightarrow> border_buffer \<Rightarrow> rect \<Rightarrow> border_element" where
  "border_bar color b r = (case r of (x, y, w, h) \<Rightarrow> ((x, y), buffer_update (w, h) color b))"

text \<open>The loop over the windows; \<open>geometry\<close> is \<open>Space::element_geometry\<close>, \<open>None\<close> for an unmapped window.\<close>

fun border_loop ::
  "(win \<Rightarrow> rect option) \<Rightarrow> (window_id, border_spec) hashmap \<Rightarrow> (window_id \<times> win) list \<Rightarrow> border_buffers
     \<Rightarrow> border_buffers \<times> border_element list" where
  "border_loop geometry borders [] buffers = (buffers, [])"
| "border_loop geometry borders ((i, w) # ws) buffers =
     (case hm_get borders i of
        None \<Rightarrow> border_loop geometry borders ws buffers
      | Some spec \<Rightarrow>
          (case geometry w of
             None \<Rightarrow> border_loop geometry borders ws buffers
           | Some g \<Rightarrow>
               (let old = (case hm_get buffers i of Some bs \<Rightarrow> bs | None \<Rightarrow> replicate 4 buffer_default);
                    bars = map2 (border_bar (color_f32 spec)) old (border_rects g (bs_width spec));
                    (buffers1, elements) = border_loop geometry borders ws (hm_insert i (map snd bars) buffers)
                in (buffers1, bars @ elements))))"

definition collect_border_elements ::
  "(win \<Rightarrow> rect option) \<Rightarrow> compositor \<Rightarrow> border_buffers \<Rightarrow> border_buffers \<times> border_element list" where
  "collect_border_elements geometry state buffers =
     (case cp_protocol state of
        None \<Rightarrow> ([], [])
      | Some proto \<Rightarrow>
          (let borders = wp_borders proto in
           border_loop geometry borders (cp_window_ids state) (hm_retain (\<lambda>i _. hm_contains borders i) buffers)))"

subsection \<open>A frame of the main loop\<close>

text \<open>
  \<open>render_headless_frame\<close>.  What the renderer makes of the frame is \<open>rendered\<close>: \<open>None\<close> when it fails,
  and otherwise the pixels and the damage.  The result is \<open>None\<close> for a panic.
\<close>

definition render_headless_frame ::
  "(bytes \<Rightarrow> bytes option) \<Rightarrow> bool \<Rightarrow> (win \<Rightarrow> rect option) \<Rightarrow> (bytes \<times> rect list option) option \<Rightarrow> int \<Rightarrow> int \<Rightarrow> nat
     \<Rightarrow> headless \<Rightarrow> (headless \<times> headless_out list \<times> border_element list) option" where
  "render_headless_frame zenc sent geometry rendered width height stride h =
     (let (st, evs) = render_wm_phase (hd_state h);
          (buffers, elements) = collect_border_elements geometry st (hd_border_buffers h);
          h1 = h\<lparr> hd_state := st, hd_border_buffers := buffers \<rparr>
      in case rendered of
           None \<Rightarrow> Some (h1, map SeatEvent evs, elements)
         | Some (pixels, damage) \<Rightarrow>
             if hd_client_connected h1
             then (case send_frame_to_network zenc sent pixels damage width height stride h1 of
                     None \<Rightarrow> None
                   | Some (h2, msg) \<Rightarrow>
                       Some (h2, map SeatEvent evs @ (case msg of None \<Rightarrow> [] | Some m \<Rightarrow> [ToNet m]), elements))
             else Some (h1, map SeatEvent evs, elements))"

end
