(* ===== verification/Hosting.thy ===== *)
theory Hosting
  imports Headless
begin

text \<open>
  Hosting sessions: the network thread's events and the periodic cleanup acting on the registry.
  At most one session is active at a time, and it is the one of the connected client; a client
  that comes back with its token gets its session back.
\<close>

definition hosting_ok :: "headless \<Rightarrow> bool" where
  "hosting_ok h \<longleftrightarrow> registry_ok (hd_registry h) \<and> tokens_bound (hd_registry h)
     \<and> (\<forall>i s. session_at (hd_registry h) i = Some s \<longrightarrow>
          s_state s \<noteq> Creating \<and> (s_state s = Active \<longleftrightarrow> hd_active_session h = Some i))
     \<and> (\<forall>i. hd_active_session h = Some i \<longrightarrow> session_at (hd_registry h) i \<noteq> None)"

lemma hosting_okD:
  assumes "hosting_ok h"
  shows "registry_ok (hd_registry h)" "tokens_bound (hd_registry h)"
    "session_at (hd_registry h) i = Some s \<Longrightarrow> s_state s \<noteq> Creating"
    "session_at (hd_registry h) i = Some s \<Longrightarrow> s_state s = Active \<longleftrightarrow> hd_active_session h = Some i"
    "hd_active_session h = Some i \<Longrightarrow> \<exists>s. session_at (hd_registry h) i = Some s \<and> s_state s = Active"
  using assms by (auto simp: hosting_ok_def)

text \<open>Two server states that agree on what hosting depends on.\<close>

lemma hosting_ok_cong:
  "hd_registry h' = hd_registry h \<Longrightarrow> hd_active_session h' = hd_active_session h \<Longrightarrow> hosting_ok h' = hosting_ok h"
  by (simp add: hosting_ok_def)

lemma pick_peer_simps [simp]:
  "hd_registry (fst (pick_peer_for_new_session env h)) = hd_registry h"
  "hd_active_session (fst (pick_peer_for_new_session env h)) = hd_active_session h"
  "hd_cluster (fst (pick_peer_for_new_session env h)) = hd_cluster h"
  by (simp_all add: pick_peer_for_new_session_def Let_def split: prod.split)

lemma discover_simps [simp]:
  "hd_registry (fst (discover_remote_home env tok h)) = hd_registry h"
  "hd_active_session (fst (discover_remote_home env tok h)) = hd_active_session h"
  "hd_cluster (fst (discover_remote_home env tok h)) = hd_cluster h"
  by (simp_all add: discover_remote_home_def Let_def split: prod.split)

lemma session_at_remote [simp]: "session_at (note_remote_session now tok sid r) i = session_at r i"
  by (simp add: note_remote_session_def)

lemma resolve_location_simps:
  assumes "resolve_location env tok h = (h1, loc)"
  shows "hd_active_session h1 = hd_active_session h" "session_at (hd_registry h1) i = session_at (hd_registry h) i"
    "rg_token_index (hd_registry h1) = rg_token_index (hd_registry h)"
    "rg_next_id (hd_registry h1) = rg_next_id (hd_registry h)"
    "rg_capacity (hd_registry h1) = rg_capacity (hd_registry h)"
    "hosting_ok h1 = hosting_ok h"
proof -
  obtain h2 d where d: "discover_remote_home env tok h = (h2, d)" by fastforce
  have 2: "hd_registry h2 = hd_registry h" "hd_active_session h2 = hd_active_session h"
    using discover_simps [of env tok h] by (simp_all add: d)
  show "hd_active_session h1 = hd_active_session h" "session_at (hd_registry h1) i = session_at (hd_registry h) i"
    "rg_token_index (hd_registry h1) = rg_token_index (hd_registry h)"
    "rg_next_id (hd_registry h1) = rg_next_id (hd_registry h)"
    "rg_capacity (hd_registry h1) = rg_capacity (hd_registry h)"
    "hosting_ok h1 = hosting_ok h"
    using assms 2
    by (auto simp: resolve_location_def d note_remote_session_def hosting_ok_def remote_ok
        split: session_location.splits option.splits)
qed

lemma activate_facts:
  assumes "registry_ok r" "tokens_bound r" "session_at r i = Some s" "s_state s \<in> {Creating, Suspended}"
    and r': "r' = ok_or_keep r (activate ck i r)"
  shows "registry_ok r'" "tokens_bound r'" "rg_next_id r' = rg_next_id r" "rg_capacity r' = rg_capacity r"
    "session_at r' j = (if j = i then Some (moved (ck_now ck) Active s) else session_at r j)"
proof -
  have t: "activate ck i r = Inr (after_transition ck i Active s r)"
    using assms(3,4) by (auto simp: activate_def transition_Inr can_transition_iff)
  have c: "can_transition_to (s_state s) Active" using assms(4) by (auto simp: can_transition_iff)
  show "registry_ok r'" "tokens_bound r'" "rg_next_id r' = rg_next_id r" "rg_capacity r' = rg_capacity r"
    "session_at r' j = (if j = i then Some (moved (ck_now ck) Active s) else session_at r j)"
    using after_transition_ok [OF assms(1,3) c] after_transition_bound [OF assms(1-3) c]
    by (simp_all add: r' ok_or_keep_def t)
qed

lemma no_index_without_session:
  assumes "registry_ok r" "\<forall>i s. session_at r i = Some s \<longrightarrow> s_state s \<noteq> Creating" "is_resumable tok r = None"
  shows "hm_get (rg_token_index r) tok = None"
proof (rule ccontr)
  assume "hm_get (rg_token_index r) tok \<noteq> None"
  then obtain i where i: "hm_get (rg_token_index r) tok = Some i" by blast
  then obtain s where s: "session_at r i = Some s" "s_state s \<noteq> Destroyed"
    using index_okD [OF _ i] assms(1) unfolding registry_ok_def by blast
  with assms(2) have "s_state s \<in> {Active, Suspended}" by (cases "s_state s") auto
  with i s assms(3) show False by (simp add: is_resumable_def find_by_token_def session_at_def insert_commute)
qed

text \<open>
  What the binding of a token does, in a state where no session is active: the session that carries
  the token, found or new, is active afterwards, and no other session changes.
\<close>

definition session_bound :: "string \<Rightarrow> headless \<Rightarrow> headless \<Rightarrow> session_id \<Rightarrow> bool \<Rightarrow> bool" where
  "session_bound tok h h1 i resumed \<longleftrightarrow> hosting_ok (h1\<lparr> hd_active_session := Some i \<rparr>)
     \<and> (resumed \<longleftrightarrow> is_resumable tok (hd_registry h) = Some i)
     \<and> (\<not> resumed \<longrightarrow> is_resumable tok (hd_registry h) = None \<and> i = rg_next_id (hd_registry h))
     \<and> (\<exists>s. session_at (hd_registry h1) i = Some s \<and> s_token s = tok \<and> s_state s = Active)
     \<and> (\<forall>j. j \<noteq> i \<longrightarrow> session_at (hd_registry h1) j = session_at (hd_registry h) j)
     \<and> rg_capacity (hd_registry h1) = rg_capacity (hd_registry h)
     \<and> unat (rg_next_id (hd_registry h1)) \<le> unat (rg_next_id (hd_registry h)) + 1"

lemma resolve_resumes:
  assumes ok: "hosting_ok h" "hd_active_session h = None" "rg_next_id (hd_registry h) \<noteq> - 1"
    and res: "resolve_session env tok h = (h1, Inr (i, resumed))"
    and Some: "is_resumable tok (hd_registry h) = Some k"
  shows "session_bound tok h h1 i resumed"
proof -
  let ?r = "hd_registry h" and ?ck = "en_clock env"
  note r = hosting_okD [OF ok(1)]
  have none: "s_state s \<noteq> Active" if "session_at ?r k = Some s" for k s using r(4) that ok(2) by auto
  then obtain s where s: "session_at ?r k = Some s" "s_token s = tok" "s_state s = Suspended"
    using is_resumable_iff [OF r(1,2)] none Some by blast
  from res Some s have ki: "k = i" and res': "resumed" and h1: "h1 = h\<lparr> hd_registry := ok_or_keep ?r (activate ?ck k ?r) \<rparr>"
    by (auto simp: resolve_session_def Let_def session_at_def)
  note a = activate_facts [OF r(1,2) s(1) _ refl, of ?ck, unfolded s(3), simplified]
  show ?thesis using a s none r(3) Some by (auto simp: ki [symmetric] res' h1 hosting_ok_def session_bound_def)
qed

lemma resolve_creates:
  assumes ok: "hosting_ok h" "hd_active_session h = None" "rg_next_id (hd_registry h) \<noteq> - 1"
    and res: "resolve_session env tok h = (h1, Inr (i, resumed))"
    and None: "is_resumable tok (hd_registry h) = None"
  shows "session_bound tok h h1 i resumed"
proof -
  let ?r = "hd_registry h" and ?ck = "en_clock env"
  note r = hosting_okD [OF ok(1)]
  have none: "s_state s \<noteq> Active" if "session_at ?r k = Some s" for k s using r(4) that ok(2) by auto
  let ?c = "create_session ?ck tok ?r"
  obtain h2 where p: "pick_peer_for_new_session env h = (h2, None)"
    using res None by (auto simp: resolve_session_def Let_def split: prod.splits option.splits)
  then have h2: "hd_registry h2 = ?r" using pick_peer_simps(1) [of env h] by simp
  have cr: "?c = (fst ?c, rg_next_id ?r)" using create_session_simps(1) [of ?ck tok ?r] by (metis prod.collapse)
  from res None have i: "i = rg_next_id ?r" and res': "\<not> resumed"
    and h1: "hd_registry h1 = ok_or_keep (fst ?c) (activate ?ck i (fst ?c))"
    unfolding resolve_session_def Let_def None option.case p prod.case h2
    by (subst (asm) cr, simp, subst (asm) cr, simp, subst (asm) cr, auto)
  have c: "registry_ok (fst ?c)" "tokens_bound (fst ?c)"
    using create_session_ok [OF r(1) ok(3)] create_session_bound [OF r(1,2) no_index_without_session [OF r(1) _ None]] r(3)
    by blast+
  have at: "session_at (fst ?c) i = Some (session_new (ck_now ?ck) i tok (rg_local_server_id ?r))"
    by (simp add: create_session_simps i)
  note a = activate_facts [OF c at _ h1, simplified]
  have old: "session_at (fst ?c) j = session_at ?r j" if "j \<noteq> i" for j
    using that by (simp add: create_session_simps i)
  have "unat (i + 1) = unat i + 1" using unat_next [OF ok(3)] by (simp add: i)
  then show ?thesis using a r(3) none None old
    by (auto simp: res' i [symmetric] hosting_ok_def session_bound_def create_session_simps split: if_splits)
qed

lemma resolve_session_facts:
  assumes ok: "hosting_ok h" "hd_active_session h = None" "rg_next_id (hd_registry h) \<noteq> - 1"
    and res: "resolve_session env tok h = (h1, Inr (i, resumed))"
  shows "hosting_ok (h1\<lparr> hd_active_session := Some i \<rparr>)"
    "resumed \<longleftrightarrow> is_resumable tok (hd_registry h) = Some i"
    "\<not> resumed \<Longrightarrow> is_resumable tok (hd_registry h) = None \<and> i = rg_next_id (hd_registry h)"
    "\<exists>s. session_at (hd_registry h1) i = Some s \<and> s_token s = tok \<and> s_state s = Active"
    "j \<noteq> i \<Longrightarrow> session_at (hd_registry h1) j = session_at (hd_registry h) j"
    "rg_capacity (hd_registry h1) = rg_capacity (hd_registry h)"
    "unat (rg_next_id (hd_registry h1)) \<le> unat (rg_next_id (hd_registry h)) + 1"
proof -
  have "session_bound tok h h1 i resumed"
    using resolve_resumes [OF ok res] resolve_creates [OF ok res] by (cases "is_resumable tok (hd_registry h)") blast+
  then show "hosting_ok (h1\<lparr> hd_active_session := Some i \<rparr>)"
    "resumed \<longleftrightarrow> is_resumable tok (hd_registry h) = Some i"
    "\<not> resumed \<Longrightarrow> is_resumable tok (hd_registry h) = None \<and> i = rg_next_id (hd_registry h)"
    "\<exists>s. session_at (hd_registry h1) i = Some s \<and> s_token s = tok \<and> s_state s = Active"
    "j \<noteq> i \<Longrightarrow> session_at (hd_registry h1) j = session_at (hd_registry h) j"
    "rg_capacity (hd_registry h1) = rg_capacity (hd_registry h)"
    "unat (rg_next_id (hd_registry h1)) \<le> unat (rg_next_id (hd_registry h)) + 1" unfolding session_bound_def by blast+
qed

subsection \<open>The steps\<close>

text \<open>What the main loop does to sessions: it handles a network event or runs the cleanup.\<close>

datatype hosting_op = Event surroundings net_to_compositor | Tick clock u32

fun hosting_step :: "hosting_op \<Rightarrow> headless \<Rightarrow> headless" where
  "hosting_step (Event env e) h = fst (network_event env e h)"
| "hosting_step (Tick ck counter) h = fst (periodic_cleanup ck counter h)"

fun op_events :: "hosting_op list \<Rightarrow> net_to_compositor list" where
  "op_events [] = []"
| "op_events (Event env e # ops) = e # op_events ops"
| "op_events (Tick ck counter # ops) = op_events ops"

lemma publish_simps [simp]:
  "hd_registry (publish_cluster_state h) = hd_registry h"
  "hd_active_session (publish_cluster_state h) = hd_active_session h"
  by (simp_all add: publish_cluster_state_def)

lemma bind_session_redirect:
  "resolve_session env tok h = (h1, Inl p) \<Longrightarrow>
     hd_registry h1 = hd_registry h \<and> hd_active_session h1 = hd_active_session h"
proof -
  assume "resolve_session env tok h = (h1, Inl p)"
  then have "pick_peer_for_new_session env h = (h1, Some p)"
    by (auto simp: resolve_session_def Let_def split: prod.splits option.splits session_state.splits)
  then show ?thesis using pick_peer_simps(1,2) [of env h] by simp
qed

text \<open>
  One connecting client, in a state where no session is active: either it is sent to another server
  and nothing here changes, or its session is bound as \<open>resolve_session_facts\<close> says.
\<close>

lemma client_connected_cases:
  assumes "hosting_ok h" "hd_active_session h = None" "rg_next_id (hd_registry h) \<noteq> - 1"
    and h1: "client_connected env hello addr h = (h1, outs)"
  obtains server a where "outs = [Reply (Redirect server a)]" "hosting_ok h1" "hd_active_session h1 = None"
      "\<And>j. session_at (hd_registry h1) j = session_at (hd_registry h) j"
      "rg_capacity (hd_registry h1) = rg_capacity (hd_registry h)"
      "rg_next_id (hd_registry h1) = rg_next_id (hd_registry h)"
  | i resumed where "hosting_ok h1" "hd_active_session h1 = Some i"
      "\<And>b. Reply (Bind b) \<in> set outs \<longleftrightarrow>
          b = \<lparr> bi_session_id = i, bi_resumed = resumed, bi_token = connecting_token env hello \<rparr>"
      "resumed \<longleftrightarrow> is_resumable (connecting_token env hello) (hd_registry h) = Some i"
      "\<exists>s. session_at (hd_registry h1) i = Some s \<and> s_token s = connecting_token env hello \<and> s_state s = Active"
      "\<And>j. j \<noteq> i \<Longrightarrow> session_at (hd_registry h1) j = session_at (hd_registry h) j"
      "rg_capacity (hd_registry h1) = rg_capacity (hd_registry h)"
      "unat (rg_next_id (hd_registry h1)) \<le> unat (rg_next_id (hd_registry h)) + 1"
      "\<not> resumed \<Longrightarrow> i = rg_next_id (hd_registry h)"
proof -
  let ?tok = "connecting_token env hello"
  obtain h0 loc where loc: "resolve_location env ?tok h = (h0, loc)" by fastforce
  note l = resolve_location_simps [OF loc]
  have same: "is_resumable ?tok (hd_registry h0) = is_resumable ?tok (hd_registry h)"
  proof -
    have "hm_get (rg_sessions (hd_registry h0)) = hm_get (rg_sessions (hd_registry h))"
      using l(2) by (intro ext) (simp add: session_at_def)
    then show ?thesis unfolding is_resumable_def find_by_token_def l(3) by (simp cong: option.case_cong)
  qed
  have h0: "hosting_ok h0" "hd_active_session h0 = None" "rg_next_id (hd_registry h0) \<noteq> - 1"
    using assms(1-3) l by simp_all
  consider (away) server a where "h1 = h0" "outs = [Reply (Redirect server a)]"
    | (bind) "bind_session env ?tok addr h0 = (h1, outs)"
    using h1 loc by (auto simp: client_connected_def Let_def split: session_location.splits option.splits)
  then show thesis
  proof cases
    case away
    then show ?thesis using that(1) h0 l by simp
  next
    case bind
    show ?thesis
    proof (cases "snd (resolve_session env ?tok h0)")
      case (Inl p)
      then obtain h2 where r: "resolve_session env ?tok h0 = (h2, Inl p)" by (metis prod.collapse)
      with bind have "h1 = h2" "outs = [Reply (Redirect (fst p) (snd p))]"
        by (auto simp: bind_session_def split: prod.splits)
      moreover have "hd_registry h2 = hd_registry h0" "hd_active_session h2 = None"
        using bind_session_redirect [OF r] h0(2) by simp_all
      moreover have "hosting_ok h2" using hosting_ok_cong [of h2 h0] calculation(3,4) h0 by simp
      ultimately show ?thesis using that(1) l by simp
    next
      case (Inr q)
      then obtain h2 i resumed where r: "resolve_session env ?tok h0 = (h2, Inr (i, resumed))"
        by (metis prod.collapse)
      note f = resolve_session_facts [OF h0 r]
      from bind r have h1': "hd_registry h1 = hd_registry h2" "hd_active_session h1 = Some i"
        and rep: "\<And>b. Reply (Bind b) \<in> set outs \<longleftrightarrow>
          b = \<lparr> bi_session_id = i, bi_resumed = resumed, bi_token = ?tok \<rparr>"
        by (auto simp: bind_session_def)
      have "hosting_ok h1"
        using f(1) h1' hosting_ok_cong [of h1 "h2\<lparr> hd_active_session := Some i \<rparr>"] by simp
      then show ?thesis
      proof (rule that(2))
        show "hd_active_session h1 = Some i" by (rule h1'(2))
        show "Reply (Bind b) \<in> set outs \<longleftrightarrow>
          b = \<lparr> bi_session_id = i, bi_resumed = resumed, bi_token = ?tok \<rparr>" for b by (rule rep)
        show "resumed \<longleftrightarrow> is_resumable ?tok (hd_registry h) = Some i" using f(2) same by simp
        show "\<exists>s. session_at (hd_registry h1) i = Some s \<and> s_token s = ?tok \<and> s_state s = Active"
          using f(4) h1'(1) by simp
        show "session_at (hd_registry h1) j = session_at (hd_registry h) j" if "j \<noteq> i" for j
          using f(5) [OF that] l(2) h1'(1) by simp
        show "rg_capacity (hd_registry h1) = rg_capacity (hd_registry h)" using f(6) l(5) h1'(1) by simp
        show "unat (rg_next_id (hd_registry h1)) \<le> unat (rg_next_id (hd_registry h)) + 1" using f(7) l(4) h1'(1) by simp
        show "i = rg_next_id (hd_registry h)" if "\<not> resumed" using f(3) [OF that] l(4) by simp
      qed
    qed
  qed
qed

lemma disconnected_facts:
  assumes "hosting_ok h" "client_disconnected env h = (h1, outs)"
  shows "hosting_ok h1" "hd_active_session h1 = None" "rg_capacity (hd_registry h1) = rg_capacity (hd_registry h)"
    "rg_next_id (hd_registry h1) = rg_next_id (hd_registry h)"
    "session_at (hd_registry h1) j =
       (if hd_active_session h = Some j
        then map_option (moved (ck_now (en_clock env)) Suspended) (session_at (hd_registry h) j)
        else session_at (hd_registry h) j)"
proof -
  let ?r = "hd_registry h" and ?ck = "en_clock env"
  note r = hosting_okD [OF assms(1)]
  have none: "hd_active_session h1 = None" and reg: "hd_registry h1 = (case hd_active_session h of None \<Rightarrow> ?r
      | Some i \<Rightarrow> ok_or_keep ?r (suspend ?ck i ?r))"
    using assms(2) by (auto simp: client_disconnected_def split_beta Let_def)
  have all: "registry_ok (hd_registry h1) \<and> tokens_bound (hd_registry h1)
    \<and> rg_capacity (hd_registry h1) = rg_capacity ?r \<and> rg_next_id (hd_registry h1) = rg_next_id ?r
    \<and> (\<forall>j. session_at (hd_registry h1) j = (if hd_active_session h = Some j
        then map_option (moved (ck_now ?ck) Suspended) (session_at ?r j) else session_at ?r j))"
  proof (cases "hd_active_session h")
    case None
    then show ?thesis using r(1,2) by (simp add: reg)
  next
    case (Some i)
    then obtain s where s: "session_at ?r i = Some s" "s_state s = Active" using r(5) by blast
    have c: "can_transition_to (s_state s) Suspended" using s(2) by simp
    then have "suspend ?ck i ?r = Inr (after_transition ?ck i Suspended s ?r)"
      using s(1) by (simp add: suspend_def transition_Inr)
    then show ?thesis
      using after_transition_ok [OF r(1) s(1) c] after_transition_bound [OF r(1,2) s(1) c] s(1) Some
      by (simp add: reg ok_or_keep_def)
  qed
  then have at: "session_at (hd_registry h1) j = (if hd_active_session h = Some j
        then map_option (moved (ck_now ?ck) Suspended) (session_at ?r j) else session_at ?r j)" for j by blast
  show "hosting_ok h1"
    unfolding hosting_ok_def none using all at r(3,4) by (auto split: if_splits)
  show "hd_active_session h1 = None" by (rule none)
  show "rg_capacity (hd_registry h1) = rg_capacity ?r" "rg_next_id (hd_registry h1) = rg_next_id ?r" using all by blast+
  show "session_at (hd_registry h1) j = (if hd_active_session h = Some j
        then map_option (moved (ck_now ?ck) Suspended) (session_at ?r j) else session_at ?r j)" by (rule at)
qed

lemma purge_at:
  "registry_ok r \<Longrightarrow> session_at (purge_destroyed r) i =
      (case session_at r i of None \<Rightarrow> None | Some s \<Rightarrow> if s_state s \<noteq> Destroyed then Some s else None)"
  by (simp add: registry_ok_def session_at_def purge_destroyed_def hm_get_retain)

lemma expired_at:
  assumes "registry_ok r"
  shows "i \<in> set (expired_ids now r) \<longleftrightarrow> (\<exists>s. session_at r i = Some s \<and> is_suspend_expired now s)"
  using assms by (force simp: expired_ids_def registry_ok_def sessions_ok_def session_at_def hm_get_in)

lemma prune_simps [simp]:
  "session_at (prune_remote_sessions now r) i = session_at r i"
  "rg_next_id (prune_remote_sessions now r) = rg_next_id r" "rg_capacity (prune_remote_sessions now r) = rg_capacity r"
  "registry_ok (prune_remote_sessions now r) = registry_ok r" "tokens_bound (prune_remote_sessions now r) = tokens_bound r"
  by (simp_all add: prune_remote_sessions_def remote_ok)

lemma fold_try_destroy_capacity [simp]: "rg_capacity (fold (try_destroy ck) ids r) = rg_capacity r"
proof (induction ids arbitrary: r)
  case (Cons i ids)
  then show ?case by (simp add: try_destroy_cases split: option.split)
qed simp

lemma cleanup_facts:
  assumes "hosting_ok h"
  shows "hosting_ok (hosting_step (Tick ck n) h)"
    "hd_active_session (hosting_step (Tick ck n) h) = hd_active_session h"
    "rg_capacity (hd_registry (hosting_step (Tick ck n) h)) = rg_capacity (hd_registry h)"
    "rg_next_id (hd_registry (hosting_step (Tick ck n) h)) = rg_next_id (hd_registry h)"
    "i \<notin> set (expired_ids (ck_now ck) (hd_registry h)) \<Longrightarrow> session_at (hd_registry h) i = Some s \<Longrightarrow>
       s_state s \<noteq> Destroyed \<Longrightarrow> session_at (hd_registry (hosting_step (Tick ck n) h)) i = Some s"
proof -
  let ?r = "hd_registry h" and ?h = "hosting_step (Tick ck n) h"
  note r = hosting_okD [OF assms]
  define e where "e = expired_ids (ck_now ck) ?r"
  define r1 where "r1 = fold (try_destroy ck) e ?r"
  have ok1: "registry_ok r1" "tokens_bound r1"
    using fold_try_destroy_ok [OF r(1)] fold_try_destroy_bound [OF r(1,2)] by (simp_all add: r1_def)
  have at1: "session_at r1 i = (if i \<in> set e then map_option (moved (ck_now ck) Destroyed) (session_at ?r i)
      else session_at ?r i)" for i
    unfolding r1_def by (rule fold_try_destroy_at [OF r(1)])
  have idle: "s_state s = Suspended" if "i \<in> set e" "session_at ?r i = Some s" for i s
    using that expired_at [OF r(1)] by (auto simp: e_def is_suspend_expired_def split: if_splits)
  define r2 where "r2 = (if e \<noteq> [] then purge_destroyed r1 else r1)"
  have ok2: "registry_ok r2" "tokens_bound r2" using ok1 purge_ok [OF ok1(1)] by (simp_all add: r2_def)
  have at2: "session_at r2 i = Some s \<Longrightarrow> session_at r1 i = Some s" for i s
    by (auto simp: r2_def purge_at [OF ok1(1)] split: option.splits if_splits)
  have keep2: "session_at r1 i = Some s \<Longrightarrow> s_state s \<noteq> Destroyed \<Longrightarrow> session_at r2 i = Some s" for i s
    by (auto simp: r2_def purge_at [OF ok1(1)])
  have step: "?h = (if n + 1 < CLEANUP_INTERVAL then h else h\<lparr> hd_registry := prune_remote_sessions (ck_now ck) r2 \<rparr>)"
    by (simp add: periodic_cleanup_def cleanup_expired_def e_def [symmetric] r1_def [symmetric] r2_def Let_def)
  have new: "hosting_ok (h\<lparr> hd_registry := prune_remote_sessions (ck_now ck) r2 \<rparr>)"
  proof -
    have "s_state s \<noteq> Creating \<and> (s_state s = Active \<longleftrightarrow> hd_active_session h = Some i)" if here: "session_at r2 i = Some s" for i s
    proof (cases "i \<in> set e")
      case True
      then obtain x where x: "session_at ?r i = Some x" "s = moved (ck_now ck) Destroyed x"
        using at2 [OF here] by (auto simp: at1)
      with True idle have "s_state x = Suspended" by blast
      with r(4) [OF x(1)] x(2) show ?thesis by auto
    next
      case False
      with at2 [OF here] have "session_at ?r i = Some s" by (simp add: at1)
      with r(3,4) show ?thesis by blast
    qed
    moreover have "session_at r2 i \<noteq> None" if act: "hd_active_session h = Some i" for i
    proof -
      obtain s where s: "session_at ?r i = Some s" "s_state s = Active" using r(5) [OF act] by blast
      then have "i \<notin> set e" using idle by force
      then show ?thesis using keep2 [of i s] s by (simp add: at1)
    qed
    ultimately show ?thesis using ok2 by (simp add: hosting_ok_def)
  qed
  show "hosting_ok ?h" unfolding step using new assms by simp
  show "hd_active_session ?h = hd_active_session h" unfolding step by simp
  have meta: "rg_capacity r2 = rg_capacity ?r" "rg_next_id r2 = rg_next_id ?r"
    by (simp_all add: r2_def r1_def purge_destroyed_def)
  show "rg_capacity (hd_registry ?h) = rg_capacity ?r" "rg_next_id (hd_registry ?h) = rg_next_id ?r"
    unfolding step using meta by simp_all
  show "session_at (hd_registry ?h) i = Some s"
    if "i \<notin> set (expired_ids (ck_now ck) ?r)" "session_at ?r i = Some s" "s_state s \<noteq> Destroyed"
    unfolding step using that keep2 by (simp add: at1 e_def)
qed

subsection \<open>Histories\<close>

lemma input_simps:
  "hd_registry (fst (network_event env (Input m) h)) = hd_registry h"
  "hd_active_session (fst (network_event env (Input m) h)) = hd_active_session h"
  "hd_registry (fst (network_event env (Control m') h)) = hd_registry h"
  "hd_active_session (fst (network_event env (Control m') h)) = hd_active_session h"
  by (simp_all add: split_beta Let_def handle_control_def split: control_message.split)

text \<open>
  \<open>hosting_inv c h\<close>: the state is consistent, and no session is active unless a client is connected.
\<close>

definition hosting_inv :: "bool \<Rightarrow> headless \<Rightarrow> bool" where
  "hosting_inv c h \<longleftrightarrow> hosting_ok h \<and> (\<not> c \<longrightarrow> hd_active_session h = None)"

lemma hosting_step_inv:
  assumes "hosting_inv c h" "session_trace c (op_events [p])" "rg_next_id (hd_registry h) \<noteq> - 1"
  shows "hosting_inv (connected_after c (op_events [p])) (hosting_step p h)"
    and "rg_capacity (hd_registry (hosting_step p h)) = rg_capacity (hd_registry h)"
    and "unat (rg_next_id (hd_registry (hosting_step p h))) \<le> unat (rg_next_id (hd_registry h)) + 1"
proof -
  have ok: "hosting_ok h" using assms(1) by (simp add: hosting_inv_def)
  have "hosting_inv (connected_after c (op_events [p])) (hosting_step p h)
    \<and> rg_capacity (hd_registry (hosting_step p h)) = rg_capacity (hd_registry h)
    \<and> unat (rg_next_id (hd_registry (hosting_step p h))) \<le> unat (rg_next_id (hd_registry h)) + 1"
  proof (cases p)
    case (Tick ck n)
    then show ?thesis using cleanup_facts(1-4) [OF ok, of ck n] assms(1) by (simp add: hosting_inv_def)
  next
    case (Event env e)
    show ?thesis
    proof (cases e)
      case (ClientConnected hello addr)
      then have none: "hd_active_session h = None" using assms(1,2) Event by (simp add: hosting_inv_def)
      obtain h1 outs where h1: "client_connected env hello addr h = (h1, outs)" by fastforce
      from client_connected_cases [OF ok none assms(3) h1] show ?thesis
        by cases (simp_all add: Event ClientConnected h1 hosting_inv_def)
    next
      case ClientDisconnected
      obtain h1 outs where h1: "client_disconnected env h = (h1, outs)" by fastforce
      from disconnected_facts [OF ok h1] show ?thesis by (simp add: Event ClientDisconnected h1 hosting_inv_def)
    next
      case (Input m)
      then show ?thesis using assms(1) hosting_ok_cong [OF input_simps(1,2), of env m h]
        by (simp add: Event hosting_inv_def input_simps del: network_event.simps)
    next
      case (Control m)
      then show ?thesis using assms(1) hosting_ok_cong [OF input_simps(3,4), of env m h]
        by (simp add: Event hosting_inv_def input_simps del: network_event.simps)
    qed
  qed
  then show "hosting_inv (connected_after c (op_events [p])) (hosting_step p h)"
    "rg_capacity (hd_registry (hosting_step p h)) = rg_capacity (hd_registry h)"
    "unat (rg_next_id (hd_registry (hosting_step p h))) \<le> unat (rg_next_id (hd_registry h)) + 1" by blast+
qed

lemma op_events_Cons: "op_events (p # ops) = op_events [p] @ op_events ops"
  by (cases p) simp_all

definition enough_ids :: "hosting_op list \<Rightarrow> headless \<Rightarrow> bool" where
  "enough_ids ops h \<longleftrightarrow> unat (rg_next_id (hd_registry h)) + length ops < 2 ^ 64"

lemma enough_ids_Cons:
  assumes "enough_ids (p # ops) h" "hosting_inv c h" "session_trace c (op_events [p])"
  shows "rg_next_id (hd_registry h) \<noteq> - 1" "enough_ids ops (hosting_step p h)"
proof -
  have "unat (- 1 :: u64) = 2 ^ 64 - 1" by (simp add: unsigned_minus_1_eq_mask mask_eq_exp_minus_1)
  then show n: "rg_next_id (hd_registry h) \<noteq> - 1" using assms(1) by (auto simp: enough_ids_def)
  show "enough_ids ops (hosting_step p h)"
    using hosting_step_inv(3) [OF assms(2,3) n] assms(1) by (simp add: enough_ids_def)
qed

lemma hosting_run_inv:
  "hosting_inv c h \<Longrightarrow> session_trace c (op_events ops) \<Longrightarrow> enough_ids ops h \<Longrightarrow>
     hosting_inv (connected_after c (op_events ops)) (fold hosting_step ops h)
   \<and> rg_capacity (hd_registry (fold hosting_step ops h)) = rg_capacity (hd_registry h)"
proof (induction ops arbitrary: c h)
  case (Cons p ops)
  have t: "session_trace c (op_events [p])" "session_trace (connected_after c (op_events [p])) (op_events ops)"
    using Cons.prems(2) unfolding op_events_Cons [of p ops] by (simp_all add: session_trace_append)
  note e = enough_ids_Cons [OF Cons.prems(3,1) t(1)]
  note s = hosting_step_inv [OF Cons.prems(1) t(1) e(1)]
  show ?case
    using Cons.IH [OF s(1) t(2) e(2)] s(2)
    unfolding op_events_Cons [of p ops] by (simp add: connected_after_append)
qed simp

text \<open>The sessions in the active state are at most one.\<close>

lemma active_count:
  assumes "hosting_ok h"
  shows "count_by_state Active (hd_registry h) = (if hd_active_session h = None then 0 else 1)"
proof -
  let ?m = "rg_sessions (hd_registry h)"
  let ?A = "filter (\<lambda>e. s_state (snd e) = Active) ?m"
  note r = hosting_okD [OF assms]
  have wf: "hm_wf ?m" using r(1) by (simp add: registry_ok_def)
  have mem: "e \<in> set ?A \<longleftrightarrow> hd_active_session h = Some (fst e) \<and> session_at (hd_registry h) (fst e) = Some (snd e)" for e
    using r(4) hm_get_in [OF wf, of "fst e" "snd e"] by (auto simp: session_at_def)
  have d: "distinct ?A" using wf by (simp add: distinct_map)
  have "count_by_state Active (hd_registry h) = length ?A"
    by (simp add: count_by_state_def filter_map o_def)
  also have "\<dots> = card (set ?A)" by (rule distinct_card [OF d, symmetric])
  also have "\<dots> = (if hd_active_session h = None then 0 else 1)"
  proof (cases "hd_active_session h")
    case None
    then have "set ?A = {}" using mem by auto
    with None show ?thesis by simp
  next
    case (Some i)
    then obtain s where s: "session_at (hd_registry h) i = Some s" using r(5) by blast
    have "set ?A = {(i, s)}" using mem Some s by force
    with Some show ?thesis by simp
  qed
  finally show ?thesis .
qed

text \<open>
  C26.  One active session.  In every history of the network thread's events and cleanups, starting with
  no active session, there is at most one session in the active state: that of the connected client;
  none is active when no client is connected, and none is stuck half-created.  The load factor is
  therefore at most one over the capacity, and with a capacity of two or more no new session is
  ever placed on a peer: the load balancing of a server never takes place.
\<close>
theorem one_active_session:
  assumes "hosting_inv False h0" "session_trace False (op_events ops)" "enough_ids ops h0"
    and "h = fold hosting_step ops h0" "2 \<le> rg_capacity (hd_registry h0)"
  shows "count_by_state Active (hd_registry h) = (if hd_active_session h = None then 0 else 1)
       \<and> count_by_state Creating (hd_registry h) = 0
       \<and> (\<not> connected_after False (op_events ops) \<longrightarrow> hd_active_session h = None)
       \<and> pick_peer_for_new_session env h = (h, None)"
proof -
  have inv: "hosting_inv (connected_after False (op_events ops)) h" and cap: "2 \<le> rg_capacity (hd_registry h)"
    using hosting_run_inv [OF assms(1-3)] assms(5) by (simp_all add: assms(4))
  then have ok: "hosting_ok h" by (simp add: hosting_inv_def)
  have n: "count_by_state Active (hd_registry h) \<le> 1" using active_count [OF ok] by simp
  have "load_factor (hd_registry h) \<le> 1 / 2"
  proof -
    have "rat_of_nat (count_by_state Active (hd_registry h)) \<le> 1" using n by (metis of_nat_1 of_nat_le_iff)
    moreover have "2 \<le> rat_of_nat (max (rg_capacity (hd_registry h)) 1)"
      using cap by (metis max.coboundedI1 of_nat_le_iff of_nat_numeral)
    ultimately show ?thesis unfolding load_factor_def by (intro frac_le) simp_all
  qed
  then have "pick_peer_for_new_session env h = (h, None)"
    by (simp add: pick_peer_for_new_session_def LOAD_REDIRECT_THRESHOLD_def Let_def)
  moreover have "count_by_state Creating (hd_registry h) = 0"
    using hosting_okD(1,3) [OF ok]
    by (auto simp: count_by_state_def filter_empty_conv registry_ok_def hm_values_get session_at_def simp del: set_map)
  ultimately show ?thesis using active_count [OF ok] inv by (simp add: hosting_inv_def)
qed

lemma hosting_inv_start:
  "hosting_inv False (headless_start ck st n cluster None built pins launcher)"
  "rg_capacity (hd_registry (headless_start ck st n cluster None built pins launcher)) = DEFAULT_CAPACITY"
  "rg_next_id (hd_registry (headless_start ck st n cluster None built pins launcher)) = 1"
  by (simp_all add: hosting_inv_def hosting_ok_def headless_start_def Let_def with_cluster_ok)
    (simp_all add: with_cluster_def registry_new_def session_at_def DEFAULT_CAPACITY_def)

text \<open>Surroundings without peers, for examples: time \<open>t\<close>, nothing answers.\<close>

definition alone :: "nat \<Rightarrow> surroundings" where
  "alone t = \<lparr> en_clock = \<lparr> ck_now = t, ck_epoch = 0 \<rparr>, en_sha256 = id, en_addr_ok = (\<lambda>_. False),
     en_late = (\<lambda>_. True), en_peer = (\<lambda>_. \<lparr> pr_cert = None, pr_write = NotWritten, pr_answer = (\<lambda>_. None) \<rparr>),
     en_random = [], en_hit = (\<lambda>_ _. None) \<rparr>"

definition example_server :: headless where
  "example_server = headless_start \<lparr> ck_now = 0, ck_epoch = 0 \<rparr> (compositor_new ''o'' (640, 480)) 16
     cluster_config_default None False \<lparr> ps_file = None, ps_pins = [] \<rparr> False"

definition token_hello :: "string \<Rightarrow> client_hello" where
  "token_hello t = \<lparr> ch_version = PROTOCOL_VERSION, ch_capabilities = [cap_DISPLAY], ch_token = Some t \<rparr>"

lemma example_server_facts:
  "hosting_inv False example_server" "rg_capacity (hd_registry example_server) = 50"
  "rg_next_id (hd_registry example_server) = 1"
  by (simp_all add: example_server_def hosting_inv_start DEFAULT_CAPACITY_def)

theorem one_active_session_witness:
  "let ops = [Event (alone 1) (ClientConnected (token_hello ''t'') ''a''), Event (alone 2) ClientDisconnected,
              Event (alone 3) (ClientConnected (token_hello ''u'') ''b'')]
   in count_by_state Active (hd_registry (fold hosting_step ops example_server)) \<le> 1
    \<and> count_by_state Creating (hd_registry (fold hosting_step ops example_server)) = 0"
proof -
  let ?ops = "[Event (alone 1) (ClientConnected (token_hello ''t'') ''a''), Event (alone 2) ClientDisconnected,
              Event (alone 3) (ClientConnected (token_hello ''u'') ''b'')]"
  have "session_trace False (op_events ?ops)" "enough_ids ?ops example_server"
    "2 \<le> rg_capacity (hd_registry example_server)"
    by (simp_all add: enough_ids_def example_server_facts)
  from one_active_session [OF example_server_facts(1) this(1,2) refl this(3), of "alone 1"]
  show ?thesis unfolding Let_def by (simp del: fold.simps split: if_splits)
qed

subsection \<open>Coming back\<close>

definition held_by :: "session_token \<Rightarrow> session_id \<Rightarrow> headless \<Rightarrow> bool" where
  "held_by tok i h \<longleftrightarrow>
     (\<exists>s. session_at (hd_registry h) i = Some s \<and> s_token s = tok \<and> s_state s \<in> {Active, Suspended})"

text \<open>No cleanup of the history finds the session expired.\<close>

fun never_expires :: "session_id \<Rightarrow> hosting_op list \<Rightarrow> headless \<Rightarrow> bool" where
  "never_expires i [] h = True"
| "never_expires i (Event env e # ops) h = never_expires i ops (hosting_step (Event env e) h)"
| "never_expires i (Tick ck n # ops) h =
     (i \<notin> set (expired_ids (ck_now ck) (hd_registry h)) \<and> never_expires i ops (hosting_step (Tick ck n) h))"

lemma held_connected:
  assumes ok: "hosting_ok h" "hd_active_session h = None" "rg_next_id (hd_registry h) \<noteq> - 1"
    and h1: "client_connected env hello addr h = (h1, outs)" and held: "held_by tok i h"
  shows "held_by tok i h1"
proof -
  obtain s where s: "session_at (hd_registry h) i = Some s" "s_token s = tok" "s_state s \<in> {Active, Suspended}"
    using held by (auto simp: held_by_def)
  from client_connected_cases [OF ok h1]
  have "\<exists>s'. session_at (hd_registry h1) i = Some s' \<and> s_token s' = tok \<and> s_state s' \<in> {Active, Suspended}"
  proof cases
    case 1
    then show ?thesis using s by auto
  next
    case (2 j resumed)
    show ?thesis
    proof (cases "j = i")
      case False
      then show ?thesis using 2(6) [of i] s by auto
    next
      case True
      then have "resumed" using 2(9) fresh_id [OF hosting_okD(1) [OF ok(1)]] s(1) by fastforce
      then have "is_resumable (connecting_token env hello) (hd_registry h) = Some i" using 2(4) True by simp
      then have "connecting_token env hello = tok"
        using is_resumable_iff [OF hosting_okD(1,2) [OF ok(1)]] s(1,2) by auto
      then show ?thesis using 2(5) True by auto
    qed
  qed
  then show ?thesis by (simp add: held_by_def)
qed

lemma held_step:
  assumes "hosting_inv c h" "session_trace c (op_events [p])" "rg_next_id (hd_registry h) \<noteq> - 1"
    and "held_by tok i h" "never_expires i (p # ops) h"
  shows "held_by tok i (hosting_step p h) \<and> never_expires i ops (hosting_step p h)"
proof -
  have ok: "hosting_ok h" using assms(1) by (simp add: hosting_inv_def)
  obtain s where s: "session_at (hd_registry h) i = Some s" "s_token s = tok" "s_state s \<in> {Active, Suspended}"
    using assms(4) by (auto simp: held_by_def)
  show ?thesis
  proof (cases p)
    case (Tick ck n)
    then have "session_at (hd_registry (hosting_step p h)) i = Some s"
      using cleanup_facts(5) [OF ok _ s(1), of ck n] assms(5) s(3) by auto
    then show ?thesis using s(2,3) assms(5) Tick by (auto simp: held_by_def)
  next
    case (Event env e)
    have "held_by tok i (hosting_step p h)"
    proof (cases e)
      case (ClientConnected hello addr)
      then have none: "hd_active_session h = None" using assms(1,2) Event by (simp add: hosting_inv_def)
      show ?thesis
        using held_connected [OF ok none assms(3) prod.collapse [symmetric] assms(4)]
        by (simp add: Event ClientConnected)
    next
      case ClientDisconnected
      obtain h1 outs where h1: "client_disconnected env h = (h1, outs)" by fastforce
      show ?thesis using disconnected_facts(5) [OF ok h1, of i] s
        by (auto simp: held_by_def Event ClientDisconnected h1)
    qed (use assms(4) in \<open>simp_all add: Event held_by_def input_simps del: network_event.simps\<close>)
    then show ?thesis using assms(5) Event by simp
  qed
qed

lemma held_run:
  "hosting_inv c h \<Longrightarrow> session_trace c (op_events ops) \<Longrightarrow> enough_ids ops h \<Longrightarrow> held_by tok i h \<Longrightarrow>
     never_expires i ops h \<Longrightarrow> held_by tok i (fold hosting_step ops h)"
proof (induction ops arbitrary: c h)
  case (Cons p ops)
  have t: "session_trace c (op_events [p])" "session_trace (connected_after c (op_events [p])) (op_events ops)"
    using Cons.prems(2) unfolding op_events_Cons [of p ops] by (simp_all add: session_trace_append)
  note e = enough_ids_Cons [OF Cons.prems(3,1) t(1)]
  note hs = held_step [OF Cons.prems(1) t(1) e(1) Cons.prems(4,5)]
  show ?case
    using Cons.IH [OF hosting_step_inv(1) [OF Cons.prems(1) t(1) e(1)] t(2) e(2)] hs by simp
qed simp

text \<open>A token whose session is here is resumed here.\<close>

lemma resumable_connects:
  assumes ok: "hosting_ok h" "hd_active_session h = None" and held: "held_by tok i h" and tok: "ch_token hello = Some tok"
  shows "\<exists>h1 outs. client_connected env hello addr h = (h1, outs) \<and> hd_active_session h1 = Some i
     \<and> Reply (Bind \<lparr> bi_session_id = i, bi_resumed = True, bi_token = tok \<rparr>) \<in> set outs"
proof -
  note r = hosting_okD [OF ok(1)]
  have res: "is_resumable tok (hd_registry h) = Some i"
    using is_resumable_iff [OF r(1,2)] held by (auto simp: held_by_def)
  have t: "connecting_token env hello = tok" by (simp add: connecting_token_def tok)
  obtain j where "hm_get (rg_token_index (hd_registry h)) tok = Some j"
    using res by (auto simp: is_resumable_def find_by_token_def split: option.splits)
  then have loc: "resolve_location env tok h = (h, Local j)" by (simp add: resolve_location_def locate_def)
  have "\<exists>h2. resolve_session env tok h = (h2, Inr (i, True))"
    using res by (simp add: resolve_session_def Let_def split: session_state.split)
  then have "\<exists>h1 outs. bind_session env tok addr h = (h1, outs) \<and> hd_active_session h1 = Some i
     \<and> Reply (Bind \<lparr> bi_session_id = i, bi_resumed = True, bi_token = tok \<rparr>) \<in> set outs"
    by (auto simp: bind_session_def)
  then show ?thesis by (simp add: client_connected_def t loc)
qed

text \<open>
  C25.  Hot-desking.  Once a client has been bound to a session, then whatever follows, disconnects,
  takeovers, other clients with other tokens and cleanups, as long as no cleanup finds the session
  expired: when the next client is accepted and presents the token, it is bound to the same
  session, as a resumed one, and is never redirected.
\<close>
theorem hot_desk_resume:
  assumes "hosting_inv False h0" "rg_next_id (hd_registry h0) \<noteq> - 1"
    and "client_connected env hello addr h0 = (h1, outs)" "Reply (Bind b) \<in> set outs"
    and "session_trace True (op_events ops)" "\<not> connected_after True (op_events ops)"
    and "enough_ids ops h1" "never_expires (bi_session_id b) ops h1"
    and "h2 = fold hosting_step ops h1" "ch_token hello2 = Some (bi_token b)"
  shows "\<exists>h3 outs3. client_connected env2 hello2 addr2 h2 = (h3, outs3)
     \<and> hd_active_session h3 = Some (bi_session_id b)
     \<and> Reply (Bind \<lparr> bi_session_id = bi_session_id b, bi_resumed = True, bi_token = bi_token b \<rparr>) \<in> set outs3"
proof -
  have ok: "hosting_ok h0" "hd_active_session h0 = None" using assms(1) by (simp_all add: hosting_inv_def)
  have first: "held_by (bi_token b) (bi_session_id b) h1" "hosting_ok h1"
    using client_connected_cases [OF ok assms(2,3)] assms(4) by (cases; auto simp: held_by_def)+
  have inv1: "hosting_inv True h1" using first(2) by (simp add: hosting_inv_def)
  have "held_by (bi_token b) (bi_session_id b) h2"
    unfolding assms(9) by (rule held_run [OF inv1 assms(5,7) first(1) assms(8)])
  moreover have "hosting_ok h2" "hd_active_session h2 = None"
    using hosting_run_inv [OF inv1 assms(5,7)] assms(6) by (simp_all add: assms(9) hosting_inv_def)
  ultimately show ?thesis using resumable_connects assms(10) by blast
qed

text \<open>A server without peers serves every client itself.\<close>

lemma standalone_binds:
  assumes "\<not> is_clustered (hd_cluster h)" "locate (ck_now (en_clock env)) (connecting_token env hello) (hd_registry h) = Unknown"
  shows "\<exists>b. Reply (Bind b) \<in> set (snd (client_connected env hello addr h))"
proof -
  let ?tok = "connecting_token env hello"
  have peers: "discover_remote_home env ?tok h = (h, None)" "pick_peer_for_new_session env h = (h, None)"
    using assms(1) by (simp_all add: discover_remote_home_def pick_peer_for_new_session_def Let_def)
  then have loc: "resolve_location env ?tok h = (h, Unknown)"
    using assms(2) by (simp add: resolve_location_def)
  have "\<exists>h1 q. resolve_session env ?tok h = (h1, Inr q)"
  proof (cases "is_resumable ?tok (hd_registry h)")
    case None
    obtain r1 j where "create_session (en_clock env) ?tok (hd_registry h) = (r1, j)" by fastforce
    with None peers(2) show ?thesis by (auto simp: resolve_session_def Let_def)
  next
    case (Some i)
    then show ?thesis by (auto simp: resolve_session_def Let_def split: session_state.split)
  qed
  then have "\<exists>b. Reply (Bind b) \<in> set (snd (bind_session env ?tok addr h))"
    by (auto simp: bind_session_def)
  then show ?thesis by (simp add: client_connected_def Let_def loc)
qed

lemma example_connects:
  assumes c: "client_connected (alone 7) (token_hello ''t'') ''a'' example_server = (h1, outs)"
  shows "Reply (Bind \<lparr> bi_session_id = 1, bi_resumed = False, bi_token = ''t'' \<rparr>) \<in> set outs"
    "hosting_ok h1" "hd_active_session h1 = Some 1" "unat (rg_next_id (hd_registry h1)) \<le> 2"
proof -
  let ?b = "\<lparr> bi_session_id = 1, bi_resumed = False, bi_token = ''t'' \<rparr>"
  have n: "rg_next_id (hd_registry example_server) \<noteq> - 1" by (simp add: example_server_facts)
  have ok: "hosting_ok example_server" "hd_active_session example_server = None"
    using example_server_facts(1) by (simp_all add: hosting_inv_def)
  have tok: "connecting_token (alone 7) (token_hello ''t'') = ''t''" by (simp add: connecting_token_def token_hello_def)
  have now: "ck_now (en_clock (alone 7)) = 7" by (simp add: alone_def)
  have none: "is_resumable ''t'' (hd_registry example_server) = None" "\<not> is_clustered (hd_cluster example_server)"
    "locate 7 ''t'' (hd_registry example_server) = Unknown"
    by (simp_all add: example_server_def headless_start_def Let_def with_cluster_def registry_new_def is_resumable_def
        find_by_token_def locate_def)
  then obtain b where b: "Reply (Bind b) \<in> set outs"
    using standalone_binds [of example_server "alone 7" "token_hello ''t''" "''a''", unfolded tok c snd_conv now] by blast
  have "Reply (Bind ?b) \<in> set outs \<and> hosting_ok h1 \<and> hd_active_session h1 = Some 1 \<and> unat (rg_next_id (hd_registry h1)) \<le> 2"
    using client_connected_cases [OF ok n c]
  proof cases
    case 1
    then show ?thesis using b by simp
  next
    case (2 i resumed)
    have r: "\<not> resumed" using 2(4) none(1) by (simp only: tok) simp
    then have i: "i = 1" using 2(9) by (simp add: example_server_facts)
    show ?thesis using 2(1,2,8) 2(3) [of ?b] r i by (simp add: tok example_server_facts)
  qed
  then show "Reply (Bind ?b) \<in> set outs" "hosting_ok h1" "hd_active_session h1 = Some 1"
    "unat (rg_next_id (hd_registry h1)) \<le> 2" by blast+
qed

theorem hot_desk_resume_witness:
  "let h1 = fst (client_connected (alone 7) (token_hello ''t'') ''a'' example_server);
       h2 = fold hosting_step [Event (alone 8) ClientDisconnected] h1
   in \<exists>h3 outs3. client_connected (alone 9) (token_hello ''t'') ''b'' h2 = (h3, outs3) \<and> hd_active_session h3 = Some 1
      \<and> Reply (Bind \<lparr> bi_session_id = 1, bi_resumed = True, bi_token = ''t'' \<rparr>) \<in> set outs3"
proof -
  let ?b = "\<lparr> bi_session_id = 1, bi_resumed = False, bi_token = ''t'' \<rparr>"
  let ?ops = "[Event (alone 8) ClientDisconnected]"
  obtain h1 outs where c: "client_connected (alone 7) (token_hello ''t'') ''a'' example_server = (h1, outs)" by fastforce
  have n: "rg_next_id (hd_registry example_server) \<noteq> - 1" by (simp add: example_server_facts)
  note f = example_connects [OF c]
  have "enough_ids ?ops h1" using f(4) by (simp add: enough_ids_def)
  moreover have "never_expires (bi_session_id ?b) ?ops h1" by simp
  moreover have "session_trace True (op_events ?ops)" "\<not> connected_after True (op_events ?ops)"
    "ch_token (token_hello ''t'') = Some (bi_token ?b)" by (simp_all add: token_hello_def)
  ultimately have "\<exists>h3 outs3. client_connected (alone 9) (token_hello ''t'') ''b'' (fold hosting_step ?ops h1) = (h3, outs3)
      \<and> hd_active_session h3 = Some (bi_session_id ?b)
      \<and> Reply (Bind \<lparr> bi_session_id = bi_session_id ?b, bi_resumed = True, bi_token = bi_token ?b \<rparr>) \<in> set outs3"
    by (intro hot_desk_resume [OF example_server_facts(1) n c f(1) _ _ _ _ refl]) blast+
  then show ?thesis unfolding Let_def c fst_conv by simp
qed

end
