(* ===== verification/Client.thy ===== *)
theory Client
  imports Network Encoding
begin

text \<open>
  The remote viewer (\<open>crates/wrclient/src/main.rs\<close>, \<open>network.rs\<close>, \<open>clipboard.rs\<close>): connecting with pinned
  certificates, following redirects, the session loop with the framebuffer, the clipboard, and the
  candidates and token of the command line.  A server is its certificate and its answer to a
  \<open>ClientHello\<close> (\<open>peer_reply\<close> of \<open>Network\<close>); name resolution and the OS clipboard are arguments.
\<close>

subsection \<open>Connecting\<close>

type_synonym socket_addr = string

datatype connect_error =
    Rejected string u32
  | IncompatibleServer u32 u32 u32
  | UnexpectedMessage control_message
  | Transport

fun is_fatal :: "connect_error \<Rightarrow> bool" where
  "is_fatal (Rejected r v) = True"
| "is_fatal (IncompatibleServer v lo hi) = True"
| "is_fatal (UnexpectedMessage m) = True"
| "is_fatal Transport = False"

record client_config =
  cf_server_addr :: socket_addr
  cf_server_name :: string
  cf_capabilities :: "string list"
  cf_token :: "string option"
  cf_expected_fingerprint :: "string option"

text \<open>\<open>resolve_server_addr\<close>: \<open>parse\<close> reads a socket address, \<open>dns\<close> gives the addresses of a host and port.\<close>

definition rsplit_colon :: "string \<Rightarrow> string option" where
  "rsplit_colon s =
     (if CHR '':'' \<in> set s then Some (rev (tl (dropWhile (\<lambda>c. c \<noteq> CHR '':'') (rev s)))) else None)"

definition resolve_server_addr ::
  "(string \<Rightarrow> socket_addr option) \<Rightarrow> (string \<Rightarrow> socket_addr list option) \<Rightarrow> string \<Rightarrow> (socket_addr \<times> string) option" where
  "resolve_server_addr parse dns s =
     (case parse s of
        Some addr \<Rightarrow> Some (addr, ''localhost'')
      | None \<Rightarrow>
          (case dns s of
             None \<Rightarrow> None
           | Some [] \<Rightarrow> None
           | Some (addr # _) \<Rightarrow> Some (addr, case rsplit_colon s of Some h \<Rightarrow> h | None \<Rightarrow> s)))"

datatype connect_outcome = ConnectedTo server_hello | RedirectedTo string string

definition client_pin_policy :: "client_config \<Rightarrow> pin_policy" where
  "client_pin_policy cfg =
     (case cf_expected_fingerprint cfg of Some fp \<Rightarrow> Fixed fp | None \<Rightarrow> Tofu (cf_server_addr cfg))"

definition client_hello_of :: "client_config \<Rightarrow> client_hello" where
  "client_hello_of cfg =
     \<lparr> ch_version = PROTOCOL_VERSION, ch_capabilities = cf_capabilities cfg, ch_token = cf_token cfg \<rparr>"

definition handshake_response :: "control_message \<Rightarrow> connect_error + connect_outcome" where
  "handshake_response msg =
     (case msg of
        ServerHello hello \<Rightarrow>
          if \<not> version_compatible (sh_version hello)
          then Inl (IncompatibleServer (sh_version hello) MIN_PROTOCOL_VERSION PROTOCOL_VERSION)
          else Inr (ConnectedTo hello)
      | SessionRedirect server_id addr \<Rightarrow> Inr (RedirectedTo server_id addr)
      | ProtocolError err \<Rightarrow> Inl (Rejected (pe_reason err) PROTOCOL_VERSION)
      | other \<Rightarrow> Inl (UnexpectedMessage other))"

text \<open>\<open>input_opens\<close>: the input stream can be opened after the handshake.\<close>

definition connect ::
  "(bytes \<Rightarrow> bytes) \<Rightarrow> (socket_addr \<Rightarrow> peer_reply) \<Rightarrow> bool \<Rightarrow> client_config \<Rightarrow> pin_store
     \<Rightarrow> pin_store \<times> (connect_error + connect_outcome)" where
  "connect sha256 servers input_opens cfg pins =
     (let server = servers (cf_server_addr cfg) in
      case pr_cert server of
        None \<Rightarrow> (pins, Inl Transport)
      | Some cert \<Rightarrow>
          (case check_pin sha256 (client_pin_policy cfg) False (pr_write server) cert pins of
             (pins1, Inl _) \<Rightarrow> (pins1, Inl Transport)
           | (pins1, Inr _) \<Rightarrow>
               (pins1,
                case pr_answer server (ClientHello (client_hello_of cfg)) of
                  None \<Rightarrow> Inl Transport
                | Some msg \<Rightarrow>
                    (case handshake_response msg of
                       Inr (ConnectedTo hello) \<Rightarrow> if input_opens then Inr (ConnectedTo hello) else Inl Transport
                     | r \<Rightarrow> r))))"

subsection \<open>Redirects\<close>

definition MAX_REDIRECTS :: nat where "MAX_REDIRECTS = 3"

record candidate =
  ca_addr :: socket_addr
  ca_name :: string
  ca_fingerprint :: "string option"

datatype connect_result = ConnectResult server_hello | Fatal connect_error | Retry

record dialing =
  di_sha256 :: "bytes \<Rightarrow> bytes"
  di_servers :: "socket_addr \<Rightarrow> peer_reply"
  di_input_opens :: bool
  di_parse :: "string \<Rightarrow> socket_addr option"
  di_dns :: "string \<Rightarrow> socket_addr list option"

definition config_for :: "string option \<Rightarrow> candidate \<Rightarrow> client_config" where
  "config_for token target =
     \<lparr> cf_server_addr = ca_addr target, cf_server_name = ca_name target,
       cf_capabilities = [cap_DISPLAY, cap_CLIPBOARD, cap_AUDIO], cf_token = token,
       cf_expected_fingerprint = ca_fingerprint target \<rparr>"

text \<open>
  The chain of one candidate.  The result is the store, the targets that were dialled in order, and
  how the chain ended: connected, with an error, or given up (\<open>None\<close>: try the next candidate).
\<close>

function follow_chain ::
  "dialing \<Rightarrow> string option \<Rightarrow> (socket_addr, candidate) hashmap \<Rightarrow> nat \<Rightarrow> candidate \<Rightarrow> pin_store
     \<Rightarrow> pin_store \<times> candidate list \<times> (connect_error + server_hello) option" where
  "follow_chain env token allowed hop target pins =
     (if hop > MAX_REDIRECTS then (pins, [], None)
      else case connect (di_sha256 env) (di_servers env) (di_input_opens env) (config_for token target) pins of
        (pins1, Inr (ConnectedTo hello)) \<Rightarrow> (pins1, [target], Some (Inr hello))
      | (pins1, Inl e) \<Rightarrow> (pins1, [target], Some (Inl e))
      | (pins1, Inr (RedirectedTo server_id addr)) \<Rightarrow>
          if hop = MAX_REDIRECTS then (pins1, [target], None)
          else (case resolve_server_addr (di_parse env) (di_dns env) addr of
                  None \<Rightarrow> (pins1, [target], None)
                | Some (resolved, name) \<Rightarrow>
                    (case hm_get allowed resolved of
                       None \<Rightarrow> (pins1, [target], None)
                     | Some known \<Rightarrow>
                         (let (pins2, dialled, r) =
                            follow_chain env token allowed (hop + 1)
                              \<lparr> ca_addr = resolved, ca_name = ca_name known, ca_fingerprint = ca_fingerprint known \<rparr> pins1
                          in (pins2, target # dialled, r)))))"
  by pat_completeness auto
termination
  by (relation "measure (\<lambda>(env, token, allowed, hop, target, pins). Suc MAX_REDIRECTS - hop)") auto

declare follow_chain.simps [simp del]

fun connect_candidates ::
  "dialing \<Rightarrow> string option \<Rightarrow> (socket_addr, candidate) hashmap \<Rightarrow> bool \<Rightarrow> connect_error option \<Rightarrow> candidate list
     \<Rightarrow> pin_store \<Rightarrow> pin_store \<times> candidate list \<times> connect_result" where
  "connect_candidates env token allowed first_attempt last_error [] pins =
     (pins, [], if first_attempt then Fatal (case last_error of Some e \<Rightarrow> e | None \<Rightarrow> Transport) else Retry)"
| "connect_candidates env token allowed first_attempt last_error (c # cs) pins =
     (case follow_chain env token allowed 0 c pins of
        (pins1, dialled, Some (Inr hello)) \<Rightarrow> (pins1, dialled, ConnectResult hello)
      | (pins1, dialled, Some (Inl e)) \<Rightarrow>
          if is_fatal e then (pins1, dialled, Fatal e)
          else (case connect_candidates env token allowed first_attempt (Some e) cs pins1 of
                  (pins2, dialled2, r) \<Rightarrow> (pins2, dialled @ dialled2, r))
      | (pins1, dialled, None) \<Rightarrow>
          (case connect_candidates env token allowed first_attempt last_error cs pins1 of
             (pins2, dialled2, r) \<Rightarrow> (pins2, dialled @ dialled2, r)))"

definition connect_following_redirects ::
  "dialing \<Rightarrow> candidate list \<Rightarrow> string option \<Rightarrow> bool \<Rightarrow> (socket_addr, candidate) hashmap \<Rightarrow> pin_store
     \<Rightarrow> pin_store \<times> candidate list \<times> connect_result" where
  "connect_following_redirects env candidates token first_attempt allowed pins =
     connect_candidates env token allowed first_attempt None candidates pins"

text \<open>\<open>main\<close>: the trusted addresses are those of the candidates, a later one replacing an earlier one.\<close>

definition allowed_of :: "candidate list \<Rightarrow> (socket_addr, candidate) hashmap" where
  "allowed_of cs = fold (\<lambda>c m. hm_insert (ca_addr c) c m) cs []"

definition INITIAL_BACKOFF_MS :: nat where "INITIAL_BACKOFF_MS = 50"
definition MAX_BACKOFF_MS :: nat where "MAX_BACKOFF_MS = 2000"

text \<open>The backoff after a failed attempt (doubled up to the maximum) and after a success.\<close>

definition next_backoff :: "connect_result \<Rightarrow> nat \<Rightarrow> nat" where
  "next_backoff r backoff =
     (case r of Retry \<Rightarrow> min (backoff * 2) MAX_BACKOFF_MS | ConnectResult h \<Rightarrow> INITIAL_BACKOFF_MS | Fatal e \<Rightarrow> backoff)"

subsection \<open>The command line\<close>

definition flag_value :: "string \<Rightarrow> string list \<Rightarrow> string option" where
  "flag_value flag args =
     (case position (\<lambda>a. a = flag) args of
        None \<Rightarrow> None
      | Some pos \<Rightarrow> if pos + 1 < length args then Some (args ! (pos + 1)) else None)"

fun positional_candidates ::
  "(string \<Rightarrow> (socket_addr \<times> string) option) \<Rightarrow> string option \<Rightarrow> string list \<Rightarrow> candidate list" where
  "positional_candidates resolve fp [] = []"
| "positional_candidates resolve fp (a # args) =
     (if a \<in> {''--token'', ''--cluster'', ''--server-fingerprint''}
      then (case args of [] \<Rightarrow> [] | _ # rest \<Rightarrow> positional_candidates resolve fp rest)
      else if starts_with a ''--'' then positional_candidates resolve fp args
      else (case resolve a of
              Some (addr, name) \<Rightarrow> [\<lparr> ca_addr = addr, ca_name = name, ca_fingerprint = fp \<rparr>]
            | None \<Rightarrow> []) @ positional_candidates resolve fp args)"

definition add_cluster_server ::
  "(string \<Rightarrow> (socket_addr \<times> string) option) \<Rightarrow> server_entry \<Rightarrow> candidate list \<Rightarrow> candidate list" where
  "add_cluster_server resolve server cs =
     (case resolve (sv_addr server) of
        None \<Rightarrow> cs
      | Some (addr, name) \<Rightarrow>
          if list_ex (\<lambda>c. ca_addr c = addr) cs then cs
          else cs @ [\<lparr> ca_addr = addr, ca_name = name,
                        ca_fingerprint = (if sv_fingerprint server = '''' then None else Some (sv_fingerprint server)) \<rparr>])"

text \<open>\<open>args\<close> includes the program name, which the positional scan skips.\<close>

definition parse_server_candidates ::
  "(string \<Rightarrow> (socket_addr \<times> string) option) \<Rightarrow> (string \<Rightarrow> config_error + cluster_config) \<Rightarrow> string list \<Rightarrow> candidate list" where
  "parse_server_candidates resolve load args =
     (let cs = positional_candidates resolve (flag_value ''--server-fingerprint'' args) (tl args) in
      case flag_value ''--cluster'' args of
        None \<Rightarrow> cs
      | Some path \<Rightarrow>
          (case load path of
             Inl e \<Rightarrow> cs
           | Inr cluster \<Rightarrow> fold (add_cluster_server resolve) (cc_servers cluster) cs))"

text \<open>
  \<open>load_or_generate_token\<close>: the text of the token file, if it can be read, and 16 random bytes; the
  result is the token and what is written to the file.
\<close>

definition load_or_generate_token :: "string option \<Rightarrow> bytes \<Rightarrow> string \<times> string option" where
  "load_or_generate_token file random =
     (case (case file of None \<Rightarrow> '''' | Some t \<Rightarrow> trim t) of
        [] \<Rightarrow> (hex random, Some (hex random))
      | token \<Rightarrow> (token, None))"

definition main_token :: "string list \<Rightarrow> string option \<Rightarrow> bytes \<Rightarrow> string option" where
  "main_token args file random =
     (if ''--token'' \<in> set args then flag_value ''--token'' args else Some (fst (load_or_generate_token file random)))"

subsection \<open>The clipboard\<close>

definition TEXT_MIME :: string where "TEXT_MIME = ''text/plain;charset=utf-8''"

record local_clipboard =
  lc_available :: bool
  lc_last_text :: "string option"

definition clipboard_new :: "bool \<Rightarrow> local_clipboard" where
  "clipboard_new opened = \<lparr> lc_available = opened, lc_last_text = None \<rparr>"

definition into_bytes :: "string \<Rightarrow> bytes" where "into_bytes s = map (\<lambda>c. of_nat (of_char c)) s"

text \<open>\<open>os_text\<close>: what the OS clipboard gives, \<open>None\<close> for an error.\<close>

definition capture_if_changed :: "string option \<Rightarrow> local_clipboard \<Rightarrow> local_clipboard \<times> clipboard_data option" where
  "capture_if_changed os_text lc =
     (if \<not> lc_available lc then (lc, None)
      else case os_text of
        None \<Rightarrow> (lc, None)
      | Some text \<Rightarrow>
          if text = '''' \<or> lc_last_text lc = Some text then (lc, None)
          else let (data, truncated) = cap_clipboard_payload (into_bytes text) TEXT_MIME
               in (lc\<lparr> lc_last_text := Some text \<rparr>, Some \<lparr> cd_mime_type = TEXT_MIME, cd_data = data \<rparr>))"

text \<open>\<open>std::str::from_utf8\<close>: every character is a well-formed sequence.\<close>

definition from_utf8 :: "bytes \<Rightarrow> string option" where
  "from_utf8 bs =
     (let s = map (\<lambda>b. char_of (unat b)) bs in
      if list_all (\<lambda>c. utf8_char (into_bytes c)) (str_chars s) then Some s else None)"

text \<open>The second component is the text put on the OS clipboard.\<close>

definition apply_remote :: "clipboard_data \<Rightarrow> local_clipboard \<Rightarrow> local_clipboard \<times> string option" where
  "apply_remote clip lc =
     (if \<not> is_text_mime (cd_mime_type clip) then (lc, None)
      else case from_utf8 (cd_data clip) of
             None \<Rightarrow> (lc, None)
           | Some text \<Rightarrow> (lc\<lparr> lc_last_text := Some text \<rparr>, if lc_available lc then Some text else None))"

subsection \<open>The session loop\<close>

record viewer =
  vw_framebuffer :: bytes
  vw_stride :: nat
  vw_keyframe_pending :: bool
  vw_clipboard :: local_clipboard
  vw_server_version :: u32

datatype viewer_out =
    SendInput input_message
  | SendToServer control_message
  | ShowPixels bytes
  | SetOsText string

datatype session_end = RenderThreadClosed | Disconnected

text \<open>The fresh framebuffer of a connection.\<close>

definition viewer_start :: "server_hello \<Rightarrow> local_clipboard \<Rightarrow> viewer" where
  "viewer_start hello lc =
     (let stride = unat (sh_output_width hello) * 4 in
      \<lparr> vw_framebuffer = replicate (stride * unat (sh_output_height hello)) 0, vw_stride = stride,
        vw_keyframe_pending = False, vw_clipboard = lc, vw_server_version = sh_version hello \<rparr>)"

definition viewer_control :: "control_message \<Rightarrow> viewer \<Rightarrow> viewer \<times> viewer_out list" where
  "viewer_control msg vw =
     (case msg of
        Ping t \<Rightarrow> (vw, [SendToServer (Pong t)])
      | ClipboardData clip \<Rightarrow>
          (let (lc, os) = apply_remote clip (vw_clipboard vw)
           in (vw\<lparr> vw_clipboard := lc \<rparr>, case os of None \<Rightarrow> [] | Some t \<Rightarrow> [SetOsText t]))
      | _ \<Rightarrow> (vw, []))"

fun viewer_controls :: "control_message list \<Rightarrow> viewer \<Rightarrow> viewer \<times> viewer_out list" where
  "viewer_controls [] vw = (vw, [])"
| "viewer_controls (m # ms) vw =
     (let (vw1, outs1) = viewer_control m vw; (vw2, outs2) = viewer_controls ms vw1 in (vw2, outs1 @ outs2))"

text \<open>
  What one turn of the loop finds: the queued input, the control messages, how many focus events,
  the OS clipboard text, and the frame; \<open>tn_up\<close>: the server accepts writes; \<open>tn_render\<close>: the render
  thread is there.
\<close>

datatype frame_arrival = FrameArrived frame_update | FrameStreamError | FrameTimeout

record turn =
  tn_inputs :: "input_message list"
  tn_controls :: "control_message list"
  tn_focus :: nat
  tn_os_text :: "string option"
  tn_frame :: frame_arrival
  tn_up :: bool
  tn_render :: bool

text \<open>The arrival of a frame; \<open>None\<close> where applying a region panics.\<close>

definition receive_frame ::
  "(bytes \<Rightarrow> bytes option) \<Rightarrow> bool \<Rightarrow> bool \<Rightarrow> frame_update \<Rightarrow> viewer
     \<Rightarrow> (viewer \<times> viewer_out list \<times> session_end option) option" where
  "receive_frame zdec up render update vw =
     (case apply_regions zdec (vw_framebuffer vw) (vw_stride vw) (fu_regions update) of
        None \<Rightarrow> None
      | Some fb \<Rightarrow>
          let vw1 = vw\<lparr> vw_framebuffer := fb \<rparr>; stride = vw_stride vw; height = length fb div stride in
          (case checksum fb stride stride height of
             None \<Rightarrow> None
           | Some local \<Rightarrow>
               let drift = (local \<noteq> fu_checksum update);
                   ask = drift \<and> \<not> vw_keyframe_pending vw in
               if ask \<and> \<not> up then Some (vw1, [], Some Disconnected)
               else let vw2 = vw1\<lparr> vw_keyframe_pending := drift \<rparr>;
                        asked = (if ask then [SendToServer RequestKeyframe] else []) in
                    if \<not> render then Some (vw2, asked, Some RenderThreadClosed)
                    else if \<not> up then Some (vw2, asked @ [ShowPixels fb], Some Disconnected)
                    else Some (vw2, asked @ [ShowPixels fb, SendToServer (FrameAck (fu_sequence update))], None)))"

definition focus_capture :: "turn \<Rightarrow> viewer \<Rightarrow> viewer \<times> clipboard_data option" where
  "focus_capture t vw =
     (if tn_focus t > 0 \<and> vw_server_version vw \<ge> 2
      then let (lc, clip) = capture_if_changed (tn_os_text t) (vw_clipboard vw) in (vw\<lparr> vw_clipboard := lc \<rparr>, clip)
      else (vw, None))"

definition session_turn ::
  "(bytes \<Rightarrow> bytes option) \<Rightarrow> turn \<Rightarrow> viewer \<Rightarrow> (viewer \<times> viewer_out list \<times> session_end option) option" where
  "session_turn zdec t vw =
     (if tn_inputs t \<noteq> [] \<and> \<not> tn_up t then Some (vw, [], Some Disconnected)
      else let inputs = map SendInput (tn_inputs t);
               (vw1, outs1) = viewer_controls (tn_controls t) vw;
               (vw2, clip) = focus_capture t vw1
           in if clip \<noteq> None \<and> \<not> tn_up t then Some (vw2, inputs @ outs1, Some Disconnected)
              else let outs = inputs @ outs1 @ (case clip of None \<Rightarrow> [] | Some c \<Rightarrow> [SendToServer (ClipboardData c)])
                   in case tn_frame t of
                        FrameArrived update \<Rightarrow>
                          (case receive_frame zdec (tn_up t) (tn_render t) update vw2 of
                             None \<Rightarrow> None
                           | Some (vw3, outs3, e) \<Rightarrow> Some (vw3, outs @ outs3, e))
                      | FrameStreamError \<Rightarrow> Some (vw2, outs, Some Disconnected)
                      | FrameTimeout \<Rightarrow> Some (vw2, outs, None))"

fun run_session_loop ::
  "(bytes \<Rightarrow> bytes option) \<Rightarrow> turn list \<Rightarrow> viewer \<Rightarrow> (viewer \<times> viewer_out list \<times> session_end option) option" where
  "run_session_loop zdec [] vw = Some (vw, [], None)"
| "run_session_loop zdec (t # ts) vw =
     (case session_turn zdec t vw of
        None \<Rightarrow> None
      | Some (vw1, outs, Some e) \<Rightarrow> Some (vw1, outs, Some e)
      | Some (vw1, outs, None) \<Rightarrow>
          (case run_session_loop zdec ts vw1 of
             None \<Rightarrow> None | Some (vw2, outs2, e) \<Rightarrow> Some (vw2, outs @ outs2, e)))"

subsection \<open>Where the token goes\<close>

lemma allowed_of_entry:
  "hm_get (allowed_of cs) addr = Some c \<Longrightarrow> c \<in> set cs \<and> ca_addr c = addr"
proof -
  have "hm_get (fold (\<lambda>c m. hm_insert (ca_addr c) c m) cs m) addr = Some c \<Longrightarrow>
      hm_get m addr = Some c \<or> c \<in> set cs \<and> ca_addr c = addr" for m
    by (induction cs arbitrary: m) (fastforce split: if_splits)+
  from this [of "[]"] show "hm_get (allowed_of cs) addr = Some c \<Longrightarrow> c \<in> set cs \<and> ca_addr c = addr"
    by (simp add: allowed_of_def)
qed

text \<open>A target the client trusts: a candidate's address with that candidate's name and pin.\<close>

definition trusted_target :: "candidate list \<Rightarrow> candidate \<Rightarrow> bool" where
  "trusted_target cs t \<longleftrightarrow>
     (\<exists>c \<in> set cs. ca_addr t = ca_addr c \<and> ca_name t = ca_name c \<and> ca_fingerprint t = ca_fingerprint c)"

lemma follow_chain_trusted:
  "\<lbrakk> follow_chain env token (allowed_of cs) hop target pins = (pins1, dialled, r); trusted_target cs target \<rbrakk> \<Longrightarrow>
     list_all (trusted_target cs) dialled \<and> length dialled \<le> Suc MAX_REDIRECTS - hop"
proof (induction "Suc MAX_REDIRECTS - hop" arbitrary: hop target pins pins1 dialled r rule: less_induct)
  case less
  show ?case
  proof (cases "hop > MAX_REDIRECTS")
    case True
    with less.prems show ?thesis by (simp add: follow_chain.simps)
  next
    case False
    obtain p res where conn: "connect (di_sha256 env) (di_servers env) (di_input_opens env) (config_for token target) pins = (p, res)"
      by fastforce
    have "dialled = [target] \<or> (\<exists>known resolved dialled2.
        hm_get (allowed_of cs) resolved = Some known \<and> hop < MAX_REDIRECTS \<and> dialled = target # dialled2 \<and>
        (\<exists>p2. follow_chain env token (allowed_of cs) (hop + 1)
          \<lparr> ca_addr = resolved, ca_name = ca_name known, ca_fingerprint = ca_fingerprint known \<rparr> p = (p2, dialled2, r)))"
      using less.prems(1) False
      by (subst (asm) follow_chain.simps)
        (auto simp: conn Let_def split: sum.splits connect_outcome.splits if_splits option.splits prod.splits)
    then show ?thesis
    proof (elim disjE exE conjE)
      assume "dialled = [target]"
      then show ?thesis using less.prems(2) False by simp
    next
      fix known resolved dialled2 p2
      assume k: "hm_get (allowed_of cs) resolved = Some known" "hop < MAX_REDIRECTS" "dialled = target # dialled2"
        and f: "follow_chain env token (allowed_of cs) (hop + 1)
          \<lparr> ca_addr = resolved, ca_name = ca_name known, ca_fingerprint = ca_fingerprint known \<rparr> p = (p2, dialled2, r)"
      have "trusted_target cs \<lparr> ca_addr = resolved, ca_name = ca_name known, ca_fingerprint = ca_fingerprint known \<rparr>"
        using allowed_of_entry [OF k(1)] by (auto simp: trusted_target_def)
      moreover have "Suc MAX_REDIRECTS - hop = Suc (MAX_REDIRECTS - hop)" using k(2) by simp
      ultimately show ?thesis using less.hyps [OF _ f] k(3) less.prems(2) by simp
    qed
  qed
qed

lemma connect_candidates_trusted:
  "\<lbrakk> connect_candidates env token (allowed_of cs) first err todo pins = (pins1, dialled, r); set todo \<subseteq> set cs \<rbrakk> \<Longrightarrow>
     list_all (trusted_target cs) dialled \<and> length dialled \<le> Suc MAX_REDIRECTS * length todo"
proof (induction todo arbitrary: err pins pins1 dialled r)
  case (Cons c todo)
  obtain p d res where chain: "follow_chain env token (allowed_of cs) 0 c pins = (p, d, res)" by (metis prod_cases3)
  have "trusted_target cs c" using Cons.prems(2) by (auto simp: trusted_target_def)
  note d = follow_chain_trusted [OF chain this]
  have "dialled = d \<or> (\<exists>err2 p2 d2 r2. connect_candidates env token (allowed_of cs) first err2 todo p = (p2, d2, r2) \<and> dialled = d @ d2)"
    using Cons.prems(1) by (auto simp: chain split: option.splits sum.splits if_splits prod.splits)
  then show ?case
  proof (elim disjE exE conjE)
    assume "dialled = d"
    then show ?thesis using d by simp
  next
    fix err2 p2 d2 r2
    assume c2: "connect_candidates env token (allowed_of cs) first err2 todo p = (p2, d2, r2)" and "dialled = d @ d2"
    then show ?thesis using d Cons.IH [OF c2] Cons.prems(2) by simp
  qed
qed simp

text \<open>
  C29.  The session token goes to trusted servers only.  However the servers answer, and whatever the
  redirects name, every address the client dials with its token is that of a candidate, under that
  candidate's name and pin; it dials at most four times per candidate, so redirect cycles end; and
  the attempt ends in a connection, a fatal error, or a retry, the latter never on the first attempt.
\<close>
theorem token_to_trusted_servers:
  assumes "connect_following_redirects env cs token first (allowed_of cs) pins = (pins1, dialled, r)"
  shows "list_all (trusted_target cs) dialled \<and> length dialled \<le> 4 * length cs
       \<and> (first \<longrightarrow> r \<noteq> Retry)"
proof -
  have "r \<noteq> Retry" if "first" "connect_candidates env token al first err todo p = (p1, d, r)" for al err todo p p1 d
    using that
  proof (induction todo arbitrary: err p p1 d)
    case (Cons c todo)
    then show ?case by (auto split: option.splits sum.splits if_splits prod.splits)
  qed auto
  then show ?thesis
    using assms connect_candidates_trusted [of env token cs first None cs pins pins1 dialled r]
    by (auto simp: connect_following_redirects_def MAX_REDIRECTS_def)
qed

text \<open>The witness: a candidate whose server sends every client on to an address nobody configured.\<close>

definition luring :: dialing where
  "luring =
     \<lparr> di_sha256 = id,
       di_servers = (\<lambda>a. \<lparr> pr_cert = Some [1], pr_write = Written, pr_answer = (\<lambda>m. Some (SessionRedirect ''x'' ''evil'')) \<rparr>),
       di_input_opens = True, di_parse = Some, di_dns = (\<lambda>h. None) \<rparr>"

theorem token_to_trusted_servers_witness:
  "let cs = [\<lparr> ca_addr = ''home'', ca_name = ''localhost'', ca_fingerprint = None \<rparr>];
       (pins1, dialled, r) = connect_following_redirects luring cs (Some ''t'') True (allowed_of cs) \<lparr> ps_file = None, ps_pins = [] \<rparr>
   in list_all (trusted_target cs) dialled \<and> r \<noteq> Retry"
proof -
  let ?cs = "[\<lparr> ca_addr = ''home'', ca_name = ''localhost'', ca_fingerprint = None \<rparr>]"
  obtain p d r where run: "connect_following_redirects luring ?cs (Some ''t'') True (allowed_of ?cs) \<lparr> ps_file = None, ps_pins = [] \<rparr> = (p, d, r)"
    by (metis prod_cases3)
  from token_to_trusted_servers [OF run] show ?thesis by (simp add: run)
qed

end
