(* ===== verification/Frames.thy ===== *)
theory Frames
  imports Headless Client
begin

text \<open>
  A frame from the renderer to the screen of the viewer: the encoding of the main loop
  (\<open>backend/headless.rs\<close>), the relay of the network thread (\<open>network.rs\<close>) and the viewer's session loop
  (\<open>wrclient/src/main.rs\<close>).  What the renderer promises is the hypothesis that its damage covers the
  change against the frame it rendered before.
\<close>

subsection \<open>What is visible\<close>

text \<open>The server's buffer \<open>px\<close> of stride \<open>s\<close> and the viewer's \<open>fb\<close> of stride \<open>t\<close> show the same picture.\<close>

definition visible_eq :: "nat \<Rightarrow> nat \<Rightarrow> bytes \<Rightarrow> nat \<Rightarrow> bytes \<Rightarrow> nat \<Rightarrow> bool" where
  "visible_eq n rows px s fb t \<longleftrightarrow> (\<forall>r < rows. \<forall>c < n. fb_at px s r c = fb_at fb t r c)"

lemma visible_eq_rows:
  assumes "visible_eq n rows px s fb t" "length px = rows * s" "length fb = rows * t" "n \<le> s" "n \<le> t" "r < rows"
  shows "visible_row px s n r = visible_row fb t n r"
proof (rule nth_equalityI)
  have le: "r * s + n \<le> rows * s" "r * t + n \<le> rows * t" using assms by (auto intro: row_offset_le)
  then have "n \<le> length px - r * s" "n \<le> length fb - r * t" using assms(2,3) by simp_all
  then show "length (visible_row px s n r) = length (visible_row fb t n r)" by (simp add: visible_row_def min_def)
  show "visible_row px s n r ! i = visible_row fb t n r ! i" if "i < length (visible_row px s n r)" for i
    using that assms(1,6) le assms(2,3) by (simp add: visible_row_def visible_eq_def)
qed

lemma visible_eq_checksum:
  assumes "visible_eq n rows px s fb t" "length px = rows * s" "length fb = rows * t" "n \<le> s" "n \<le> t"
  shows "\<exists>crc. checksum px s n rows = Some crc \<and> checksum fb t n rows = Some crc"
  using checksum_same_visible [OF assms(2,4,3,5)] visible_eq_rows [OF assms] by blast

subsection \<open>Damage\<close>

definition geometry_ok :: "int \<Rightarrow> int \<Rightarrow> nat \<Rightarrow> bool" where
  "geometry_ok W H s \<longleftrightarrow> 0 < W \<and> W < 2147483648 \<and> 0 < H \<and> H < 2147483648 \<and> nat W * bpp \<le> s"

fun on_screen :: "int \<Rightarrow> int \<Rightarrow> rect \<Rightarrow> bool" where
  "on_screen W H (x, y, w, h) \<longleftrightarrow> x \<le> W \<and> y \<le> H"

text \<open>The pixels bytes a damage rectangle makes the server send.\<close>

fun in_damage :: "int \<Rightarrow> int \<Rightarrow> rect \<Rightarrow> nat \<Rightarrow> nat \<Rightarrow> bool" where
  "in_damage W H (x, y, w, h) r c \<longleftrightarrow>
     in_rect (nat (max x 0)) (nat (max y 0)) (nat (min w (W - max x 0))) (nat (min h (H - max y 0))) r c"

text \<open>What is sent for a frame: everything, or some rectangles.\<close>

definition sends :: "int \<Rightarrow> int \<Rightarrow> rect list option \<Rightarrow> bool \<Rightarrow> nat \<Rightarrow> nat \<Rightarrow> bool" where
  "sends W H damage force r c \<longleftrightarrow>
     (case damage of None \<Rightarrow> True | Some rects \<Rightarrow> rects = [] \<or> force \<or> (\<exists>rect \<in> set rects. in_damage W H rect r c))"

definition damage_ok :: "int \<Rightarrow> int \<Rightarrow> rect list option \<Rightarrow> bool" where
  "damage_ok W H damage \<longleftrightarrow> (case damage of None \<Rightarrow> True | Some rects \<Rightarrow> list_all (on_screen W H) rects)"

definition damage_covers :: "int \<Rightarrow> int \<Rightarrow> nat \<Rightarrow> bytes \<Rightarrow> bytes \<Rightarrow> rect list option \<Rightarrow> bool" where
  "damage_covers W H s prev px damage \<longleftrightarrow>
     (\<forall>r < nat H. \<forall>c < nat W * bpp. fb_at prev s r c \<noteq> fb_at px s r c \<longrightarrow> sends W H damage False r c)"

lemma unat_of_small: "0 \<le> v \<Longrightarrow> v < 4294967296 \<Longrightarrow> unat (of_int v :: u32) = nat v"
  by (simp add: unsigned_of_int take_bit_int_eq_self)

text \<open>The effect of applying regions that carry the bytes \<open>P\<close> of \<open>px\<close>.\<close>

definition copies ::
  "(bytes \<Rightarrow> bytes option) \<Rightarrow> nat \<Rightarrow> nat \<Rightarrow> bytes \<Rightarrow> nat \<Rightarrow> (nat \<Rightarrow> nat \<Rightarrow> bool) \<Rightarrow> damage_region list \<Rightarrow> bool" where
  "copies zdec n rows px s P regions \<longleftrightarrow>
     (\<forall>fb. length fb = rows * n \<longrightarrow>
        (\<exists>fb'. apply_regions zdec fb n regions = Some fb' \<and> length fb' = rows * n \<and>
           (\<forall>r < rows. \<forall>c < n. fb_at fb' n r c = (if P r c then fb_at px s r c else fb_at fb n r c))))"

lemma copies_Nil: "copies zdec n rows px s (\<lambda>r c. False) []"
  by (simp add: copies_def)

lemma copies_Cons:
  assumes "copies zdec n rows px s P [x]" "copies zdec n rows px s Q xs"
  shows "copies zdec n rows px s (\<lambda>r c. P r c \<or> Q r c) (x # xs)"
  unfolding copies_def
proof (intro allI impI)
  fix fb :: bytes assume len: "length fb = rows * n"
  obtain fb1 where fb1: "apply_region zdec fb n x = Some fb1" "length fb1 = rows * n"
    "\<forall>r < rows. \<forall>c < n. fb_at fb1 n r c = (if P r c then fb_at px s r c else fb_at fb n r c)"
    using assms(1) len unfolding copies_def by (auto split: option.splits)
  obtain fb2 where fb2: "apply_regions zdec fb1 n xs = Some fb2" "length fb2 = rows * n"
    "\<forall>r < rows. \<forall>c < n. fb_at fb2 n r c = (if Q r c then fb_at px s r c else fb_at fb1 n r c)"
    using assms(2) fb1(2) unfolding copies_def by blast
  have "apply_regions zdec fb n (x # xs) = Some fb2" using fb1(1) fb2(1) by simp
  with fb1(3) fb2(2,3) show "\<exists>fb'. apply_regions zdec fb n (x # xs) = Some fb' \<and> length fb' = rows * n \<and>
      (\<forall>r < rows. \<forall>c < n. fb_at fb' n r c = (if P r c \<or> Q r c then fb_at px s r c else fb_at fb n r c))" by auto
qed

lemma copies_empty: "copies zdec n rows px s P [x] \<Longrightarrow> (\<And>r c. \<not> P r c) \<Longrightarrow> copies zdec n rows px s P []"
  by (simp add: copies_def)

lemma copies_cong: "copies zdec n rows px s P xs \<Longrightarrow> (\<And>r c. P r c = Q r c) \<Longrightarrow> copies zdec n rows px s Q xs"
  by (simp add: copies_def)

lemma clamp_span:
  fixes v len L :: int
  assumes "0 \<le> L" "L < 2147483648" "v \<le> L"
  shows "unat (of_int (max v 0) :: u32) = nat (max v 0)"
    "unat (of_int (max (min len (L - max v 0)) 0) :: u32) = nat (max (min len (L - max v 0)) 0)"
    "nat (max v 0) + nat (max (min len (L - max v 0)) 0) \<le> nat L"
    "nat (max (min len (L - max v 0)) 0) = nat (min len (L - max v 0))"
proof -
  obtain a where a: "a = max v 0" "0 \<le> a" "a \<le> L" using assms by simp
  obtain n where n: "n = max (min len (L - a)) 0" "0 \<le> n" "a + n \<le> L" using a by auto
  show "unat (of_int (max v 0) :: u32) = nat (max v 0)"
    "unat (of_int (max (min len (L - max v 0)) 0) :: u32) = nat (max (min len (L - max v 0)) 0)"
    using a n assms(2) by (simp_all add: unat_of_small flip: a(1) n(1))
  show "nat (max v 0) + nat (max (min len (L - max v 0)) 0) \<le> nat L"
    using a n by (simp flip: a(1) n(1) add: nat_add_distrib [symmetric])
  show "nat (max (min len (L - max v 0)) 0) = nat (min len (L - max v 0))" by simp
qed

lemma encode_damage_copies:
  assumes z: "zstd_lossless zenc zdec" and g: "geometry_ok W H s" and rect: "on_screen W H rect"
    and len: "length px = nat H * s"
  shows "\<exists>region. encode_damage zenc px W H s rect = Some region
    \<and> copies zdec (nat W * bpp) (nat H) px s (in_damage W H rect) [region]
    \<and> (dr_width region = 0 \<or> dr_height region = 0 \<longrightarrow> (\<forall>r c. \<not> in_damage W H rect r c))"
proof -
  obtain x y w h where [simp]: "rect = (x, y, w, h)" by (cases rect)
  let ?x = "max x 0" and ?y = "max y 0"
  let ?w = "max (min w (W - ?x)) 0" and ?h = "max (min h (H - ?y)) 0"
  have b: "0 \<le> W" "W < 2147483648" "0 \<le> H" "H < 2147483648" "nat W * bpp \<le> s" "x \<le> W" "y \<le> H"
    using g rect by (auto simp: geometry_ok_def)
  note cx = clamp_span(1) [OF b(1,2,6)] clamp_span(2-4) [OF b(1,2,6), of w]
    and cy = clamp_span(1) [OF b(3,4,7)] clamp_span(2-4) [OF b(3,4,7), of h]
  note u = cx(1) cy(1) cx(2) cy(2) and nw = cx(4) and nh = cy(4)
  have "nat ?x * bpp + nat ?w * bpp \<le> nat W * bpp" using cx(3) by (simp add: bpp_def)
  then have fit: "rect_fits s (nat H) (nat ?x) (nat ?y) (nat ?w) (nat ?h)"
    "rect_fits (nat W * bpp) (nat H) (nat ?x) (nat ?y) (nat ?w) (nat ?h)"
    using b(5) cy(3) unfolding rect_fits_def by (blast intro: order_trans)+
  note e = encode_apply_rect [OF z, of s "nat H" "of_int ?x" "of_int ?y" "of_int ?w" "of_int ?h" px "nat W * bpp",
    unfolded u, OF fit(1) len fit(2)]
  obtain region where r: "encode_region zenc px s (of_int ?x) (of_int ?y) (of_int ?w) (of_int ?h) = Some region"
    using e [of "replicate (nat H * (nat W * bpp)) 0"] by auto
  have "copies zdec (nat W * bpp) (nat H) px s (in_damage W H rect) [region]"
    unfolding copies_def
  proof (intro allI impI)
    fix fb :: bytes assume "length fb = nat H * (nat W * bpp)"
    from e [OF this] r this show "\<exists>fb'. apply_regions zdec fb (nat W * bpp) [region] = Some fb' \<and>
        length fb' = nat H * (nat W * bpp) \<and> (\<forall>r<nat H. \<forall>c<nat W * bpp. fb_at fb' (nat W * bpp) r c =
           (if in_damage W H rect r c then fb_at px s r c else fb_at fb (nat W * bpp) r c))"
      by (auto simp: nw nh)
  qed
  moreover have "dr_width region = of_int ?w \<and> dr_height region = of_int ?h"
    using r by (auto simp: encode_region_def Let_def split: option.splits)
  then have "dr_width region = 0 \<or> dr_height region = 0 \<Longrightarrow> nat ?w = 0 \<or> nat ?h = 0"
    using u(3,4) by (metis unat_0)
  then have "dr_width region = 0 \<or> dr_height region = 0 \<longrightarrow> (\<forall>r c. \<not> in_damage W H rect r c)"
    by (auto simp: in_rect_def)
  ultimately show ?thesis using r by (auto simp: encode_damage_def)
qed

lemma encode_damages_copy:
  assumes "zstd_lossless zenc zdec" "geometry_ok W H s" "length px = nat H * s" "list_all (on_screen W H) rects"
  shows "\<exists>regions. map_panic (encode_damage zenc px W H s) rects = Some regions
    \<and> copies zdec (nat W * bpp) (nat H) px s (\<lambda>r c. \<exists>rect \<in> set rects. in_damage W H rect r c)
         (filter (\<lambda>r. dr_width r > 0 \<and> dr_height r > 0) regions)"
  using assms(4)
proof (induction rects)
  case Nil
  then show ?case by (simp add: copies_Nil)
next
  case (Cons rect rects)
  obtain regions where rs: "map_panic (encode_damage zenc px W H s) rects = Some regions"
    "copies zdec (nat W * bpp) (nat H) px s (\<lambda>r c. \<exists>rect \<in> set rects. in_damage W H rect r c)
       (filter (\<lambda>r. dr_width r > 0 \<and> dr_height r > 0) regions)"
    using Cons by auto
  obtain region where r: "encode_damage zenc px W H s rect = Some region"
    "copies zdec (nat W * bpp) (nat H) px s (in_damage W H rect) [region]"
    "dr_width region = 0 \<or> dr_height region = 0 \<longrightarrow> (\<forall>r c. \<not> in_damage W H rect r c)"
    using encode_damage_copies [OF assms(1,2) _ assms(3), of rect] Cons.prems by auto
  have "copies zdec (nat W * bpp) (nat H) px s (\<lambda>r c. \<exists>rect \<in> set (rect # rects). in_damage W H rect r c)
      (filter (\<lambda>r. dr_width r > 0 \<and> dr_height r > 0) (region # regions))"
  proof (cases "dr_width region > 0 \<and> dr_height region > 0")
    case True
    then show ?thesis using copies_Cons [OF r(2) rs(2)] by (simp add: copies_def)
  next
    case False
    then have "\<not> in_damage W H rect i j" for i j using r(3) by (auto simp: word_gt_0)
    moreover have "filter (\<lambda>r. dr_width r > 0 \<and> dr_height r > 0) (region # regions)
        = filter (\<lambda>r. dr_width r > 0 \<and> dr_height r > 0) regions" using False by auto
    ultimately show ?thesis using rs(2) by simp
  qed
  with rs(1) r(1) show ?case by simp
qed

lemma full_frame:
  assumes "geometry_ok W H s"
  shows "encode_region zenc px s 0 0 (of_int W) (of_int H) = encode_damage zenc px W H s (0, 0, W, H)"
    and "r < nat H \<Longrightarrow> c < nat W * bpp \<Longrightarrow> in_damage W H (0, 0, W, H) r c" and "on_screen W H (0, 0, W, H)"
  using assms by (auto simp: encode_damage_def geometry_ok_def in_rect_def)

lemma frame_regions_copy:
  assumes "zstd_lossless zenc zdec" "geometry_ok W H s" "length px = nat H * s" "damage_ok W H damage"
  shows "\<exists>regions. frame_regions zenc px damage W H s force = Some regions
    \<and> copies zdec (nat W * bpp) (nat H) px s (sends W H damage force) regions"
proof -
  obtain region where full: "encode_region zenc px s 0 0 (of_int W) (of_int H) = Some region"
    "copies zdec (nat W * bpp) (nat H) px s (in_damage W H (0, 0, W, H)) [region]"
    using encode_damage_copies [OF assms(1,2) full_frame(3) [OF assms(2)] assms(3)] full_frame(1) [OF assms(2)]
    by metis
  have all: "copies zdec (nat W * bpp) (nat H) px s (\<lambda>r c. True) [region]"
    using full(2) full_frame(2) [OF assms(2)] unfolding copies_def by auto
  show ?thesis
  proof (cases "\<exists>rects. damage = Some rects \<and> rects \<noteq> [] \<and> \<not> force")
    case True
    then obtain rects where d: "damage = Some rects" "rects \<noteq> []" "\<not> force" by blast
    with assms(4) have "list_all (on_screen W H) rects" by (simp add: damage_ok_def)
    from encode_damages_copy [OF assms(1-3) this] d show ?thesis
      by (auto simp: frame_regions_def sends_def [abs_def])
  next
    case False
    then have "sends W H damage force = (\<lambda>r c. True)"
      by (intro ext) (auto simp: sends_def split: option.splits)
    moreover have "frame_regions zenc px damage W H s force = Some [region]"
      using False full(1) by (auto simp: frame_regions_def split: option.splits)
    ultimately show ?thesis using all by simp
  qed
qed

subsection \<open>One frame\<close>

text \<open>The viewer's buffer shows the picture \<open>px\<close>.\<close>

abbreviation shows_picture :: "int \<Rightarrow> int \<Rightarrow> nat \<Rightarrow> bytes \<Rightarrow> bytes \<Rightarrow> bool" where
  "shows_picture W H s px fb \<equiv> visible_eq (nat W * bpp) (nat H) px s fb (nat W * bpp)"

text \<open>
  A message carries the picture \<open>px\<close>: applying its regions makes any buffer show \<open>px\<close> if it is a
  keyframe, and a buffer that shows the previous picture if it is a delta, with the checksum sent.
\<close>

definition carries ::
  "(bytes \<Rightarrow> bytes option) \<Rightarrow> int \<Rightarrow> int \<Rightarrow> nat \<Rightarrow> bytes option \<Rightarrow> bytes \<Rightarrow> compositor_to_net \<Rightarrow> bool" where
  "carries zdec W H s prev px msg \<longleftrightarrow>
     (\<exists>f. frame_of msg = Some f \<and> (is_keyframe msg \<or> prev \<noteq> None) \<and>
        (\<forall>fb. length fb = nat H * (nat W * bpp) \<longrightarrow>
           is_keyframe msg \<or> (\<exists>old. prev = Some old \<and> shows_picture W H s old fb) \<longrightarrow>
           (\<exists>fb'. apply_regions zdec fb (nat W * bpp) (fu_regions f) = Some fb' \<and> length fb' = nat H * (nat W * bpp)
              \<and> shows_picture W H s px fb' \<and> checksum fb' (nat W * bpp) (nat W * bpp) (nat H) = Some (fu_checksum f))))"

lemma carries_frame:
  assumes g: "geometry_ok W H s" "length px = nat H * s"
    and c: "copies zdec (nat W * bpp) (nat H) px s (sends W H damage force) regions"
    and crc: "checksum px s (nat W * bpp) (nat H) = Some (fu_checksum f)" and f: "fu_regions f = regions"
    and delta: "\<not> force \<Longrightarrow> damage_covers W H s prev px damage"
  shows "carries zdec W H s (if force then None else Some prev) px (if force then SendKeyframe f else SendFrame f)"
proof -
  let ?n = "nat W * bpp" and ?rows = "nat H"
  have "\<exists>fb'. apply_regions zdec fb ?n regions = Some fb' \<and> length fb' = ?rows * ?n
      \<and> shows_picture W H s px fb' \<and> checksum fb' ?n ?n ?rows = Some (fu_checksum f)"
    if fb: "length fb = ?rows * ?n" "\<not> force \<Longrightarrow> shows_picture W H s prev fb" for fb
  proof -
    obtain fb' where a: "apply_regions zdec fb ?n regions = Some fb'" "length fb' = ?rows * ?n"
      and at: "\<forall>r < ?rows. \<forall>c < ?n. fb_at fb' ?n r c = (if sends W H damage force r c then fb_at px s r c else fb_at fb ?n r c)"
      using c fb(1) unfolding copies_def by blast
    have "fb_at px s r c = fb_at fb' ?n r c" if rc: "r < ?rows" "c < ?n" for r c
    proof (cases "sends W H damage force r c")
      case True
      then show ?thesis using at rc by simp
    next
      case False
      then have nf: "\<not> force" by (auto simp: sends_def split: option.splits)
      with False have "fb_at prev s r c = fb_at px s r c"
        using delta rc unfolding damage_covers_def by auto
      moreover have "fb_at prev s r c = fb_at fb ?n r c" using fb(2) [OF nf] rc by (simp add: visible_eq_def)
      ultimately show ?thesis using at rc False by simp
    qed
    then have show_px: "shows_picture W H s px fb'" by (simp add: visible_eq_def)
    from g(1) have "?n \<le> s" by (simp add: geometry_ok_def)
    from visible_eq_checksum [OF show_px g(2) a(2) this order_refl] crc
    have "checksum fb' ?n ?n ?rows = Some (fu_checksum f)" by auto
    with a show_px show ?thesis by blast
  qed
  then show ?thesis by (auto simp: carries_def frame_of_def is_keyframe_def f)
qed

lemma send_frame_carries:
  assumes z: "zstd_lossless zenc zdec" and g: "geometry_ok W H s" "length px = nat H * s" "damage_ok W H damage"
    and delta: "hd_force_keyframe h \<or> damage_covers W H s (hd_previous_frame h) px damage"
  shows "\<exists>h1 m. send_frame_to_network zenc sent px damage W H s h = Some (h1, m)
    \<and> (m = None \<longrightarrow> h1 = h \<and> \<not> hd_force_keyframe h \<and> px = hd_previous_frame h)
    \<and> (\<forall>msg. m = Some msg \<longrightarrow>
          carries zdec W H s (if hd_force_keyframe h then None else Some (hd_previous_frame h)) px msg
        \<and> hd_previous_frame h1 = px \<and> \<not> hd_force_keyframe h1 \<and> hd_client_connected h1 = (hd_client_connected h \<and> sent))"
proof (cases "\<not> hd_force_keyframe h \<and> px = hd_previous_frame h")
  case True
  then show ?thesis by (simp add: send_frame_to_network_def)
next
  case False
  let ?force = "hd_force_keyframe h \<or> hd_frames_since_keyframe h \<ge> KEYFRAME_INTERVAL"
  obtain regions where r: "frame_regions zenc px damage W H s ?force = Some regions"
    "copies zdec (nat W * bpp) (nat H) px s (sends W H damage ?force) regions"
    using frame_regions_copy [OF z g, of ?force] by auto
  have "nat W * bpp \<le> s" using g(1) by (simp add: geometry_ok_def)
  then obtain crc where crc: "checksum px s (nat W * bpp) (nat H) = Some crc"
    using checksum_visible [OF g(2)] by blast
  define f where "f = \<lparr> fu_sequence = hd_frame_sequence h + 1, fu_regions = regions, fu_checksum = crc \<rparr>"
  have "carries zdec W H s (if ?force then None else Some (hd_previous_frame h)) px
      (if ?force then SendKeyframe f else SendFrame f)"
    using delta crc by (intro carries_frame [OF g(1,2) r(2)]) (auto simp: f_def)
  then have c: "carries zdec W H s (if hd_force_keyframe h then None else Some (hd_previous_frame h)) px
      (if ?force then SendKeyframe f else SendFrame f)"
    by (auto simp: carries_def is_keyframe_def split: if_splits)
  have eq: "send_frame_to_network zenc sent px damage W H s h =
      Some (h\<lparr> hd_force_keyframe := False,
              hd_frames_since_keyframe := (if ?force then 0 else hd_frames_since_keyframe h + 1),
              hd_frame_sequence := hd_frame_sequence h + 1,
              hd_client_connected := (hd_client_connected h \<and> sent), hd_previous_frame := px \<rparr>,
            Some (if ?force then SendKeyframe f else SendFrame f))"
    using False r(1) crc by (simp add: send_frame_to_network_def Let_def f_def bpp_def)
  show ?thesis unfolding eq using c by simp
qed

subsection \<open>A stream of frames\<close>

text \<open>
  What the main loop does that bears on frames: it handles a network event, or renders: \<open>None\<close> when
  the renderer fails, else pixels and damage.
\<close>

datatype stream_op = Net surroundings net_to_compositor | Frame "(bytes \<times> rect list option) option"

fun stream_step ::
  "(bytes \<Rightarrow> bytes option) \<Rightarrow> (win \<Rightarrow> rect option) \<Rightarrow> int \<Rightarrow> int \<Rightarrow> nat \<Rightarrow> stream_op \<Rightarrow> headless
     \<Rightarrow> (headless \<times> headless_out list) option" where
  "stream_step zenc geo W H s (Net env e) h = Some (network_event env e h)"
| "stream_step zenc geo W H s (Frame rendered) h =
     map_option (\<lambda>(h1, outs, elements). (h1, outs)) (render_headless_frame zenc True geo rendered W H s h)"

definition queued :: "headless_out list \<Rightarrow> compositor_to_net list" where
  "queued outs = List.map_filter (\<lambda>out. case out of ToNet m \<Rightarrow> Some m | _ \<Rightarrow> None) outs"

fun picture :: "stream_op \<Rightarrow> bytes" where
  "picture (Frame (Some (px, damage))) = px"
| "picture _ = []"

text \<open>The frames queued by a run, each with the picture it was made of; \<open>None\<close> for a panic.\<close>

fun stream_log ::
  "(bytes \<Rightarrow> bytes option) \<Rightarrow> (win \<Rightarrow> rect option) \<Rightarrow> int \<Rightarrow> int \<Rightarrow> nat \<Rightarrow> stream_op list \<Rightarrow> headless
     \<Rightarrow> (bytes \<times> compositor_to_net) list option" where
  "stream_log zenc geo W H s [] h = Some []"
| "stream_log zenc geo W H s (op # ops) h =
     (case stream_step zenc geo W H s op h of
        None \<Rightarrow> None
      | Some (h1, outs) \<Rightarrow> map_option ((@) (map (Pair (picture op)) (queued outs))) (stream_log zenc geo W H s ops h1))"

text \<open>The renderer's promise: the damage covers what changed since the last picture, \<open>cur\<close>.\<close>

fun damage_history :: "int \<Rightarrow> int \<Rightarrow> nat \<Rightarrow> bytes \<Rightarrow> stream_op list \<Rightarrow> bool" where
  "damage_history W H s cur [] = True"
| "damage_history W H s cur (Frame (Some (px, damage)) # ops) =
     (length px = nat H * s \<and> damage_ok W H damage \<and> damage_covers W H s cur px damage \<and> damage_history W H s px ops)"
| "damage_history W H s cur (op # ops) = damage_history W H s cur ops"

fun chained :: "(bytes \<Rightarrow> bytes option) \<Rightarrow> int \<Rightarrow> int \<Rightarrow> nat \<Rightarrow> bytes option \<Rightarrow> (bytes \<times> compositor_to_net) list \<Rightarrow> bool" where
  "chained zdec W H s prev [] = True"
| "chained zdec W H s prev ((px, m) # ms) = (carries zdec W H s prev px m \<and> chained zdec W H s (Some px) ms)"

lemma chained_append:
  "chained zdec W H s prev (xs @ ys) \<Longrightarrow> \<exists>prev'. chained zdec W H s prev' ys"
  by (induction zdec W H s prev xs rule: chained.induct) auto

lemma chained_take: "chained zdec W H s prev (xs @ ys) \<Longrightarrow> chained zdec W H s prev xs"
  by (induction zdec W H s prev xs rule: chained.induct) auto

lemma carries_None: "carries zdec W H s None px m \<Longrightarrow> carries zdec W H s prev px m"
  by (auto simp: carries_def)

lemma carries_ex_frame: "carries zdec W H s prev px m \<Longrightarrow> \<exists>f. frame_of m = Some f"
  by (auto simp: carries_def)

text \<open>What a delta is made against: once frames go out, the last picture that was sent.\<close>

definition stream_inv :: "bytes \<Rightarrow> bytes option \<Rightarrow> headless \<Rightarrow> bool" where
  "stream_inv cur prev h \<longleftrightarrow>
     hd_client_connected h \<and> \<not> hd_force_keyframe h \<longrightarrow> hd_previous_frame h = cur \<and> prev = Some cur"

definition frame_fields :: "headless \<Rightarrow> bool \<times> bool \<times> bytes" where
  "frame_fields h = (hd_client_connected h, hd_force_keyframe h, hd_previous_frame h)"

lemma frame_fields_simps [simp]:
  "frame_fields (h\<lparr> hd_registry := r \<rparr>) = frame_fields h"
  "frame_fields (h\<lparr> hd_state := st \<rparr>) = frame_fields h"
  "frame_fields (h\<lparr> hd_peer_pin_store := ps \<rparr>) = frame_fields h"
  "frame_fields (fst (discover_remote_home env tok h)) = frame_fields h"
  "frame_fields (fst (pick_peer_for_new_session env h)) = frame_fields h"
  by (auto simp: frame_fields_def discover_remote_home_def pick_peer_for_new_session_def Let_def split: prod.split)

lemma frame_fields_resolve: "resolve_session env tok h = (h1, r) \<Longrightarrow> frame_fields h1 = frame_fields h"
  using frame_fields_simps(5) [of env h]
  by (auto simp: resolve_session_def Let_def split: option.splits prod.splits session_state.splits simp del: frame_fields_simps(5))

lemma frame_fields_location: "resolve_location env tok h = (h1, loc) \<Longrightarrow> frame_fields h1 = frame_fields h"
  using frame_fields_simps(4) [of env tok h]
  by (auto simp: resolve_location_def split: option.splits prod.splits session_location.splits simp del: frame_fields_simps(4))

lemma stream_inv_fields: "frame_fields h1 = frame_fields h \<Longrightarrow> stream_inv cur prev h \<Longrightarrow> stream_inv cur prev h1"
  by (simp add: stream_inv_def frame_fields_def)

lemma bind_session_fields:
  "bind_session env tok addr h = (h1, outs) \<Longrightarrow> frame_fields h1 = frame_fields h \<or> hd_force_keyframe h1"
  using frame_fields_resolve [of env tok h]
  by (auto simp: bind_session_def publish_cluster_state_def split: prod.splits sum.splits)

lemma network_event_fields:
  assumes "network_event env e h = (h1, outs)"
  shows "frame_fields h1 = frame_fields h \<or> hd_force_keyframe h1 \<or> \<not> hd_client_connected h1"
proof (cases e)
  case (ClientConnected hello addr)
  obtain h0 loc where loc: "resolve_location env (connecting_token env hello) h = (h0, loc)" by fastforce
  from assms ClientConnected loc bind_session_fields [of env "connecting_token env hello" addr h0 h1 outs]
    frame_fields_location [OF loc]
  show ?thesis by (auto simp: client_connected_def Let_def split: session_location.splits option.splits)
next
  case (Control ctrl)
  with assms show ?thesis
    by (auto simp: handle_control_def Let_def split: control_message.splits prod.splits)
qed (use assms in \<open>auto simp: client_disconnected_def publish_cluster_state_def Let_def split: prod.splits\<close>)

lemma network_event_inv:
  "network_event env e h = (h1, outs) \<Longrightarrow> stream_inv cur prev h \<Longrightarrow> stream_inv cur prev h1"
  using network_event_fields [of env e h h1 outs] stream_inv_fields [of h1 h] by (auto simp: stream_inv_def)

lemma queued_simps [simp]:
  "queued [] = []" "queued (ToNet m # outs) = m # queued outs" "queued (SeatEvent ev # outs) = queued outs"
  "queued (Reply d # outs) = queued outs" "queued (LauncherSessionCreated t # outs) = queued outs"
  "queued (map SeatEvent evs) = []" "queued (map SeatEvent evs @ outs) = queued outs"
  by (simp_all add: queued_def List.map_filter_simps) (induction evs; simp add: List.map_filter_simps)+

lemma network_event_queued: "network_event env e h = (h1, outs) \<Longrightarrow> queued outs = []"
  by (cases e)
    (auto simp: client_connected_def bind_session_def client_disconnected_def handle_control_def Let_def
      split: prod.splits sum.splits session_location.splits option.splits control_message.splits if_splits)

lemma stream_step_frame:
  assumes z: "zstd_lossless zenc zdec" and g: "geometry_ok W H s"
    and d: "damage_history W H s cur (Frame rendered # ops)" and inv: "stream_inv cur prev h"
  shows "\<exists>h1 outs. stream_step zenc geo W H s (Frame rendered) h = Some (h1, outs)
    \<and> (\<exists>prev' cur'. damage_history W H s cur' ops \<and> stream_inv cur' prev' h1
        \<and> (\<forall>ms. chained zdec W H s prev' ms \<longrightarrow>
              chained zdec W H s prev (map (Pair (picture (Frame rendered))) (queued outs) @ ms)))"
proof -
  obtain st evs where st: "render_wm_phase (hd_state h) = (st, evs)" by fastforce
  obtain bs els where bs: "collect_border_elements geo st (hd_border_buffers h) = (bs, els)" by fastforce
  let ?h = "h\<lparr> hd_state := st, hd_border_buffers := bs \<rparr>"
  have inv': "stream_inv cur prev ?h" using inv by (simp add: stream_inv_def)
  show ?thesis
  proof (cases rendered)
    case None
    then show ?thesis using d inv' by (auto simp: render_headless_frame_def st bs)
  next
    case (Some r)
    then obtain px damage where r: "rendered = Some (px, damage)" by (cases r) auto
    with d have px: "length px = nat H * s" "damage_ok W H damage" "damage_covers W H s cur px damage"
      "damage_history W H s px ops" by simp_all
    show ?thesis
    proof (cases "hd_client_connected h")
      case False
      then have "stream_inv px prev ?h" by (simp add: stream_inv_def)
      then show ?thesis using px(4) False by (auto simp: render_headless_frame_def st bs r)
    next
      case True
      then have delta: "hd_force_keyframe ?h \<or> damage_covers W H s (hd_previous_frame ?h) px damage"
        using inv' px(3) by (auto simp: stream_inv_def)
      obtain h1 m where sent: "send_frame_to_network zenc True px damage W H s ?h = Some (h1, m)"
        and none: "m = None \<Longrightarrow> h1 = ?h \<and> \<not> hd_force_keyframe ?h \<and> px = hd_previous_frame ?h"
        and some: "\<And>msg. m = Some msg \<Longrightarrow>
              carries zdec W H s (if hd_force_keyframe ?h then None else Some (hd_previous_frame ?h)) px msg
            \<and> hd_previous_frame h1 = px \<and> \<not> hd_force_keyframe h1"
        using send_frame_carries [OF z g px(1,2) delta, of True] by blast
      have step: "stream_step zenc geo W H s (Frame rendered) h =
          Some (h1, map SeatEvent evs @ (case m of None \<Rightarrow> [] | Some m \<Rightarrow> [ToNet m]))"
        using True sent by (simp add: render_headless_frame_def st bs r)
      show ?thesis
      proof (cases m)
        case None
        with none have "stream_inv px prev h1" using inv' True by (auto simp: stream_inv_def)
        then show ?thesis using step px(4) None by (simp del: stream_step.simps) blast
      next
        case (Some msg)
        with some have "stream_inv px (Some px) h1" by (simp add: stream_inv_def)
        moreover have "carries zdec W H s prev px msg"
          using some [OF Some] inv' True
          by (cases "hd_force_keyframe h") (auto simp: stream_inv_def intro: carries_None)
        ultimately show ?thesis using step px(4) Some r by (simp del: stream_step.simps) blast
      qed
    qed
  qed
qed

lemma stream_log_chained:
  assumes z: "zstd_lossless zenc zdec" and g: "geometry_ok W H s"
  shows "damage_history W H s cur ops \<Longrightarrow> stream_inv cur prev h \<Longrightarrow>
    \<exists>ms. stream_log zenc geo W H s ops h = Some ms \<and> chained zdec W H s prev ms"
proof (induction ops arbitrary: cur prev h)
  case Nil
  then show ?case by simp
next
  case (Cons op ops)
  show ?case
  proof (cases op)
    case (Net env e)
    obtain h1 outs where n: "network_event env e h = (h1, outs)" by fastforce
    have "damage_history W H s cur ops" using Cons.prems(1) Net by simp
    from Cons.IH [OF this network_event_inv [OF n Cons.prems(2)]] show ?thesis
      using network_event_queued [OF n] by (auto simp: Net n)
  next
    case (Frame rendered)
    from stream_step_frame [OF z g Cons.prems [unfolded Frame], of geo]
    obtain h1 outs prev' cur' where f: "stream_step zenc geo W H s (Frame rendered) h = Some (h1, outs)"
      "damage_history W H s cur' ops" "stream_inv cur' prev' h1"
      "\<And>ms. chained zdec W H s prev' ms \<Longrightarrow>
         chained zdec W H s prev (map (Pair (picture (Frame rendered))) (queued outs) @ ms)"
      by blast
    from Cons.IH [OF f(2,3)] f(1,4) show ?thesis by (auto simp: Frame simp del: stream_step.simps)
  qed
qed

subsection \<open>The viewer's side\<close>

definition turn_frames :: "turn list \<Rightarrow> frame_update list" where
  "turn_frames ts = List.map_filter (\<lambda>t. case tn_frame t of FrameArrived f \<Rightarrow> Some f | _ \<Rightarrow> None) ts"

lemma turn_frames_simps [simp]:
  "turn_frames [] = []"
  "turn_frames (t # ts) = (case tn_frame t of FrameArrived f \<Rightarrow> f # turn_frames ts | _ \<Rightarrow> turn_frames ts)"
  by (simp_all add: turn_frames_def List.map_filter_simps split: frame_arrival.split)

text \<open>A turn in which the connection and the render thread are there.\<close>

definition calm :: "turn \<Rightarrow> bool" where
  "calm t \<longleftrightarrow> tn_up t \<and> tn_render t \<and> tn_frame t \<noteq> FrameStreamError"

lemma viewer_controls_picture:
  "viewer_controls ms vw = (vw1, outs) \<Longrightarrow>
     vw_framebuffer vw1 = vw_framebuffer vw \<and> vw_stride vw1 = vw_stride vw
     \<and> vw_keyframe_pending vw1 = vw_keyframe_pending vw \<and> SendToServer RequestKeyframe \<notin> set outs"
proof (induction ms arbitrary: vw vw1 outs)
  case (Cons m ms)
  obtain v o1 where 1: "viewer_control m vw = (v, o1)" by fastforce
  obtain v2 o2 where 2: "viewer_controls ms v = (v2, o2)" by fastforce
  have "vw_framebuffer v = vw_framebuffer vw \<and> vw_stride v = vw_stride vw
      \<and> vw_keyframe_pending v = vw_keyframe_pending vw \<and> SendToServer RequestKeyframe \<notin> set o1"
    using 1 by (auto simp: viewer_control_def split: control_message.splits prod.splits option.splits)
  with Cons.IH [OF 2] Cons.prems show ?case by (auto simp: 1 2)
qed simp

lemma session_turn_picture:
  assumes c: "calm t" and fb: "vw_stride vw = n" "0 < n" "length (vw_framebuffer vw) = rows * n"
  shows "\<exists>vw2 outs. vw_framebuffer vw2 = vw_framebuffer vw \<and> vw_stride vw2 = n
    \<and> SendToServer RequestKeyframe \<notin> set outs
    \<and> session_turn zdec t vw =
        (case tn_frame t of
           FrameArrived f \<Rightarrow> map_option (\<lambda>(vw3, outs3, e). (vw3, outs @ outs3, e)) (receive_frame zdec True True f vw2)
         | _ \<Rightarrow> Some (vw2, outs, None))"
proof -
  obtain vw1 outs1 where 1: "viewer_controls (tn_controls t) vw = (vw1, outs1)" by fastforce
  obtain vw2 clip where 2: "focus_capture t vw1 = (vw2, clip)" by fastforce
  have v2: "vw_framebuffer vw2 = vw_framebuffer vw1" "vw_stride vw2 = vw_stride vw1"
    using 2 by (auto simp: focus_capture_def Let_def split: if_splits prod.splits)
  let ?outs = "map SendInput (tn_inputs t) @ outs1 @ (case clip of None \<Rightarrow> [] | Some c \<Rightarrow> [SendToServer (ClipboardData c)])"
  have "SendToServer RequestKeyframe \<notin> set ?outs"
    using viewer_controls_picture [OF 1] by (auto split: option.splits)
  moreover have "session_turn zdec t vw = (case tn_frame t of
           FrameArrived f \<Rightarrow> map_option (\<lambda>(vw3, outs3, e). (vw3, ?outs @ outs3, e)) (receive_frame zdec True True f vw2)
         | _ \<Rightarrow> Some (vw2, ?outs, None))"
    using c by (auto simp: session_turn_def calm_def 1 2 Let_def split: frame_arrival.splits option.splits)
  ultimately show ?thesis using v2 viewer_controls_picture [OF 1] fb(1) by metis
qed

lemma receive_frame_picture:
  assumes "vw_stride vw = n" "0 < n" "apply_regions zdec (vw_framebuffer vw) n (fu_regions f) = Some fb'"
    and "length fb' = rows * n" "checksum fb' n n rows = Some (fu_checksum f)"
  shows "\<exists>vw' outs. receive_frame zdec True True f vw = Some (vw', outs, None) \<and> vw_framebuffer vw' = fb'
    \<and> vw_stride vw' = n \<and> SendToServer RequestKeyframe \<notin> set outs \<and> \<not> vw_keyframe_pending vw'"
  using assms by (simp add: receive_frame_def Let_def)

text \<open>What the viewer shows after receiving frames that carry pictures.\<close>

definition showing :: "int \<Rightarrow> int \<Rightarrow> nat \<Rightarrow> bytes option \<Rightarrow> viewer \<Rightarrow> bool" where
  "showing W H s px vw \<longleftrightarrow> (case px of None \<Rightarrow> True | Some p \<Rightarrow> shows_picture W H s p (vw_framebuffer vw))"

definition viewer_size :: "int \<Rightarrow> int \<Rightarrow> viewer \<Rightarrow> bool" where
  "viewer_size W H vw \<longleftrightarrow> vw_stride vw = nat W * bpp \<and> length (vw_framebuffer vw) = nat H * (nat W * bpp)"

definition last_picture :: "bytes option \<Rightarrow> (bytes \<times> compositor_to_net) list \<Rightarrow> bytes option" where
  "last_picture prev ms = (if ms = [] then prev else Some (fst (last ms)))"

lemma last_picture_Cons [simp]: "last_picture prev ((px, m) # ms) = last_picture (Some px) ms"
  by (simp add: last_picture_def)

lemma viewer_shows_run:
  assumes g: "geometry_ok W H s"
  shows "\<lbrakk> list_all calm ts; viewer_size W H vw; chained zdec W H s prev ms; List.map_filter frame_of (map snd ms) = turn_frames ts;
      showing W H s prev vw; ms \<noteq> [] \<and> is_keyframe (snd (hd ms)) \<or> prev \<noteq> None \<or> ms = [] \<rbrakk> \<Longrightarrow>
    \<exists>vw' outs. run_session_loop zdec ts vw = Some (vw', outs, None) \<and> viewer_size W H vw'
      \<and> SendToServer RequestKeyframe \<notin> set outs \<and> showing W H s (last_picture prev ms) vw'"
proof (induction ts arbitrary: vw prev ms)
  case Nil
  have "ms = []"
  proof (cases ms)
    case (Cons p ms')
    obtain px m where "p = (px, m)" by fastforce
    with Nil.prems Cons show ?thesis by (auto simp: List.map_filter_simps dest!: carries_ex_frame)
  qed simp
  with Nil.prems show ?case by (simp add: last_picture_def)
next
  case (Cons t ts)
  let ?n = "nat W * bpp"
  have n: "0 < ?n" using g by (simp add: geometry_ok_def bpp_def)
  have calm: "calm t" "list_all calm ts" using Cons.prems(1) by simp_all
  have size: "vw_stride vw = ?n" "length (vw_framebuffer vw) = nat H * ?n" using Cons.prems(2) by (simp_all add: viewer_size_def)
  obtain vw2 outs where t: "vw_framebuffer vw2 = vw_framebuffer vw" "vw_stride vw2 = ?n" "SendToServer RequestKeyframe \<notin> set outs"
    and turn: "session_turn zdec t vw = (case tn_frame t of
           FrameArrived f \<Rightarrow> map_option (\<lambda>(vw3, outs3, e). (vw3, outs @ outs3, e)) (receive_frame zdec True True f vw2)
         | _ \<Rightarrow> Some (vw2, outs, None))"
    using session_turn_picture [OF calm(1) size(1) n size(2), of zdec] by blast
  show ?case
  proof (cases "tn_frame t")
    case FrameTimeout
    have "viewer_size W H vw2" "showing W H s prev vw2"
      using Cons.prems(5) t size by (simp_all add: viewer_size_def showing_def cong: option.case_cong)
    moreover have "List.map_filter frame_of (map snd ms) = turn_frames ts" using Cons.prems(4) FrameTimeout by simp
    ultimately obtain vw' outs' where "run_session_loop zdec ts vw2 = Some (vw', outs', None)" "viewer_size W H vw'"
      "SendToServer RequestKeyframe \<notin> set outs'" "showing W H s (last_picture prev ms) vw'"
      using Cons.IH [OF calm(2) _ Cons.prems(3) _ _ Cons.prems(6)] by blast
    then show ?thesis using turn t(3) FrameTimeout by simp
  next
    case (FrameArrived f)
    then obtain px m ms' where ms: "ms = (px, m) # ms'" using Cons.prems(4) by (cases ms) (auto simp: List.map_filter_simps)
    with Cons.prems(3) have c: "carries zdec W H s prev px m" "chained zdec W H s (Some px) ms'" by simp_all
    from carries_ex_frame [OF c(1)] Cons.prems(4) FrameArrived ms have f: "frame_of m = Some f"
      and rest: "List.map_filter frame_of (map snd ms') = turn_frames ts" by (auto simp: List.map_filter_simps)
    have "is_keyframe m \<or> (\<exists>old. prev = Some old \<and> shows_picture W H s old (vw_framebuffer vw2))"
      using Cons.prems(5,6) ms t(1) by (auto simp: showing_def)
    then obtain fb' where fb': "apply_regions zdec (vw_framebuffer vw2) ?n (fu_regions f) = Some fb'"
      "length fb' = nat H * ?n" "shows_picture W H s px fb'" "checksum fb' ?n ?n (nat H) = Some (fu_checksum f)"
      using c(1) f t(1) size(2) unfolding carries_def by auto
    obtain vw3 outs3 where v3: "receive_frame zdec True True f vw2 = Some (vw3, outs3, None)" "vw_framebuffer vw3 = fb'"
      "vw_stride vw3 = ?n" "SendToServer RequestKeyframe \<notin> set outs3"
      using receive_frame_picture [OF t(2) n fb'(1,2,4)] by blast
    have "viewer_size W H vw3" "showing W H s (Some px) vw3" using v3 fb' by (simp_all add: viewer_size_def showing_def)
    then obtain vw' outs' where "run_session_loop zdec ts vw3 = Some (vw', outs', None)" "viewer_size W H vw'"
      "SendToServer RequestKeyframe \<notin> set outs'" "showing W H s (last_picture (Some px) ms') vw'"
      using Cons.IH [OF calm(2) _ c(2) rest] by blast
    then show ?thesis using turn t(3) v3(1,4) FrameArrived ms by auto
  next
    case FrameStreamError
    with calm(1) show ?thesis by (simp add: calm_def)
  qed
qed

lemma forced_frame:
  assumes "zstd_lossless zenc zdec" "geometry_ok W H s" "length px = nat H * s" "damage_ok W H damage"
    and "hd_client_connected h" "hd_force_keyframe h"
  shows "\<exists>h2 outs k. stream_step zenc geo W H s (Frame (Some (px, damage))) h = Some (h2, outs)
    \<and> queued outs = [SendKeyframe k] \<and> carries zdec W H s None px (SendKeyframe k)"
proof -
  obtain st evs where st: "render_wm_phase (hd_state h) = (st, evs)" by fastforce
  obtain bs els where bs: "collect_border_elements geo st (hd_border_buffers h) = (bs, els)" by fastforce
  let ?h = "h\<lparr> hd_state := st, hd_border_buffers := bs \<rparr>"
  have "hd_force_keyframe ?h \<or> damage_covers W H s (hd_previous_frame ?h) px damage" using assms(6) by simp
  from send_frame_carries [OF assms(1-4) this, of True] assms(6) obtain h2 msg where
    sent: "send_frame_to_network zenc True px damage W H s ?h = Some (h2, Some msg)"
    and c: "carries zdec W H s None px msg" by (auto split: option.splits)
  obtain k where "msg = SendKeyframe k" using c by (cases msg) (auto simp: carries_def is_keyframe_def)
  then show ?thesis using sent c assms(5) by (simp add: render_headless_frame_def st bs)
qed

subsection \<open>An example: a screen of one pixel\<close>

definition watched_server :: headless where
  "watched_server = (headless_start \<lparr> ck_now = 0, ck_epoch = 0 \<rparr> (compositor_new ''o'' (1, 1)) 4
     cluster_config_default None False \<lparr> ps_file = None, ps_pins = [] \<rparr> False)
     \<lparr> hd_client_connected := True, hd_force_keyframe := True \<rparr>"

definition small_hello :: server_hello where
  "small_hello = \<lparr> sh_version = PROTOCOL_VERSION, sh_session_id = 1, sh_output_width = of_int 1, sh_output_height = of_int 1,
     sh_resumed = False, sh_token = ''t'' \<rparr>"

definition frame_turn :: "frame_update \<Rightarrow> turn" where
  "frame_turn f = \<lparr> tn_inputs = [], tn_controls = [Ping 5], tn_focus = 0, tn_os_text = None, tn_frame = FrameArrived f,
     tn_up = True, tn_render = True \<rparr>"

lemma small_screen:
  "zstd_lossless Some Some" "geometry_ok 1 1 4" "damage_ok 1 1 None" "damage_ok 1 1 (Some [(0, 0, 1, 1)])"
  "damage_covers 1 1 4 old px None" "damage_covers 1 1 4 old px (Some [(0, 0, 1, 1)])"
  "hd_client_connected watched_server" "hd_force_keyframe watched_server"
  "viewer_size 1 1 (viewer_start small_hello (clipboard_new False))"
  by (simp_all add: zstd_lossless_def geometry_ok_def bpp_def damage_ok_def damage_covers_def sends_def in_rect_def
      watched_server_def viewer_size_def viewer_start_def small_hello_def)

lemma small_log:
  "\<exists>k. stream_log Some (\<lambda>_. None) 1 1 4 [Frame (Some ([1, 2, 3, 4], None))] watched_server = Some [([1, 2, 3, 4], SendKeyframe k)]"
proof -
  have "length [1, 2, 3, 4 :: u8] = nat 1 * 4" by simp
  from forced_frame [OF small_screen(1,2) this small_screen(3,7,8), of "\<lambda>_. None"] show ?thesis
    by (auto simp del: stream_step.simps)
qed

subsection \<open>From the renderer to the viewer\<close>

lemma frames_from_keyframe_only:
  "frames_from_keyframe (filter (\<lambda>m. frame_of m \<noteq> None) q) = frames_from_keyframe q"
proof -
  have all: "List.map_filter frame_of (filter (\<lambda>m. frame_of m \<noteq> None) q) = List.map_filter frame_of q" for q
    by (induction q) (auto simp: List.map_filter_simps)
  have "dropWhile (\<lambda>m. \<not> is_keyframe m) (filter (\<lambda>m. frame_of m \<noteq> None) q)
      = filter (\<lambda>m. frame_of m \<noteq> None) (dropWhile (\<lambda>m. \<not> is_keyframe m) q)"
  proof (induction q)
    case (Cons m q)
    have "is_keyframe m \<Longrightarrow> frame_of m \<noteq> None" by (cases m) (simp_all add: is_keyframe_def frame_of_def)
    with Cons show ?case by auto
  qed simp
  with all show ?thesis by (simp add: frames_from_keyframe_def)
qed

lemma chained_frames:
  "chained zdec W H s prev ms \<Longrightarrow> List.map_filter frame_of (map snd ms) = map (\<lambda>p. the (frame_of (snd p))) ms"
  by (induction zdec W H s prev ms rule: chained.induct) (auto simp: List.map_filter_simps dest!: carries_ex_frame)

text \<open>The frames of a connection, as the messages they came from.\<close>

lemma connection_messages:
  assumes ch: "chained zdec W H s None ms" and q: "filter (\<lambda>m. frame_of m \<noteq> None) q = map snd ms"
    and fs: "prefix fs (frames_from_keyframe q)"
  shows "\<exists>prev ms2. chained zdec W H s prev ms2 \<and> set ms2 \<subseteq> set ms \<and> List.map_filter frame_of (map snd ms2) = fs
    \<and> (ms2 = [] \<or> is_keyframe (snd (hd ms2)))"
proof -
  let ?ms1 = "dropWhile (\<lambda>p. \<not> is_keyframe (snd p)) ms"
  have split: "takeWhile (\<lambda>p. \<not> is_keyframe (snd p)) ms @ ?ms1 = ms" by simp
  obtain prev where c1: "chained zdec W H s prev ?ms1" using chained_append ch split by metis
  have "frames_from_keyframe q = frames_from_keyframe (map snd ms)"
    using frames_from_keyframe_only [of q] unfolding q by (rule sym)
  also have "\<dots> = List.map_filter frame_of (map snd ?ms1)"
    by (simp add: frames_from_keyframe_def dropWhile_map comp_def)
  also have "\<dots> = map (\<lambda>p. the (frame_of (snd p))) ?ms1" by (rule chained_frames [OF c1])
  finally obtain ms2 rest where ms2: "?ms1 = ms2 @ rest" "fs = map (\<lambda>p. the (frame_of (snd p))) ms2"
    using fs by (auto simp: prefix_def map_eq_append_conv)
  then have c2: "chained zdec W H s prev ms2" using c1 chained_take by metis
  have "ms2 = [] \<or> is_keyframe (snd (hd ms2))"
    using hd_dropWhile [of "\<lambda>p. \<not> is_keyframe (snd p)" ms] ms2(1) by (cases ms2) auto
  moreover have "set ms2 \<subseteq> set ms" using ms2(1) set_dropWhileD [of _ "\<lambda>p. \<not> is_keyframe (snd p)" ms] by auto
  ultimately show ?thesis using c2 chained_frames [OF c2] ms2(2) by auto
qed



text \<open>
  C4.  Encoding is total and every delta has its base.  For any history of network events and rendered
  frames no slice is out of range, the first frame queued is a keyframe, and each message turns a
  buffer that shows the previous picture (any buffer, for a keyframe) into one that shows its own,
  with the checksum the message carries.
\<close>
theorem frames_carry_pictures:
  assumes "zstd_lossless zenc zdec" "geometry_ok W H s" "damage_history W H s cur ops"
    and "\<not> hd_client_connected h \<or> hd_force_keyframe h"
  shows "\<exists>ms. stream_log zenc geo W H s ops h = Some ms \<and> chained zdec W H s None ms"
  using stream_log_chained [OF assms(1-3), of None h geo] assms(4) by (auto simp: stream_inv_def)

theorem frames_carry_pictures_witness:
  "\<exists>ms. stream_log Some (\<lambda>_. None) 1 1 4 [Frame (Some ([1, 2, 3, 4], None)), Frame (Some ([1, 2, 3, 9], Some [(0, 0, 1, 1)]))] watched_server
       = Some ms \<and> chained Some 1 1 4 None ms"
proof -
  have "damage_history 1 1 4 [] [Frame (Some ([1, 2, 3, 4], None)), Frame (Some ([1, 2, 3, 9], Some [(0, 0, 1, 1)]))]"
    using small_screen(3-6) by simp
  from frames_carry_pictures [OF small_screen(1,2) this disjI2 [OF small_screen(8)]] show ?thesis .
qed

lemma apply_regions_length: "apply_regions zdec fb n rs = Some fb' \<Longrightarrow> length fb' = length fb"
  by (induction zdec fb n rs rule: apply_regions.induct)
    (auto simp: apply_region_def scatter_rows_length split: option.splits)

lemma receive_frame_size:
  "receive_frame zdec up render f vw = Some (vw1, outs, e) \<Longrightarrow> viewer_size W H vw \<Longrightarrow> viewer_size W H vw1"
  using apply_regions_length [of zdec "vw_framebuffer vw" "vw_stride vw" "fu_regions f"]
  by (auto simp: receive_frame_def viewer_size_def Let_def split: option.splits if_splits)

text \<open>
  C3.  Drift heals.  When the viewer, whatever its framebuffer holds, finds a checksum mismatch and asks for
  a keyframe, the next frame the server renders after that request is sent as a keyframe, also when
  the screen has not changed and whatever damage is reported, and the viewer then shows the picture
  and has stopped asking.
\<close>
theorem drift_heals:
  assumes "zstd_lossless zenc zdec" "geometry_ok W H s" "length px = nat H * s" "damage_ok W H damage"
    and "hd_client_connected h" "viewer_size W H vw"
    and "receive_frame zdec True True f vw = Some (vw1, outs, e)" "SendToServer RequestKeyframe \<in> set outs"
  shows "\<exists>h2 houts k vw2 outs2.
      stream_step zenc geo W H s (Frame (Some (px, damage))) (fst (network_event env (Control RequestKeyframe) h)) = Some (h2, houts)
    \<and> queued houts = [SendKeyframe k]
    \<and> receive_frame zdec True True k vw1 = Some (vw2, outs2, None)
    \<and> shows_picture W H s px (vw_framebuffer vw2) \<and> \<not> vw_keyframe_pending vw2 \<and> SendToServer RequestKeyframe \<notin> set outs2"
proof -
  let ?h = "fst (network_event env (Control RequestKeyframe) h)"
  have h: "hd_client_connected ?h" "hd_force_keyframe ?h" using assms(5) by (simp_all add: handle_control_def)
  obtain h2 houts k where sent: "stream_step zenc geo W H s (Frame (Some (px, damage))) ?h = Some (h2, houts)"
    "queued houts = [SendKeyframe k]" and c: "carries zdec W H s None px (SendKeyframe k)"
    using forced_frame [OF assms(1-4) h] by blast
  have v: "viewer_size W H vw1" by (rule receive_frame_size [OF assms(7,6)])
  have n: "0 < nat W * bpp" using assms(2) by (simp add: geometry_ok_def bpp_def)
  obtain fb' where fb': "apply_regions zdec (vw_framebuffer vw1) (nat W * bpp) (fu_regions k) = Some fb'"
    "length fb' = nat H * (nat W * bpp)" "shows_picture W H s px fb'"
    "checksum fb' (nat W * bpp) (nat W * bpp) (nat H) = Some (fu_checksum k)"
    using c v by (auto simp: carries_def viewer_size_def is_keyframe_def frame_of_def)
  from receive_frame_picture [OF _ n fb'(1,2,4)] v fb'(3) sent show ?thesis
    by (fastforce simp: viewer_size_def simp del: stream_step.simps network_event.simps)
qed

theorem drift_heals_witness:
  "\<exists>f vw1 outs. receive_frame Some True True f (viewer_start small_hello (clipboard_new False)) = Some (vw1, outs, None)
    \<and> (\<exists>h2 houts k vw2 outs2.
        stream_step Some (\<lambda>_. None) 1 1 4 (Frame (Some ([1, 2, 3, 4], Some [(0, 0, 1, 1)])))
          (fst (network_event undefined (Control RequestKeyframe) watched_server)) = Some (h2, houts)
      \<and> queued houts = [SendKeyframe k] \<and> receive_frame Some True True k vw1 = Some (vw2, outs2, None)
      \<and> shows_picture 1 1 4 [1, 2, 3, 4] (vw_framebuffer vw2))"
proof -
  let ?vw = "viewer_start small_hello (clipboard_new False)"
  obtain crc where crc: "checksum (vw_framebuffer ?vw) 4 4 1 = Some crc"
    using checksum_visible [of "vw_framebuffer ?vw" 1 4 4] by (auto simp: viewer_start_def small_hello_def)
  let ?f = "\<lparr> fu_sequence = 1, fu_regions = [], fu_checksum = crc + 1 \<rparr>"
  obtain vw1 outs where r: "receive_frame Some True True ?f ?vw = Some (vw1, outs, None)" "SendToServer RequestKeyframe \<in> set outs"
    using crc by (auto simp: receive_frame_def viewer_start_def small_hello_def Let_def)
  have "length [1, 2, 3, 4 :: u8] = nat 1 * 4" by simp
  from drift_heals [OF small_screen(1,2) this small_screen(4,7,9) r, of "\<lambda>_. None" undefined] r(1) show ?thesis by blast
qed

end
