(* ===== verification/System.thy ===== *)
theory System
  imports Hosting Frames
begin

text \<open>
  The two threads of the server together: the network thread (\<open>Network\<close>), the main loop (\<open>Headless\<close>) and
  the channels between them, as a step relation under any interleaving.  A client that is served
  is in the session its hello names, which is the one active session and carries its token; a turn
  of the main loop, as \<open>run\<close> writes it, is a sequence of these steps.
\<close>

subsection \<open>The channels\<close>

text \<open>
  \<open>sy_inbox\<close> is the channel to the compositor, \<open>nt_queue\<close> of \<open>sy_net\<close> the one back.  Each connection
  has a reply channel of its own: \<open>sy_clients\<close> are the connections the compositor was told of, and
  the k-th element of \<open>sy_answers\<close> is what it sent on the channel of the k-th.
\<close>

record system =
  sy_net :: net_state
  sy_inbox :: "net_to_compositor list"
  sy_main :: headless
  sy_counter :: u32
  sy_clients :: "client_hello list"
  sy_answers :: "connect_decision list"

definition sys_start :: "headless \<Rightarrow> system" where
  "sys_start h = \<lparr> sy_net = net_initial, sy_inbox = [], sy_main = h, sy_counter = 0, sy_clients = [], sy_answers = [] \<rparr>"

definition new_client :: "net_to_compositor \<Rightarrow> client_hello option" where
  "new_client e = (case e of ClientConnected hello addr \<Rightarrow> Some hello | _ \<Rightarrow> None)"

definition new_clients :: "net_to_compositor list \<Rightarrow> client_hello list" where
  "new_clients evs = List.map_filter new_client evs"

definition answer_of :: "headless_out \<Rightarrow> connect_decision option" where
  "answer_of out = (case out of Reply d \<Rightarrow> Some d | _ \<Rightarrow> None)"

definition answers :: "headless_out list \<Rightarrow> connect_decision list" where
  "answers outs = List.map_filter answer_of outs"

definition post :: "compositor_to_net list \<Rightarrow> system \<Rightarrow> system" where
  "post ms s = s\<lparr> sy_net := (sy_net s)\<lparr> nt_queue := nt_queue (sy_net s) @ ms \<rparr> \<rparr>"

text \<open>What the network thread meets by itself: everything but the queue's messages and an answer.\<close>

definition network_side :: "net_event \<Rightarrow> bool" where
  "network_side e = (case e of NetQueue m \<Rightarrow> False | NetDecision up d \<Rightarrow> d = None | _ \<Rightarrow> True)"

subsection \<open>The steps\<close>

text \<open>
  \<open>sys_step cfg s outs s1\<close>: one step of one thread, with what the network thread writes.  The waiting
  connection reads an answer on its own channel.  Wayland clients change the compositor state in any
  way; the clipboard thread posts what it has read; \<open>quit\<close> is \<open>NetworkHandle::shutdown\<close>.
\<close>

inductive sys_step :: "server_config \<Rightarrow> system \<Rightarrow> client_out list \<Rightarrow> system \<Rightarrow> bool" for cfg where
  network: "network_side e \<Longrightarrow> server_step cfg e (sy_net s) = (n, evs, outs) \<Longrightarrow>
    sys_step cfg s outs (s\<lparr> sy_net := n, sy_inbox := sy_inbox s @ evs, sy_clients := sy_clients s @ new_clients evs \<rparr>)"
| answered: "sy_clients s \<noteq> [] \<Longrightarrow> length (sy_clients s) \<le> length (sy_answers s) \<Longrightarrow>
    server_step cfg (NetDecision up (Some (sy_answers s ! (length (sy_clients s) - 1)))) (sy_net s) = (n, evs, outs) \<Longrightarrow>
    sys_step cfg s outs (s\<lparr> sy_net := n, sy_inbox := sy_inbox s @ evs \<rparr>)"
| handled: "sy_inbox s = e # es \<Longrightarrow> network_event env e (sy_main s) = (h, houts) \<Longrightarrow>
    sys_step cfg s [] (s\<lparr> sy_inbox := es, sy_main := h, sy_answers := sy_answers s @ answers houts \<rparr>)"
| hung_up: "nt_phase (sy_net s) = Stopped \<Longrightarrow> sy_inbox s = [] \<Longrightarrow>
    sys_step cfg s [] (s\<lparr> sy_main := (sy_main s)\<lparr> hd_client_connected := False \<rparr> \<rparr>)"
| cleanup: "periodic_cleanup ck (sy_counter s) (sy_main s) = (h, n, houts) \<Longrightarrow>
    sys_step cfg s [] (s\<lparr> sy_main := h, sy_counter := n \<rparr>)"
| wayland: "sys_step cfg s [] (s\<lparr> sy_main := (sy_main s)\<lparr> hd_state := st \<rparr> \<rparr>)"
| frame: "render_headless_frame zenc sent geo rendered width height stride (sy_main s) = Some (h, houts, els) \<Longrightarrow>
    sys_step cfg s [] (post (queued houts) (s\<lparr> sy_main := h \<rparr>))"
| clipboard: "is_clipboard m \<Longrightarrow> sys_step cfg s [] (post [SendControl m] s)"
| quit: "sys_step cfg s [] (post [Shutdown] s)"

inductive sys_run :: "server_config \<Rightarrow> system \<Rightarrow> client_out list \<Rightarrow> system \<Rightarrow> bool" for cfg where
  no_step: "sys_run cfg s [] s"
| more_steps: "sys_run cfg s outs s1 \<Longrightarrow> sys_step cfg s1 outs1 s2 \<Longrightarrow> sys_run cfg s (outs @ outs1) s2"

subsection \<open>Lists of events and answers\<close>

lemma new_clients_simps [simp]:
  "new_clients [] = []" "new_clients (ClientConnected hello addr # es) = hello # new_clients es"
  "new_clients (ClientDisconnected # es) = new_clients es" "new_clients (Input m # es) = new_clients es"
  "new_clients (Control m' # es) = new_clients es"
  by (simp_all add: new_clients_def new_client_def List.map_filter_simps)

lemma new_clients_append [simp]: "new_clients (xs @ ys) = new_clients xs @ new_clients ys"
  by (simp add: new_clients_def List.map_filter_def)

lemma answers_simps [simp]:
  "answers [] = []" "answers (Reply d # outs) = d # answers outs" "answers (LauncherSessionCreated t # outs) = answers outs"
  "answers (map SeatEvent evs) = []"
  by (simp_all add: answers_def answer_of_def List.map_filter_simps) (induction evs; simp add: List.map_filter_simps answer_of_def)+

lemma answers_append [simp]: "answers (xs @ ys) = answers xs @ answers ys"
  by (simp add: answers_def List.map_filter_def)

text \<open>A connecting client is answered once, and nothing else is an answer.\<close>

lemma one_answer:
  assumes "client_connected env hello addr h = (h1, outs)"
  obtains d where "answers outs = [d]" "Reply d \<in> set outs"
proof -
  have bind: "\<exists>d. answers outs = [d] \<and> Reply d \<in> set outs" if "bind_session env tok addr h0 = (h1, outs)" for tok h0
    using that by (auto simp: bind_session_def split: prod.splits sum.splits if_splits)
  then show ?thesis using assms that
    by (auto simp: client_connected_def Let_def split: prod.splits session_location.splits option.splits)
qed

lemma no_answer:
  "network_event env (Input m) h = (h1, outs) \<Longrightarrow> answers outs = []"
  "network_event env (Control m') h = (h1, outs) \<Longrightarrow> answers outs = []"
  "network_event env ClientDisconnected h = (h1, outs) \<Longrightarrow> answers outs = []"
  by (auto simp: client_disconnected_def handle_control_def Let_def split: prod.splits control_message.splits)

text \<open>The answer to a client that presents a token is about that token.\<close>

lemma bind_token:
  assumes "client_connected env hello addr h = (h1, outs)" "answers outs = [Bind b]"
  shows "bi_token b = connecting_token env hello"
proof -
  have bind: "bi_token b = tok" if "bind_session env tok addr h0 = (h1, outs)" for tok h0
    using that assms(2) by (auto simp: bind_session_def split: prod.splits sum.splits if_splits)
  then show ?thesis using assms
    by (auto simp: client_connected_def Let_def split: prod.splits session_location.splits option.splits)
qed

text \<open>Traffic is what a served client sends.\<close>

definition is_traffic :: "net_to_compositor \<Rightarrow> bool" where
  "is_traffic e = (case e of Input m \<Rightarrow> True | Control m \<Rightarrow> True | _ \<Rightarrow> False)"

fun traffic_first :: "net_to_compositor list \<Rightarrow> bool" where
  "traffic_first [] = True"
| "traffic_first (e # es) = (if is_traffic e then traffic_first es else \<forall>x\<in>set es. \<not> is_traffic x)"

lemma is_traffic_simps [simp]:
  "is_traffic (Input m)" "is_traffic (Control m')" "\<not> is_traffic (ClientConnected hello addr)" "\<not> is_traffic ClientDisconnected"
  by (simp_all add: is_traffic_def)

lemma traffic_first_append:
  "traffic_first (xs @ ys) \<longleftrightarrow>
     (if \<forall>x\<in>set xs. is_traffic x then traffic_first ys else traffic_first xs \<and> (\<forall>x\<in>set ys. \<not> is_traffic x))"
  by (induction xs) auto

lemma traffic_connected: "\<forall>x\<in>set es. is_traffic x \<Longrightarrow> connected_after c es = c \<and> new_clients es = []"
proof (induction es)
  case (Cons e es)
  then show ?case by (cases e) auto
qed simp

lemma no_client:
  "session_trace False es \<Longrightarrow> new_clients es = [] \<Longrightarrow> \<not> connected_after False es"
proof (induction es)
  case (Cons e es)
  then show ?case by (cases e) auto
qed simp

lemma all_traffic:
  "session_trace c es \<Longrightarrow> connected_after c es \<Longrightarrow> new_clients es = [] \<Longrightarrow> (\<forall>x\<in>set es. is_traffic x) \<and> c"
proof (induction es arbitrary: c)
  case (Cons e es)
  then show ?case using no_client by (cases e) auto
qed simp

subsection \<open>What the network thread does\<close>

definition hello_of :: "client_out \<Rightarrow> server_hello option" where
  "hello_of out = (case out of OutControl (ServerHello sh) \<Rightarrow> Some sh | _ \<Rightarrow> None)"

definition hellos :: "client_out list \<Rightarrow> server_hello list" where
  "hellos outs = List.map_filter hello_of outs"

lemma hellos_append [simp]: "hellos (xs @ ys) = hellos xs @ hellos ys"
  by (simp add: hellos_def List.map_filter_def)

lemma hellos_Cons: "hellos (out # outs) = (case hello_of out of None \<Rightarrow> hellos outs | Some sh \<Rightarrow> sh # hellos outs)"
  by (simp add: hellos_def List.map_filter_simps split: option.split)

lemma hellos_simps [simp]:
  "hellos [] = []" "hellos (OutDisplay d # outs) = hellos outs" "hellos (OutAudio a # outs) = hellos outs"
  "hellos (OpenDisplay # outs) = hellos outs" "hellos (OpenAudio # outs) = hellos outs"
  "hellos (OutControl (ServerHello sh) # outs) = sh # hellos outs"
  "hellos (OutControl (SessionEvent ev) # outs) = hellos outs"
  "hellos (OutControl (SessionRedirect server addr) # outs) = hellos outs"
  by (simp_all add: hellos_def hello_of_def List.map_filter_simps)

text \<open>The main loop never queues a hello.\<close>

definition no_hello :: "compositor_to_net list \<Rightarrow> bool" where
  "no_hello ms \<longleftrightarrow> (\<forall>m\<in>set ms. case m of SendControl msg \<Rightarrow> hello_of (OutControl msg) = None | _ \<Rightarrow> True)"

lemma no_hello_simps [simp]:
  "no_hello []" "no_hello (xs @ ys) \<longleftrightarrow> no_hello xs \<and> no_hello ys"
  "no_hello (SendControl msg # ms) \<longleftrightarrow> hello_of (OutControl msg) = None \<and> no_hello ms"
  "no_hello (SendFrame f # ms) = no_hello ms" "no_hello (SendKeyframe f # ms) = no_hello ms"
  "no_hello (SendAudio a # ms) = no_hello ms" "no_hello (Shutdown # ms) = no_hello ms"
  by (auto simp: no_hello_def)

lemma commands_no_hello:
  "no_hello ms \<Longrightarrow> check_compositor_commands caps up seen ms = (outs, seen1, rest, returned) \<Longrightarrow>
     hellos outs = [] \<and> no_hello rest"
proof (induction caps up seen ms arbitrary: outs seen1 rest returned rule: check_compositor_commands.induct)
  case (4 caps up seen msg ms)
  then show ?case by (auto simp: Let_def hellos_Cons split: if_splits prod.splits)
qed (auto simp: Let_def split: if_splits prod.splits)

lemma shutdown_no_hello: "no_hello ms \<Longrightarrow> no_hello (fst (check_shutdown ms))"
  by (induction ms rule: check_shutdown.induct) auto

definition relaying :: "net_phase \<Rightarrow> bool" where
  "relaying ph = (case ph of Relaying caps input seen \<Rightarrow> True | _ \<Rightarrow> False)"

lemma network_step:
  assumes "network_side e" "server_step cfg e n = (n1, evs, outs)" "no_hello (nt_queue n)"
  shows "hellos outs = [] \<and> no_hello (nt_queue n1)"
    and "relaying (nt_phase n1) \<Longrightarrow> relaying (nt_phase n) \<and> (\<forall>x\<in>set evs. is_traffic x)"
    and "\<not> relaying (nt_phase n1) \<Longrightarrow> (\<forall>x\<in>set evs. \<not> is_traffic x)"
    and "nt_phase n1 = Deciding caps \<Longrightarrow> nt_phase n = Deciding caps \<and> evs = []
           \<or> (\<exists>hello addr. evs \<noteq> [] \<and> last evs = ClientConnected hello addr)"
proof -
  have "hellos outs = [] \<and> no_hello (nt_queue n1)
    \<and> (case nt_phase n1 of
         Relaying _ _ _ \<Rightarrow> (\<exists>caps input seen. nt_phase n = Relaying caps input seen) \<and> (\<forall>x\<in>set evs. is_traffic x)
       | Deciding caps \<Rightarrow> (\<forall>x\<in>set evs. \<not> is_traffic x)
           \<and> (nt_phase n = Deciding caps \<and> evs = [] \<or> (\<exists>hello addr. evs \<noteq> [] \<and> last evs = ClientConnected hello addr))
       | _ \<Rightarrow> \<forall>x\<in>set evs. \<not> is_traffic x)"
  proof (cases e)
    case (NetPoll up)
    then show ?thesis
    proof (cases "nt_phase n")
      case (Relaying caps input seen)
      obtain o1 seen1 rest returned where c: "check_compositor_commands caps up seen (nt_queue n) = (o1, seen1, rest, returned)"
        by (metis prod_cases4)
      then show ?thesis using commands_no_hello [OF assms(3) c] assms(2) Relaying NetPoll
        by (auto simp: session_ended_def Let_def split: if_splits)
    qed (use assms(2,3) shutdown_no_hello [of "nt_queue n"] NetPoll in \<open>auto simp: Let_def split: prod.splits if_splits\<close>)
  next
    case (NetDecision up d)
    then show ?thesis using assms
      by (cases "nt_phase n") (auto simp: network_side_def serve_handshake_def session_ended_def Let_def split: prod.splits if_splits)
  next
    case (NetClient hello addr)
    then show ?thesis using assms by (auto split: if_splits)
  next
    case (NetAcceptInput ok)
    then show ?thesis using assms
      by (auto simp: session_ended_def split: net_phase.splits bool.splits if_splits)
  next
    case (NetInput m)
    then show ?thesis using assms
      by (auto simp: session_ended_def split: net_phase.splits bool.splits option.splits)
  next
    case (NetControl m)
    then show ?thesis using assms
      by (auto simp: session_ended_def split: net_phase.splits option.splits)
  qed (use assms in \<open>auto simp: network_side_def\<close>)
  then show "hellos outs = [] \<and> no_hello (nt_queue n1)"
    "relaying (nt_phase n1) \<Longrightarrow> relaying (nt_phase n) \<and> (\<forall>x\<in>set evs. is_traffic x)"
    "\<not> relaying (nt_phase n1) \<Longrightarrow> (\<forall>x\<in>set evs. \<not> is_traffic x)"
    "nt_phase n1 = Deciding caps \<Longrightarrow> nt_phase n = Deciding caps \<and> evs = []
       \<or> (\<exists>hello addr. evs \<noteq> [] \<and> last evs = ClientConnected hello addr)"
    by (auto simp: relaying_def split: net_phase.splits)
qed

subsection \<open>What the main loop does\<close>

definition in_session :: "session_binding \<Rightarrow> headless \<Rightarrow> bool" where
  "in_session b h \<longleftrightarrow> hd_active_session h = Some (bi_session_id b)
     \<and> (\<exists>x. session_at (hd_registry h) (bi_session_id b) = Some x \<and> s_state x = Active \<and> s_token x = bi_token b)"

text \<open>Steps that leave the registry and the active session alone.\<close>

definition same_hosting :: "headless \<Rightarrow> headless \<Rightarrow> bool" where
  "same_hosting h h1 \<longleftrightarrow> hd_registry h1 = hd_registry h \<and> hd_active_session h1 = hd_active_session h"

lemma same_hosting_input:
  "network_event env (Input m) h = (h1, outs) \<Longrightarrow> same_hosting h h1"
  "network_event env (Control m') h = (h1, outs) \<Longrightarrow> same_hosting h h1"
  using input_simps(1,2) [of env m h] input_simps(3,4) [of env m' h] by (metis same_hosting_def fst_conv)+

lemma send_frame_facts:
  assumes "send_frame_to_network zenc sent px damage width height stride h = Some (h1, msg)"
  shows "same_hosting h h1" "no_hello (case msg of None \<Rightarrow> [] | Some m \<Rightarrow> [m])"
  using assms by (auto simp: send_frame_to_network_def same_hosting_def Let_def split: if_splits option.splits)

lemma frame_facts:
  assumes "render_headless_frame zenc sent geo rendered width height stride h = Some (h1, outs, els)"
  shows "same_hosting h h1 \<and> no_hello (queued outs)"
proof -
  obtain st evs where st: "render_wm_phase (hd_state h) = (st, evs)" by fastforce
  obtain buffers elements where bs: "collect_border_elements geo st (hd_border_buffers h) = (buffers, elements)" by fastforce
  let ?h = "h\<lparr> hd_state := st, hd_border_buffers := buffers \<rparr>"
  have same: "same_hosting ?h h2 = same_hosting h h2" "same_hosting h ?h" for h2 by (simp_all add: same_hosting_def)
  show ?thesis
  proof (cases "rendered = None \<or> \<not> hd_client_connected h")
    case True
    then have "h1 = ?h" "outs = map SeatEvent evs"
      using assms by (cases rendered; simp add: render_headless_frame_def st bs split_beta)+
    then show ?thesis using same(2) by simp
  next
    case False
    then obtain px damage h2 msg where r: "send_frame_to_network zenc sent px damage width height stride ?h = Some (h2, msg)"
      and h2: "h1 = h2" "outs = map SeatEvent evs @ (case msg of None \<Rightarrow> [] | Some m \<Rightarrow> [ToNet m])"
      using assms by (cases rendered) (auto simp: render_headless_frame_def st bs split: option.splits)
    show ?thesis using send_frame_facts [OF r] same(1) by (cases msg) (simp_all add: h2)
  qed
qed

lemma cleanup_in_session:
  assumes "hosting_ok h" "in_session b h" "periodic_cleanup ck n h = (h1, n1, outs)"
  shows "in_session b h1"
proof -
  obtain x where x: "session_at (hd_registry h) (bi_session_id b) = Some x" "s_state x = Active" "s_token x = bi_token b"
    using assms(2) by (auto simp: in_session_def)
  have "bi_session_id b \<notin> set (expired_ids (ck_now ck) (hd_registry h))"
    using x(1,2) expired_at [OF hosting_okD(1) [OF assms(1)]] by (auto simp: is_suspend_expired_def)
  from cleanup_facts(5) [OF assms(1) this x(1), of n] cleanup_facts(2) [OF assms(1), of ck n] show ?thesis
    using x assms(2,3) by (simp add: in_session_def)
qed

lemma connected_in_session:
  assumes "hosting_ok h" "hd_active_session h = None" "rg_next_id (hd_registry h) \<noteq> - 1"
    and "client_connected env hello addr h = (h1, outs)" "answers outs = [Bind b]" "Reply (Bind b) \<in> set outs"
  shows "in_session b h1"
  using client_connected_cases [OF assms(1-4)] assms(5,6) by cases (auto simp: in_session_def)

text \<open>Ids are spent on connecting clients only, one on each at most.\<close>

lemma ids_spent:
  assumes "hosting_inv c h" "session_trace c [e]" "rg_next_id (hd_registry h) \<noteq> - 1"
    and "network_event env e h = (h1, outs)"
  shows "unat (rg_next_id (hd_registry h1)) \<le> unat (rg_next_id (hd_registry h)) + length (answers outs)"
proof (cases e)
  case (ClientConnected hello addr)
  then obtain d where "answers outs = [d]" using one_answer assms(4) by (metis network_event.simps(2))
  then show ?thesis using hosting_step_inv(3) [of c h "Event env e"] assms by simp
next
  case ClientDisconnected
  then show ?thesis using disconnected_facts(4) [of h env h1 outs] assms by (simp add: hosting_inv_def)
qed (use same_hosting_input assms(4) in \<open>auto simp: same_hosting_def simp del: network_event.simps\<close>)

subsection \<open>The invariant\<close>

text \<open>
  The main loop's half.  \<open>c\<close>: the last life-cycle event handled was a connect; its client was
  answered, and if it was bound it is in its session, which carries the token it presented.
\<close>

definition main_inv :: "bool \<Rightarrow> nat \<Rightarrow> system \<Rightarrow> bool" where
  "main_inv c n0 s \<longleftrightarrow> hosting_inv c (sy_main s)
     \<and> session_trace c (sy_inbox s) \<and> connected_after c (sy_inbox s) = serving (nt_phase (sy_net s))
     \<and> unat (rg_next_id (hd_registry (sy_main s))) \<le> n0 + length (sy_answers s)
     \<and> length (sy_answers s) \<le> length (sy_clients s)
     \<and> new_clients (sy_inbox s) = drop (length (sy_answers s)) (sy_clients s)
     \<and> (c \<longrightarrow> sy_answers s \<noteq> [] \<and> (\<forall>b. last (sy_answers s) = Bind b \<longrightarrow> in_session b (sy_main s)
           \<and> (\<forall>t. ch_token (sy_clients s ! (length (sy_answers s) - 1)) = Some t \<longrightarrow> bi_token b = t)))"

text \<open>The network thread's half: a served client was told of the session it was bound to.\<close>

definition told :: "session_binding \<Rightarrow> client_out list \<Rightarrow> bool" where
  "told b outs \<longleftrightarrow> hellos outs \<noteq> [] \<and> sh_session_id (last (hellos outs)) = bi_session_id b
     \<and> sh_token (last (hellos outs)) = bi_token b"

definition net_inv :: "client_out list \<Rightarrow> system \<Rightarrow> bool" where
  "net_inv outs s \<longleftrightarrow> traffic_first (sy_inbox s) \<and> no_hello (nt_queue (sy_net s))
     \<and> (\<forall>caps. nt_phase (sy_net s) = Deciding caps \<longrightarrow>
          sy_inbox s = [] \<or> (\<exists>hello addr. last (sy_inbox s) = ClientConnected hello addr))
     \<and> (relaying (nt_phase (sy_net s)) \<longrightarrow> (\<forall>x\<in>set (sy_inbox s). is_traffic x))
     \<and> (relaying (nt_phase (sy_net s)) \<or> (\<exists>x\<in>set (sy_inbox s). is_traffic x) \<longrightarrow>
          (\<exists>b. sy_answers s \<noteq> [] \<and> last (sy_answers s) = Bind b \<and> told b outs))"

lemma main_inv_cong:
  assumes "same_hosting (sy_main s) (sy_main s1)" "sy_inbox s1 = sy_inbox s" "sy_answers s1 = sy_answers s"
    "sy_clients s1 = sy_clients s" "nt_phase (sy_net s1) = nt_phase (sy_net s)"
  shows "main_inv c n0 s1 = main_inv c n0 s"
  using assms hosting_ok_cong [of "sy_main s1" "sy_main s"]
  by (simp add: main_inv_def same_hosting_def in_session_def hosting_inv_def)

lemma net_inv_cong:
  assumes "sy_inbox s1 = sy_inbox s" "sy_answers s1 = sy_answers s" "nt_phase (sy_net s1) = nt_phase (sy_net s)"
    "no_hello (nt_queue (sy_net s)) \<Longrightarrow> no_hello (nt_queue (sy_net s1))"
  shows "net_inv outs s \<Longrightarrow> net_inv outs s1"
  using assms by (simp add: net_inv_def)

text \<open>A step of the network thread.\<close>

lemma main_inv_network:
  assumes "main_inv c n0 s" "server_step cfg e (sy_net s) = (n, evs, outs)"
  shows "main_inv c n0 (s\<lparr> sy_net := n, sy_inbox := sy_inbox s @ evs, sy_clients := sy_clients s @ new_clients evs \<rparr>)"
  using assms(1) session_trace_step [OF assms(2)]
  by (auto simp: main_inv_def session_trace_append connected_after_append nth_append Suc_le_eq
      simp flip: length_greater_0_conv)

lemma traffic_first_uniform:
  "\<forall>x\<in>set es. \<not> is_traffic x \<Longrightarrow> traffic_first es" "\<forall>x\<in>set es. is_traffic x \<Longrightarrow> traffic_first es"
  by (induction es) auto

lemma net_inv_network:
  assumes inv: "net_inv outs0 s" and "network_side e" "server_step cfg e (sy_net s) = (n, evs, outs)"
  shows "net_inv (outs0 @ outs)
    (s\<lparr> sy_net := n, sy_inbox := sy_inbox s @ evs, sy_clients := sy_clients s @ new_clients evs \<rparr>)"
proof -
  have q: "no_hello (nt_queue (sy_net s))" using inv by (simp add: net_inv_def)
  note k = network_step [OF assms(2,3) q]
  have told: "told b (outs0 @ outs) = told b outs0" for b using k(1) by (simp add: told_def)
  show ?thesis
  proof (cases "relaying (nt_phase n)")
    case True
    then have "relaying (nt_phase (sy_net s))" "\<forall>x\<in>set evs. is_traffic x" "\<nexists>caps. nt_phase n = Deciding caps"
      using k(2) by (auto simp: relaying_def)
    then show ?thesis using inv k(1) traffic_first_uniform(2) [of evs] True
      by (auto simp: net_inv_def told traffic_first_append)
  next
    case False
    have "\<forall>x\<in>set evs. \<not> is_traffic x" using k(3) [OF False] .
    then show ?thesis using inv k(1,4) False traffic_first_uniform(1) [of evs]
      by (auto simp: net_inv_def told traffic_first_append)
  qed
qed

text \<open>An answer is read when nothing else is on its way to the compositor.\<close>

lemma answer_waits:
  assumes "main_inv c n0 s" "net_inv outs s" "nt_phase (sy_net s) = Deciding caps"
    and "length (sy_clients s) \<le> length (sy_answers s)"
  shows "sy_inbox s = []"
proof -
  have "\<forall>x\<in>set (sy_inbox s). is_traffic x"
    using all_traffic [of c "sy_inbox s"] assms by (simp add: main_inv_def serving_def)
  moreover have "sy_inbox s = [] \<or> (\<exists>hello addr. last (sy_inbox s) = ClientConnected hello addr)"
    using assms(2,3) by (simp add: net_inv_def)
  ultimately show ?thesis by (metis last_in_set is_traffic_simps(3))
qed

lemma handshake_told:
  "serve_handshake cfg caps up (Some d) = (outs, relay) \<Longrightarrow> relay \<Longrightarrow> \<exists>b. d = Bind b \<and> told b outs"
  by (auto simp: serve_handshake_def told_def audio_announcement_def Let_def split: connect_decision.splits if_splits)

lemma told_append: "told b outs1 \<Longrightarrow> told b (outs @ outs1)"
  by (simp add: told_def)

lemma net_inv_answered:
  assumes main: "main_inv c n0 s" and inv: "net_inv outs0 s" and "sy_clients s \<noteq> []"
    and all: "length (sy_clients s) \<le> length (sy_answers s)"
    and step: "server_step cfg (NetDecision up (Some (sy_answers s ! (length (sy_clients s) - 1)))) (sy_net s) = (n, evs, outs)"
  shows "net_inv (outs0 @ outs) (s\<lparr> sy_net := n, sy_inbox := sy_inbox s @ evs \<rparr>) \<and> new_clients evs = []"
proof (cases "nt_phase (sy_net s)")
  case (Deciding caps)
  have none: "sy_inbox s = []" by (rule answer_waits [OF main inv Deciding all])
  have len: "length (sy_answers s) = length (sy_clients s)" using main all by (simp add: main_inv_def)
  then have d: "sy_answers s \<noteq> []" "sy_answers s ! (length (sy_clients s) - 1) = last (sy_answers s)"
    using assms(3) by (metis length_0_conv, metis last_conv_nth length_0_conv)
  obtain o1 relay where h: "serve_handshake cfg caps up (Some (last (sy_answers s))) = (o1, relay)" by fastforce
  show ?thesis
  proof (cases relay)
    case True
    then have n: "n = (sy_net s)\<lparr> nt_phase := Relaying caps False False \<rparr>" "evs = []" "outs = o1"
      using step Deciding h d(2) by auto
    obtain b where "last (sy_answers s) = Bind b" "told b o1" using handshake_told [OF h True] by blast
    then show ?thesis using inv none d(1) by (auto simp: net_inv_def n intro: told_append)
  next
    case False
    then have n: "n = (sy_net s)\<lparr> nt_phase := Idle \<rparr>" "evs = [ClientDisconnected]"
      using step Deciding h d(2) by (auto simp: session_ended_def)
    then show ?thesis using inv none by (simp add: net_inv_def relaying_def)
  qed
qed (use step inv in \<open>auto simp: net_inv_def\<close>)

lemma net_inv_handled:
  assumes "net_inv outs0 s" "sy_inbox s = e # es" "network_event env e (sy_main s) = (h, houts)"
  shows "net_inv outs0 (s\<lparr> sy_inbox := es, sy_main := h, sy_answers := sy_answers s @ answers houts \<rparr>)"
proof -
  have last: "es \<noteq> [] \<Longrightarrow> last es = last (sy_inbox s)" using assms(2) by simp
  show ?thesis
  proof (cases "is_traffic e")
    case True
    then have "answers houts = []" using no_answer assms(3) by (cases e) auto
    then show ?thesis using assms(1,2) last True by (auto simp: net_inv_def)
  next
    case False
    then have quiet: "\<forall>x\<in>set es. \<not> is_traffic x" "\<not> relaying (nt_phase (sy_net s))"
      using assms(1,2) by (auto simp: net_inv_def)
    then show ?thesis using assms(1,2) last traffic_first_uniform(1) [of es] by (auto simp: net_inv_def)
  qed
qed

lemma session_trace_Cons:
  "session_trace c (e # es) \<longleftrightarrow> session_trace c [e] \<and> session_trace (connected_after c [e]) es"
  "connected_after c (e # es) = connected_after (connected_after c [e]) es"
  using session_trace_append [of c "[e]" es] connected_after_append [of c "[e]" es] by simp_all

lemma main_inv_handled:
  assumes inv: "main_inv c n0 s" and e: "sy_inbox s = e # es" and step: "network_event env e (sy_main s) = (h, houts)"
    and few: "n0 + length (sy_clients s) + 1 < 2 ^ 64"
  shows "\<exists>c1. main_inv c1 n0 (s\<lparr> sy_inbox := es, sy_main := h, sy_answers := sy_answers s @ answers houts \<rparr>)"
proof -
  let ?s = "s\<lparr> sy_inbox := es, sy_main := h, sy_answers := sy_answers s @ answers houts \<rparr>" and ?c = "connected_after c [e]"
  have host: "hosting_inv c (sy_main s)" and trace: "session_trace c [e]" "session_trace ?c es"
    and after: "connected_after ?c es = serving (nt_phase (sy_net s))"
    using inv session_trace_Cons [of c e es] by (simp_all add: main_inv_def e)
  have "unat (- 1 :: u64) = 2 ^ 64 - 1" by (simp add: unsigned_minus_1_eq_mask mask_eq_exp_minus_1)
  then have ids: "rg_next_id (hd_registry (sy_main s)) \<noteq> - 1" using inv few by (auto simp: main_inv_def)
  have base: "hosting_inv ?c h" using hosting_step_inv(1) [OF host _ ids, of "Event env e"] trace(1) step by simp
  have next_id: "unat (rg_next_id (hd_registry h)) \<le> n0 + length (sy_answers ?s)"
    using ids_spent [OF host trace(1) ids step] inv by (simp add: main_inv_def)
  have "main_inv ?c n0 ?s"
  proof (cases e)
    case (ClientConnected hello addr)
    have conn: "client_connected env hello addr (sy_main s) = (h, houts)" using step ClientConnected by simp
    obtain d where d: "answers houts = [d]" "Reply d \<in> set houts" by (rule one_answer [OF conn])
    have pend: "drop (length (sy_answers s)) (sy_clients s) = hello # new_clients es"
      using inv e ClientConnected by (simp add: main_inv_def)
    then have len: "length (sy_answers s) < length (sy_clients s)" using linorder_not_le by fastforce
    have nth: "sy_clients s ! length (sy_answers s) = hello" "drop (Suc (length (sy_answers s))) (sy_clients s) = new_clients es"
      using pend len by (metis nth_via_drop) (metis pend drop_Suc tl_drop list.sel(3))
    have free: "hosting_ok (sy_main s)" "hd_active_session (sy_main s) = None"
      using host trace(1) ClientConnected by (simp_all add: hosting_inv_def)
    have "in_session b h \<and> bi_token b = connecting_token env hello" if "d = Bind b" for b
      using connected_in_session [OF free ids conn, of b] bind_token [OF conn, of b] d that by simp
    then show ?thesis using base trace(2) after next_id d(1) nth len
      by (auto simp: main_inv_def connecting_token_def)
  next
    case ClientDisconnected
    then show ?thesis using base trace(2) after next_id inv e no_answer(3) step by (simp add: main_inv_def)
  next
    case (Input m)
    then show ?thesis using base trace(2) after next_id inv e no_answer(1) step same_hosting_input(1)
      by (simp add: main_inv_def same_hosting_def in_session_def del: network_event.simps)
  next
    case (Control m)
    then show ?thesis using base trace(2) after next_id inv e no_answer(2) step same_hosting_input(2)
      by (simp add: main_inv_def same_hosting_def in_session_def del: network_event.simps)
  qed
  then show ?thesis by blast
qed

definition sys_inv :: "nat \<Rightarrow> client_out list \<Rightarrow> system \<Rightarrow> bool" where
  "sys_inv n0 outs s \<longleftrightarrow> (\<exists>c. main_inv c n0 s) \<and> net_inv outs s"

lemma sys_inv_quiet:
  assumes "sys_inv n0 outs s" "same_hosting (sy_main s) (sy_main s1)" "sy_inbox s1 = sy_inbox s"
    "sy_answers s1 = sy_answers s" "sy_clients s1 = sy_clients s" "nt_phase (sy_net s1) = nt_phase (sy_net s)"
    "no_hello (nt_queue (sy_net s)) \<Longrightarrow> no_hello (nt_queue (sy_net s1))"
  shows "sys_inv n0 outs s1"
  using assms main_inv_cong [OF assms(2-6)] net_inv_cong [OF assms(3,4,6,7)] by (auto simp: sys_inv_def)

lemma post_simps [simp]:
  "sy_main (post ms s) = sy_main s" "sy_inbox (post ms s) = sy_inbox s" "sy_answers (post ms s) = sy_answers s"
  "sy_clients (post ms s) = sy_clients s" "nt_phase (sy_net (post ms s)) = nt_phase (sy_net s)"
  "nt_queue (sy_net (post ms s)) = nt_queue (sy_net s) @ ms" "sy_counter (post ms s) = sy_counter s"
  by (simp_all add: post_def)

lemma main_inv_cleanup:
  assumes "main_inv c n0 s" "periodic_cleanup ck (sy_counter s) (sy_main s) = (h, n, houts)"
  shows "main_inv c n0 (s\<lparr> sy_main := h, sy_counter := n \<rparr>)"
proof -
  have ok: "hosting_ok (sy_main s)" using assms(1) by (simp add: main_inv_def hosting_inv_def)
  have h: "hosting_step (Tick ck (sy_counter s)) (sy_main s) = h" using assms(2) by simp
  note f = cleanup_facts(1,2,4) [OF ok, of ck "sy_counter s", unfolded h]
  show ?thesis using assms(1) f cleanup_in_session [OF ok _ assms(2)]
    by (simp add: main_inv_def hosting_inv_def)
qed

lemma sys_step_clients: "sys_step cfg s outs s1 \<Longrightarrow> length (sy_clients s) \<le> length (sy_clients s1)"
  by (induction rule: sys_step.induct) simp_all

lemma sys_step_inv:
  "sys_step cfg s outs s1 \<Longrightarrow> sys_inv n0 outs0 s \<Longrightarrow> n0 + length (sy_clients s1) + 1 < 2 ^ 64 \<Longrightarrow>
     sys_inv n0 (outs0 @ outs) s1"
proof (induction rule: sys_step.induct)
  case (network e s n evs outs)
  then show ?case using main_inv_network net_inv_network unfolding sys_inv_def by blast
next
  case (answered s up n evs outs)
  obtain c where c: "main_inv c n0 s" "net_inv outs0 s" using answered.prems(1) by (auto simp: sys_inv_def)
  note a = net_inv_answered [OF c answered.hyps]
  show ?case using a main_inv_network [OF c(1) answered.hyps(3)] by (auto simp: sys_inv_def)
next
  case (handled s e es env h houts)
  then show ?case using main_inv_handled [OF _ handled.hyps] net_inv_handled [OF _ handled.hyps]
    by (auto simp: sys_inv_def)
next
  case (cleanup ck s h n houts)
  then show ?case using main_inv_cleanup [OF _ cleanup.hyps] net_inv_cong [of "s\<lparr> sy_main := h, sy_counter := n \<rparr>" s]
    by (auto simp: sys_inv_def)
next
  case (frame zenc sent geo rendered width height stride s h houts els)
  show ?case unfolding append_Nil2
    by (rule sys_inv_quiet [OF frame.prems(1)]) (use frame_facts [OF frame.hyps] in simp_all)
next
  case (clipboard m s)
  have "hello_of (OutControl m) = None" using clipboard.hyps by (cases m) (simp_all add: is_clipboard_def hello_of_def)
  then show ?case unfolding append_Nil2 by (intro sys_inv_quiet [OF clipboard.prems(1)]) (simp_all add: same_hosting_def)
next
  case (hung_up s)
  show ?case unfolding append_Nil2 by (rule sys_inv_quiet [OF hung_up.prems(1)]) (simp_all add: same_hosting_def)
next
  case (wayland s st)
  show ?case unfolding append_Nil2 by (rule sys_inv_quiet [OF wayland.prems(1)]) (simp_all add: same_hosting_def)
next
  case (quit s)
  show ?case unfolding append_Nil2 by (rule sys_inv_quiet [OF quit.prems(1)]) (simp_all add: same_hosting_def)
qed

lemma sys_run_inv:
  "sys_run cfg s outs s1 \<Longrightarrow> sys_inv n0 [] s \<Longrightarrow> n0 + length (sy_clients s1) + 1 < 2 ^ 64 \<Longrightarrow> sys_inv n0 outs s1"
proof (induction rule: sys_run.induct)
  case (more_steps s outs s1 outs1 s2)
  then show ?case using sys_step_inv [of cfg s1 outs1 s2 n0 outs] sys_step_clients [of cfg s1 outs1 s2] by simp
qed simp

lemma sys_inv_start:
  "hosting_inv False h0 \<Longrightarrow> sys_inv (unat (rg_next_id (hd_registry h0))) [] (sys_start h0)"
  by (auto simp: sys_inv_def main_inv_def net_inv_def sys_start_def net_initial_def serving_def relaying_def)

text \<open>
  C5.  Served in its session.  Under every interleaving of the network thread, the main loop, Wayland
  clients and the clipboard: while a client is being served, and whenever one of its messages is
  about to be handled, also when its connection has ended or a newcomer has preempted it meanwhile,
  the one active session of the server is the one that client's hello named.  The session is in the
  active state, carries the token of that hello, and if the client presented a token it is its own.
\<close>
theorem served_in_its_session:
  assumes "hosting_inv False h0" "sys_run cfg (sys_start h0) outs s"
    and "unat (rg_next_id (hd_registry h0)) + length (sy_clients s) + 1 < 2 ^ 64"
    and "relaying (nt_phase (sy_net s)) \<or> (\<exists>e es. sy_inbox s = e # es \<and> is_traffic e)"
  shows "\<exists>sh x. hellos outs \<noteq> [] \<and> sh = last (hellos outs)
     \<and> hd_active_session (sy_main s) = Some (sh_session_id sh)
     \<and> session_at (hd_registry (sy_main s)) (sh_session_id sh) = Some x
     \<and> s_state x = Active \<and> s_token x = sh_token sh
     \<and> (\<forall>t. ch_token (sy_clients s ! (length (sy_answers s) - 1)) = Some t \<longrightarrow> s_token x = t)"
proof -
  obtain c where main: "main_inv c (unat (rg_next_id (hd_registry h0))) s" and net: "net_inv outs s"
    using sys_run_inv [OF assms(2) sys_inv_start [OF assms(1)] assms(3)] by (auto simp: sys_inv_def)
  have c
  proof (cases "relaying (nt_phase (sy_net s))")
    case True
    then have "\<forall>x\<in>set (sy_inbox s). is_traffic x" "serving (nt_phase (sy_net s))"
      using net by (auto simp: net_inv_def relaying_def serving_def split: net_phase.splits)
    then show ?thesis using main traffic_connected [of "sy_inbox s" c] by (simp add: main_inv_def)
  next
    case False
    then obtain e es where "sy_inbox s = e # es" "is_traffic e" using assms(4) by blast
    then show ?thesis using main by (cases e) (auto simp: main_inv_def)
  qed
  moreover obtain b where "sy_answers s \<noteq> []" "last (sy_answers s) = Bind b" "told b outs"
    using net assms(4) by (auto simp: net_inv_def)
  ultimately show ?thesis using main by (auto simp: main_inv_def in_session_def told_def)
qed

lemma sys_run_trans: "sys_run cfg s1 outs1 s2 \<Longrightarrow> sys_run cfg s outs s1 \<Longrightarrow> sys_run cfg s (outs @ outs1) s2"
proof (induction rule: sys_run.induct)
  case (more_steps s1 outs1 s2 outs2 s3)
  show ?case using sys_run.more_steps [OF more_steps.IH [OF more_steps.prems] more_steps.hyps(2)] by simp
qed simp

lemma one_step: "sys_step cfg s outs s1 \<Longrightarrow> sys_run cfg s outs s1"
  using sys_run.more_steps [OF sys_run.no_step] by fastforce

lemma quiet_steps: "sys_run cfg s [] s1 \<Longrightarrow> sys_step cfg s1 [] s2 \<Longrightarrow> sys_run cfg s [] s2"
  using sys_run.more_steps [of cfg s "[]" s1 "[]" s2] by simp

theorem served_in_its_session_witness:
  "\<exists>outs s sh x. sys_run server_config_default (sys_start example_server) outs s \<and> relaying (nt_phase (sy_net s))
     \<and> sh = last (hellos outs) \<and> hd_active_session (sy_main s) = Some (sh_session_id sh)
     \<and> session_at (hd_registry (sy_main s)) (sh_session_id sh) = Some x \<and> s_state x = Active \<and> s_token x = ''t''"
proof -
  let ?cfg = server_config_default and ?hello = "token_hello ''t''" and ?up = "\<lparr> up_control = True, up_display = True, up_audio = True \<rparr>"
  let ?b = "\<lparr> bi_session_id = 1, bi_resumed = False, bi_token = ''t'' \<rparr>" and ?caps = "from_advertised [cap_DISPLAY]"
  obtain h houts where c: "client_connected (alone 7) ?hello ''a'' example_server = (h, houts)" by fastforce
  obtain d where d: "answers houts = [d]" "Reply d \<in> set houts" by (rule one_answer [OF c])
  have "answers houts = [Bind ?b]"
  proof -
    have "Reply (Bind ?b) \<in> set houts" by (rule example_connects [OF c])
    then have "Bind ?b \<in> set (answers houts)"
      by (force simp: answers_def List.map_filter_def answer_of_def)
    then show ?thesis using d(1) by simp
  qed
  note a = this
  let ?net = "\<lambda>ph. \<lparr> nt_phase = ph, nt_queue = [] \<rparr>" and ?relay = "Relaying ?caps False False"
  let ?state = "\<lambda>ph inbox main as. \<lparr> sy_net = ?net ph, sy_inbox = inbox, sy_main = main, sy_counter = 0,
    sy_clients = [?hello], sy_answers = as \<rparr>"
  let ?s1 = "?state (Deciding ?caps) [ClientConnected ?hello ''a''] example_server []"
  let ?s2 = "?state (Deciding ?caps) [] h [Bind ?b]" and ?s3 = "?state ?relay [] h [Bind ?b]"
  let ?outs = "fst (serve_handshake ?cfg ?caps ?up (Some (Bind ?b)))"
  have "sys_run ?cfg (sys_start example_server) [] ?s1"
    using one_step [OF sys_step.network [of "NetClient ?hello ''a''" ?cfg "sys_start example_server"]]
    by (simp add: network_side_def sys_start_def net_initial_def serving_def token_hello_def)
  then have "sys_run ?cfg (sys_start example_server) [] ?s2"
    by (rule quiet_steps) (use sys_step.handled [of ?s1 "ClientConnected ?hello ''a''" "[]" "alone 7" h houts ?cfg] c a in simp)
  moreover have "sys_step ?cfg ?s2 ?outs ?s3"
  proof -
    have "server_step ?cfg (NetDecision ?up (Some (Bind ?b))) (?net (Deciding ?caps)) = (?net ?relay, [], ?outs)"
      by (simp add: serve_handshake_def Let_def)
    then show ?thesis using sys_step.answered [of ?s2 ?cfg ?up "?net ?relay" "[]" ?outs] by (simp del: server_step.simps)
  qed
  ultimately have run: "sys_run ?cfg (sys_start example_server) ?outs ?s3"
    using sys_run.more_steps by fastforce
  have "relaying (nt_phase (sy_net ?s3))" by (simp add: relaying_def)
  moreover have "unat (rg_next_id (hd_registry example_server)) + length (sy_clients ?s3) + 1 < 2 ^ 64"
    by (simp add: example_server_facts)
  ultimately show ?thesis
    using served_in_its_session [OF example_server_facts(1) run] run
    by (fastforce simp: token_hello_def)
qed

subsection \<open>The main loop\<close>

text \<open>
  What one turn of the loop in \<open>run\<close> meets: the time, the events in the channel and whether its sender
  is gone, the admin requests, what dispatching the Wayland clients does to the state, whether a pipe
  and the selection could be had, and, when the timer fires, what the renderer makes of the frame
  and whether the channel takes it.
\<close>

record loop_turn =
  lt_clock :: clock
  lt_events :: "(surroundings \<times> net_to_compositor) list"
  lt_hung_up :: bool
  lt_requests :: "admin_request list"
  lt_wayland :: "compositor \<Rightarrow> compositor"
  lt_piped :: bool
  lt_requested :: bool
  lt_frame :: "(bytes \<times> rect list option) option option"
  lt_sent :: bool

text \<open>What the turn works with all the time.\<close>

record loop_env =
  le_version :: string
  le_admin :: bool
  le_zenc :: "bytes \<Rightarrow> bytes option"
  le_geometry :: "win \<Rightarrow> rect option"
  le_width :: int
  le_height :: int
  le_stride :: nat

text \<open>
  One turn.  The result is \<open>None\<close> for a panic; otherwise the state, the cleanup counter, the outputs,
  and the selection to be read in the background.
\<close>

definition main_turn ::
  "loop_env \<Rightarrow> loop_turn \<Rightarrow> u32 \<Rightarrow> headless
     \<Rightarrow> (headless \<times> u32 \<times> headless_out list \<times> (string \<times> string list) option) option" where
  "main_turn le t counter h =
     (let (h1, outs1) = drain_network_events (lt_events t) (lt_hung_up t) h;
          outs2 = drain_admin_queries (le_version le) (lt_clock t) (le_admin le) (lt_requests t) h1;
          (h2, counter1, outs3) = periodic_cleanup (lt_clock t) counter h1;
          (st, paste) = process_pending_clipboard (lt_piped t) (lt_requested t) (lt_wayland t (hd_state h2));
          h3 = h2\<lparr> hd_state := st \<rparr>
      in case lt_frame t of
           None \<Rightarrow> Some (h3, counter1, outs1 @ outs2 @ outs3, paste)
         | Some rendered \<Rightarrow>
             map_option (\<lambda>(h4, outs4, elements). (h4, counter1, outs1 @ outs2 @ outs3 @ outs4, paste))
               (render_headless_frame (le_zenc le) (lt_sent t) (le_geometry le) rendered
                  (le_width le) (le_height le) (le_stride le) h3))"

lemma queued_append [simp]: "queued (xs @ ys) = queued xs @ queued ys"
  by (simp add: queued_def List.map_filter_def)

lemma admin_quiet: "queued (drain_admin_queries version ck linked requests h) = []"
    "answers (drain_admin_queries version ck linked requests h) = []"
  by (auto simp: drain_admin_queries_def queued_def answers_def answer_of_def List.map_filter_def)

lemma cleanup_quiet:
  assumes "periodic_cleanup ck n h = (h1, n1, outs)"
  shows "queued outs = []" "answers outs = []"
proof -
  have "\<exists>t i. out = LauncherSessionDestroyed t i" if "out \<in> set outs" for out
    using assms that by (auto simp: periodic_cleanup_def Let_def destroyed_notice_def List.map_filter_def split: if_splits prod.splits)
  then show "queued outs = []" "answers outs = []"
    by (force simp: queued_def answers_def answer_of_def List.map_filter_def filter_empty_conv split: headless_out.splits)+
qed

lemma frame_quiet:
  assumes "render_headless_frame zenc sent geo rendered width height stride h = Some (h1, outs, els)"
  shows "answers outs = []"
  using assms by (cases rendered)
    (auto simp: render_headless_frame_def Let_def answers_def answer_of_def List.map_filter_def filter_empty_conv
      split: prod.splits if_splits option.splits)

lemma drain_run:
  "drain_network_events evs hung_up (sy_main s) = (h, outs) \<Longrightarrow> sy_inbox s = map snd evs @ es \<Longrightarrow>
     (hung_up \<Longrightarrow> nt_phase (sy_net s) = Stopped \<and> es = []) \<Longrightarrow>
     sys_run cfg s [] (s\<lparr> sy_inbox := es, sy_main := h, sy_answers := sy_answers s @ answers outs \<rparr>)
     \<and> queued outs = []"
proof (induction evs arbitrary: s h outs)
  case Nil
  have s: "s\<lparr> sy_inbox := es, sy_main := x \<rparr> = s\<lparr> sy_main := x \<rparr>" for x using Nil.prems(2) by simp
  show ?case
  proof (cases hung_up)
    case True
    then have "h = (sy_main s)\<lparr> hd_client_connected := False \<rparr>" "outs = []" "nt_phase (sy_net s) = Stopped" "sy_inbox s = []"
      using Nil.prems by auto
    then show ?thesis using one_step [OF sys_step.hung_up [of s cfg]] s by (simp only: answers_simps append_Nil2) simp
  next
    case False
    then show ?thesis using Nil.prems(1) s sys_run.no_step [of cfg s] by auto
  qed
next
  case (Cons p evs)
  obtain env e where p: "p = (env, e)" by (cases p)
  obtain h1 outs1 where h1: "network_event env e (sy_main s) = (h1, outs1)" by fastforce
  let ?s1 = "s\<lparr> sy_inbox := map snd evs @ es, sy_main := h1, sy_answers := sy_answers s @ answers outs1 \<rparr>"
  obtain outs2 where h2: "drain_network_events evs hung_up (sy_main ?s1) = (h, outs2)" "outs = outs1 @ outs2"
    using Cons.prems(1) by (auto simp: p h1 split: prod.splits)
  have step: "sys_step cfg s [] ?s1" using sys_step.handled [of s e "map snd evs @ es" env h1 outs1 cfg] Cons.prems(2) h1 by (simp add: p)
  show ?case
    using Cons.IH [OF h2(1)] Cons.prems(3) sys_run_trans [OF _ one_step [OF step]] network_event_queued [OF h1]
    by (simp add: h2(2))
qed



end
