(* ===== verification/Reconnect.thy ===== *)
theory Reconnect
  imports Client
begin

text \<open>
  The network thread of the viewer (\<open>main\<close> in \<open>crates/wrclient/src/main.rs\<close>): connecting, the hand-over of the
  window size, the session, and the reconnect loop around them.  What one round meets is an \<open>attempt\<close>.
\<close>

subsection \<open>A round of the reconnect loop\<close>

text \<open>
  \<open>at_control\<close>: the message read after a resumed hello, \<open>None\<close> if reading fails; \<open>at_window\<close>: the main thread takes the
  size; \<open>at_display\<close>: the server opens the display stream; then the turns of the session loop.
\<close>

record attempt =
  at_dialing :: dialing
  at_control :: "control_message option"
  at_window :: bool
  at_display :: bool
  at_turns :: "turn list"

record network_thread =
  nt_backoff :: nat
  nt_dims_reported :: bool
  nt_first_attempt :: bool
  nt_clipboard :: local_clipboard
  nt_pins :: pin_store

definition network_thread_start :: "bool \<Rightarrow> pin_store \<Rightarrow> network_thread" where
  "network_thread_start clipboard_opened pins =
     \<lparr> nt_backoff = INITIAL_BACKOFF_MS, nt_dims_reported = False, nt_first_attempt = True,
       nt_clipboard = clipboard_new clipboard_opened, nt_pins = pins \<rparr>"

datatype thread_out =
    Dialled candidate
  | SleepMs nat
  | ReportDims u32 u32
  | InSession viewer_out

text \<open>
  How a round ends: with the next one, or with the thread.  \<open>Running\<close>: the session goes on after the given turns;
  \<open>Panicked\<close>: a received region does not fit.
\<close>

datatype round_end = NextRound | GaveUp connect_error | WindowGone | RenderGone | Running | Panicked

text \<open>From the hello on.\<close>

definition connected_round ::
  "(bytes \<Rightarrow> bytes option) \<Rightarrow> attempt \<Rightarrow> server_hello \<Rightarrow> network_thread \<Rightarrow> network_thread \<times> thread_out list \<times> round_end" where
  "connected_round zdec a hello st =
     (if sh_resumed hello \<and> at_control a = None then (st, [], NextRound)
      else if \<not> nt_dims_reported st \<and> \<not> at_window a then (st, [], WindowGone)
      else let dims = (if nt_dims_reported st then [] else [ReportDims (sh_output_width hello) (sh_output_height hello)]);
               st1 = st\<lparr> nt_dims_reported := True \<rparr>
           in if \<not> at_display a then (st1, dims, NextRound)
              else case run_session_loop zdec (at_turns a) (viewer_start hello (nt_clipboard st1)) of
                     None \<Rightarrow> (st1, dims, Panicked)
                   | Some (vw, outs, ended) \<Rightarrow>
                       let st2 = st1\<lparr> nt_clipboard := vw_clipboard vw \<rparr>; outs1 = dims @ map InSession outs
                       in case ended of
                            None \<Rightarrow> (st2, outs1, Running)
                          | Some RenderThreadClosed \<Rightarrow> (st2, outs1, RenderGone)
                          | Some Disconnected \<Rightarrow> (st2, outs1 @ [SleepMs (nt_backoff st2)], NextRound))"

definition network_round ::
  "(bytes \<Rightarrow> bytes option) \<Rightarrow> candidate list \<Rightarrow> string option \<Rightarrow> attempt \<Rightarrow> network_thread
     \<Rightarrow> network_thread \<times> thread_out list \<times> round_end" where
  "network_round zdec candidates token a st =
     (case connect_following_redirects (at_dialing a) candidates token (nt_first_attempt st) (allowed_of candidates) (nt_pins st) of
        (pins, dialled, result) \<Rightarrow>
          let st1 = st\<lparr> nt_pins := pins \<rparr>; dials = map Dialled dialled in
          case result of
            Fatal err \<Rightarrow> (st1, dials @ (if nt_dims_reported st then [] else [ReportDims 0 0]), GaveUp err)
          | Retry \<Rightarrow> (st1\<lparr> nt_backoff := next_backoff Retry (nt_backoff st) \<rparr>, dials @ [SleepMs (nt_backoff st)], NextRound)
          | ConnectResult hello \<Rightarrow>
              (case connected_round zdec a hello
                      (st1\<lparr> nt_first_attempt := False, nt_backoff := next_backoff result (nt_backoff st) \<rparr>) of
                 (st2, outs, e) \<Rightarrow> (st2, dials @ outs, e)))"

fun network_rounds ::
  "(bytes \<Rightarrow> bytes option) \<Rightarrow> candidate list \<Rightarrow> string option \<Rightarrow> attempt list \<Rightarrow> network_thread
     \<Rightarrow> network_thread \<times> thread_out list \<times> round_end" where
  "network_rounds zdec candidates token [] st = (st, [], NextRound)"
| "network_rounds zdec candidates token (a # as) st =
     (case network_round zdec candidates token a st of
        (st1, outs, NextRound) \<Rightarrow>
          (case network_rounds zdec candidates token as st1 of (st2, outs2, e) \<Rightarrow> (st2, outs @ outs2, e))
      | (st1, outs, e) \<Rightarrow> (st1, outs, e))"

subsection \<open>Waiting\<close>

fun sleeps :: "thread_out list \<Rightarrow> nat list" where
  "sleeps [] = []"
| "sleeps (SleepMs n # outs) = n # sleeps outs"
| "sleeps (Dialled c # outs) = sleeps outs"
| "sleeps (ReportDims w h # outs) = sleeps outs"
| "sleeps (InSession v # outs) = sleeps outs"

lemma sleeps_append [simp]: "sleeps (xs @ ys) = sleeps xs @ sleeps ys"
  by (induction xs rule: sleeps.induct) auto

lemma sleeps_map [simp]: "sleeps (map Dialled cs) = []" "sleeps (map InSession vs) = []"
  by (induction cs; simp) (induction vs; simp)

text \<open>Nobody answers.\<close>

definition outage :: "attempt \<Rightarrow> bool" where
  "outage a \<longleftrightarrow> (\<forall>addr. pr_cert (di_servers (at_dialing a) addr) = None)"

lemma outage_candidates:
  "outage a \<Longrightarrow> connect_candidates (at_dialing a) token allowed False err cs pins = (pins, cs, Retry)"
proof (induction cs arbitrary: err)
  case (Cons c cs)
  then show ?case
    by (simp add: outage_def follow_chain.simps [of _ _ _ 0] connect_def config_for_def Let_def MAX_REDIRECTS_def)
qed simp

lemma outage_round:
  assumes "outage a" "\<not> nt_first_attempt st"
  shows "network_round zdec cs token a st =
    (st\<lparr> nt_backoff := min (nt_backoff st * 2) MAX_BACKOFF_MS \<rparr>, map Dialled cs @ [SleepMs (nt_backoff st)], NextRound)"
  using assms
  by (simp add: network_round_def connect_following_redirects_def outage_candidates next_backoff_def)

lemma outage_rounds:
  assumes "list_all outage downs" "\<not> nt_first_attempt st" "nt_backoff st \<le> MAX_BACKOFF_MS"
  shows "\<exists>pre. network_rounds zdec cs token (downs @ rest) st =
      (case network_rounds zdec cs token rest (st\<lparr> nt_backoff := min (nt_backoff st * 2 ^ length downs) MAX_BACKOFF_MS \<rparr>) of
         (st2, outs, e) \<Rightarrow> (st2, pre @ outs, e))
    \<and> sleeps pre = map (\<lambda>i. min (nt_backoff st * 2 ^ i) MAX_BACKOFF_MS) [0..<length downs]"
  using assms
proof (induction downs arbitrary: st)
  case Nil
  have "st\<lparr> nt_backoff := min (nt_backoff st) MAX_BACKOFF_MS \<rparr> = st" using Nil(3) by simp
  then show ?case by (intro exI [of _ "[]"]) (simp split: prod.split)
next
  case (Cons a downs)
  define st1 where "st1 = st\<lparr> nt_backoff := min (nt_backoff st * 2) MAX_BACKOFF_MS \<rparr>"
  have st1: "\<not> nt_first_attempt st1" "nt_backoff st1 \<le> MAX_BACKOFF_MS" using Cons.prems by (simp_all add: st1_def)
  have grow: "min (nt_backoff st1 * 2 ^ i) MAX_BACKOFF_MS = min (nt_backoff st * 2 ^ Suc i) MAX_BACKOFF_MS" for i
  proof (cases "nt_backoff st * 2 \<le> MAX_BACKOFF_MS")
    case False
    then have "nt_backoff st1 = MAX_BACKOFF_MS" by (simp add: st1_def)
    moreover have "MAX_BACKOFF_MS * 1 \<le> MAX_BACKOFF_MS * 2 ^ i" "MAX_BACKOFF_MS * 1 \<le> nt_backoff st * 2 * 2 ^ i"
      using False by (intro mult_le_mono; simp)+
    ultimately have "min (nt_backoff st1 * 2 ^ i) MAX_BACKOFF_MS = MAX_BACKOFF_MS"
      "min (nt_backoff st * 2 ^ Suc i) MAX_BACKOFF_MS = MAX_BACKOFF_MS"
      by (simp_all only: min_absorb2 power_Suc mult_1_right mult.assoc)
    then show ?thesis by simp
  qed (simp add: st1_def min_def mult.assoc)
  obtain pre where pre: "network_rounds zdec cs token (downs @ rest) st1 =
      (case network_rounds zdec cs token rest (st1\<lparr> nt_backoff := min (nt_backoff st1 * 2 ^ length downs) MAX_BACKOFF_MS \<rparr>) of
         (st2, outs, e) \<Rightarrow> (st2, pre @ outs, e))"
    "sleeps pre = map (\<lambda>i. min (nt_backoff st1 * 2 ^ i) MAX_BACKOFF_MS) [0..<length downs]"
    using Cons.IH [OF _ st1] Cons.prems(1) by auto
  have "st1\<lparr> nt_backoff := n \<rparr> = st\<lparr> nt_backoff := n \<rparr>" for n by (simp add: st1_def)
  note pre' = pre [unfolded this grow]
  have split: "[0..<Suc (length downs)] = 0 # map Suc [0..<length downs]"
    by (simp add: upt_conv_Cons map_Suc_upt del: upt_Suc)
  have "min (nt_backoff st) MAX_BACKOFF_MS = nt_backoff st" using Cons.prems(3) by simp
  then show ?case
    using Cons.prems(1,2) pre'
    by (intro exI [of _ "map Dialled cs @ SleepMs (nt_backoff st) # pre"])
      (simp add: outage_round st1_def [symmetric] split comp_def del: upt_Suc split: prod.split)
qed


subsection \<open>Reconnecting without a pause\<close>

text \<open>A server that answers the hello but fails before the display stream, as one that closes the connection does.\<close>

definition hangs_up :: "candidate list \<Rightarrow> string option \<Rightarrow> attempt \<Rightarrow> bool" where
  "hangs_up cs token a \<longleftrightarrow> \<not> at_display a \<and> at_window a
     \<and> (\<forall>first pins. \<exists>pins1 dialled hello.
          connect_following_redirects (at_dialing a) cs token first (allowed_of cs) pins = (pins1, dialled, ConnectResult hello))"

lemma hangs_up_round:
  assumes "hangs_up cs token a"
  shows "\<exists>st1 outs. network_round zdec cs token a st = (st1, outs, NextRound) \<and> sleeps outs = []"
proof -
  obtain pins1 dialled hello where
    "connect_following_redirects (at_dialing a) cs token (nt_first_attempt st) (allowed_of cs) (nt_pins st) = (pins1, dialled, ConnectResult hello)"
    using assms unfolding hangs_up_def by blast
  with assms show ?thesis
    by (simp add: network_round_def connected_round_def hangs_up_def Let_def)
qed

text \<open>
  The pauses are between failed attempts only.  Against a server that accepts the hello and then drops the
  connection, the viewer dials again and again with no pause at all.
\<close>
theorem hang_up_spins:
  assumes "list_all (hangs_up cs token) as"
  shows "\<exists>st1 outs. network_rounds zdec cs token as st = (st1, outs, NextRound) \<and> sleeps outs = []"
  using assms
proof (induction as arbitrary: st)
  case (Cons a as)
  obtain st1 outs where "network_round zdec cs token a st = (st1, outs, NextRound)" "sleeps outs = []"
    using hangs_up_round Cons.prems by (metis list.pred_inject(2))
  moreover obtain st2 outs2 where "network_rounds zdec cs token as st1 = (st2, outs2, NextRound)" "sleeps outs2 = []"
    using Cons by (metis list.pred_inject(2))
  ultimately show ?case by simp
qed simp

text \<open>The witnesses: a server without a certificate, and one that says hello and opens no display stream.\<close>

definition home :: candidate where
  "home = \<lparr> ca_addr = ''home'', ca_name = ''localhost'', ca_fingerprint = Some (fingerprint id [1]) \<rparr>"

definition hello_home :: server_hello where
  "hello_home = \<lparr> sh_version = PROTOCOL_VERSION, sh_session_id = 1, sh_output_width = 8, sh_output_height = 8,
     sh_resumed = False, sh_token = ''t'' \<rparr>"

definition dial_home :: "bytes option \<Rightarrow> dialing" where
  "dial_home cert = luring\<lparr> di_servers := \<lambda>a. \<lparr> pr_cert = cert, pr_write = Written, pr_answer = \<lambda>m. Some (ServerHello hello_home) \<rparr> \<rparr>"

definition attempt_home :: "bytes option \<Rightarrow> attempt" where
  "attempt_home cert = \<lparr> at_dialing = dial_home cert, at_control = None, at_window = True, at_display = False, at_turns = [] \<rparr>"

definition after_hello :: network_thread where
  "after_hello = (network_thread_start True \<lparr> ps_file = None, ps_pins = [] \<rparr>)\<lparr> nt_first_attempt := False \<rparr>"


theorem hang_up_spins_witness:
  "\<exists>st1 outs. network_rounds Some [home] (Some ''t'') (replicate 100 (attempt_home (Some [1]))) after_hello = (st1, outs, NextRound)
     \<and> sleeps outs = []"
proof -
  have "hangs_up [home] (Some ''t'') (attempt_home (Some [1]))"
    by (simp add: hangs_up_def attempt_home_def dial_home_def connect_following_redirects_def follow_chain.simps [of _ _ _ 0]
        connect_def config_for_def home_def luring_def Let_def MAX_REDIRECTS_def client_pin_policy_def check_pin_def
        fingerprints_match_def handshake_response_def hello_home_def version_compatible_def PROTOCOL_VERSION_def MIN_PROTOCOL_VERSION_def)
  then show ?thesis by (intro hang_up_spins) (simp add: list_all_iff)
qed

subsection \<open>The size of the window\<close>

text \<open>The size is reported at most once, and nothing of a session happens before; \<open>reported\<close>: it has been.\<close>

fun sized :: "bool \<Rightarrow> thread_out list \<Rightarrow> bool" where
  "sized reported [] = True"
| "sized reported (ReportDims w h # outs) = (\<not> reported \<and> sized True outs)"
| "sized reported (InSession v # outs) = (reported \<and> sized reported outs)"
| "sized reported (Dialled c # outs) = sized reported outs"
| "sized reported (SleepMs n # outs) = sized reported outs"

definition reports :: "thread_out list \<Rightarrow> bool" where
  "reports outs \<longleftrightarrow> (\<exists>w h. ReportDims w h \<in> set outs)"

lemma reports_simps [simp]:
  "\<not> reports []" "reports (ReportDims w h # outs)" "reports (InSession v # outs) = reports outs"
  "reports (Dialled c # outs) = reports outs" "reports (SleepMs n # outs) = reports outs"
  by (auto simp: reports_def)

lemma sized_append: "sized reported (xs @ ys) \<longleftrightarrow> sized reported xs \<and> sized (reported \<or> reports xs) ys"
  by (induction reported xs rule: sized.induct) auto

lemma reports_append [simp]: "reports (xs @ ys) \<longleftrightarrow> reports xs \<or> reports ys"
  by (auto simp: reports_def)

lemma dials_sized [simp]: "sized reported (map Dialled cs)" "\<not> reports (map Dialled cs)"
  by (induction cs; simp) (auto simp: reports_def)

lemma session_sized [simp]: "sized True (map InSession vs)" "\<not> reports (map InSession vs)"
  by (induction vs; simp) (auto simp: reports_def)

lemma connected_round_sized:
  assumes "connected_round zdec a hello st = (st1, outs, e)"
  shows "sized (nt_dims_reported st) outs \<and> (e = NextRound \<longrightarrow> nt_dims_reported st1 = (nt_dims_reported st \<or> reports outs))"
  using assms
  by (auto simp: connected_round_def Let_def sized_append split: if_splits option.splits session_end.splits)

lemma network_round_sized:
  assumes "network_round zdec cs token a st = (st1, outs, e)"
  shows "sized (nt_dims_reported st) outs \<and> (e = NextRound \<longrightarrow> nt_dims_reported st1 = (nt_dims_reported st \<or> reports outs))"
  using assms connected_round_sized [of zdec a]
  by (fastforce simp: network_round_def Let_def sized_append split: if_splits prod.splits connect_result.splits)

text \<open>
  Whatever the servers do, the thread reports a window size at most once, and no input is sent and no frame is
  shown before.
\<close>
theorem size_reported_once:
  "let (st1, outs, e) = network_rounds zdec cs token as st in sized (nt_dims_reported st) outs"
proof (induction as arbitrary: st)
  case (Cons a as)
  obtain st1 outs e where r: "network_round zdec cs token a st = (st1, outs, e)" by (metis prod_cases3)
  show ?case
    using network_round_sized [OF r] Cons.IH [of st1] r
    by (cases e) (auto simp: sized_append split: prod.splits)
qed simp

end
