(* ===== verification/ClientInput.thy ===== *)
theory ClientInput
  imports Compositor
begin

text \<open>
  The viewer's window events (\<open>crates/wrclient/src/input.rs\<close>, the event handler of \<open>main.rs\<close>): how they
  become input messages, and what those do to the keys and modifiers of the compositor.  winit's
  key codes are the names of its variants; a text is its Unicode code points.
\<close>

subsection \<open>Keys\<close>

text \<open>winit's \<open>KeyCode\<close>: a code is the name of its variant.\<close>

type_synonym key_code = string

definition KEY_LEFTSHIFT_client :: u32 where "KEY_LEFTSHIFT_client = 42"
definition KEY_LEFTCTRL_client :: u32 where "KEY_LEFTCTRL_client = 29"
definition KEY_LEFTALT_client :: u32 where "KEY_LEFTALT_client = 56"
definition KEY_LEFTMETA_client :: u32 where "KEY_LEFTMETA_client = 125"

definition is_modifier_key :: "key_code \<Rightarrow> bool" where
  "is_modifier_key code \<longleftrightarrow>
     code \<in> {''ShiftLeft'', ''ShiftRight'', ''ControlLeft'', ''ControlRight'', ''AltLeft'', ''AltRight'',
               ''SuperLeft'', ''SuperRight''}"

text \<open>The match of \<open>keycode_to_evdev\<close>, arm by arm.\<close>

definition evdev_table :: "(key_code \<times> u32) list" where
  "evdev_table =
    [(''Escape'', 1), (''Digit1'', 2), (''Digit2'', 3), (''Digit3'', 4), (''Digit4'', 5), (''Digit5'', 6),
     (''Digit6'', 7), (''Digit7'', 8), (''Digit8'', 9), (''Digit9'', 10), (''Digit0'', 11), (''Minus'', 12),
     (''Equal'', 13), (''Backspace'', 14), (''Tab'', 15), (''KeyQ'', 16), (''KeyW'', 17), (''KeyE'', 18),
     (''KeyR'', 19), (''KeyT'', 20), (''KeyY'', 21), (''KeyU'', 22), (''KeyI'', 23), (''KeyO'', 24),
     (''KeyP'', 25), (''BracketLeft'', 26), (''BracketRight'', 27), (''Enter'', 28), (''ControlLeft'', 29),
     (''KeyA'', 30), (''KeyS'', 31), (''KeyD'', 32), (''KeyF'', 33), (''KeyG'', 34), (''KeyH'', 35),
     (''KeyJ'', 36), (''KeyK'', 37), (''KeyL'', 38), (''Semicolon'', 39), (''Quote'', 40),
     (''Backquote'', 41), (''ShiftLeft'', 42), (''Backslash'', 43), (''KeyZ'', 44), (''KeyX'', 45),
     (''KeyC'', 46), (''KeyV'', 47), (''KeyB'', 48), (''KeyN'', 49), (''KeyM'', 50), (''Comma'', 51),
     (''Period'', 52), (''Slash'', 53), (''ShiftRight'', 54), (''AltLeft'', 56), (''Space'', 57),
     (''CapsLock'', 58), (''F1'', 59), (''F2'', 60), (''F3'', 61), (''F4'', 62), (''F5'', 63), (''F6'', 64),
     (''F7'', 65), (''F8'', 66), (''F9'', 67), (''F10'', 68), (''NumLock'', 69), (''ScrollLock'', 70),
     (''F11'', 87), (''F12'', 88), (''ControlRight'', 97), (''AltRight'', 100), (''Home'', 102),
     (''ArrowUp'', 103), (''PageUp'', 104), (''ArrowLeft'', 105), (''ArrowRight'', 106), (''End'', 107),
     (''ArrowDown'', 108), (''PageDown'', 109), (''Insert'', 110), (''Delete'', 111), (''SuperLeft'', 125),
     (''SuperRight'', 126)]"

definition keycode_to_evdev :: "key_code \<Rightarrow> u32 option" where
  "keycode_to_evdev code = map_of evdev_table code"

text \<open>\<open>KeyEvent\<close>: the physical key (\<open>None\<close> if unidentified), whether it is pressed, and the resolved text.\<close>

record key_input =
  ki_physical_key :: "key_code option"
  ki_pressed :: bool
  ki_text :: "nat list option"

definition is_ascii_uppercase :: "nat \<Rightarrow> bool" where
  "is_ascii_uppercase c \<longleftrightarrow> 65 \<le> c \<and> c \<le> 90"

definition is_ascii_alphabetic :: "nat \<Rightarrow> bool" where
  "is_ascii_alphabetic c \<longleftrightarrow> is_ascii_uppercase c \<or> (97 \<le> c \<and> c \<le> 122)"

definition key_message :: "u32 \<Rightarrow> bool \<Rightarrow> input_message" where
  "key_message code pressed =
     Keyboard \<lparr> ke_keycode = code, ke_state = (if pressed then KeyPressed else KeyReleased), ke_time = 0 \<rparr>"

definition convert_keyboard :: "key_input \<Rightarrow> bool \<Rightarrow> input_message list" where
  "convert_keyboard event real_shift =
     (case ki_physical_key event of
        None \<Rightarrow> []
      | Some code \<Rightarrow>
          if is_modifier_key code \<or> code = ''CapsLock'' then []
          else (case keycode_to_evdev code of
                  None \<Rightarrow> []
                | Some keycode \<Rightarrow>
                    let pressed = ki_pressed event; key = key_message keycode pressed in
                    case (if pressed then ki_text event else None) of
                      Some [c] \<Rightarrow>
                        if is_ascii_alphabetic c \<and> is_ascii_uppercase c \<noteq> real_shift
                        then [key_message KEY_LEFTSHIFT_client (is_ascii_uppercase c), key,
                              key_message KEY_LEFTSHIFT_client real_shift]
                        else [key]
                    | _ \<Rightarrow> [key]))"

record modifiers_state =
  ms_shift :: bool
  ms_control :: bool
  ms_alt :: bool
  ms_super :: bool

definition emit_modifier :: "bool \<Rightarrow> bool \<Rightarrow> u32 \<Rightarrow> input_message list" where
  "emit_modifier was is keycode = (if was \<noteq> is then [key_message keycode is] else [])"

definition convert_modifiers :: "modifiers_state \<Rightarrow> modifiers_state \<Rightarrow> input_message list" where
  "convert_modifiers prev now =
     emit_modifier (ms_shift prev) (ms_shift now) KEY_LEFTSHIFT_client
     @ emit_modifier (ms_control prev) (ms_control now) KEY_LEFTCTRL_client
     @ emit_modifier (ms_alt prev) (ms_alt now) KEY_LEFTALT_client
     @ emit_modifier (ms_super prev) (ms_super now) KEY_LEFTMETA_client"

subsection \<open>The pointer\<close>

definition convert_cursor_moved :: "f64 \<times> f64 \<Rightarrow> input_message" where
  "convert_cursor_moved pos = PointerMotion \<lparr> pm_x = fst pos, pm_y = snd pos, pm_time = 0 \<rparr>"

datatype mouse_button = LeftButton | RightButton | MiddleButton | BackButton | ForwardButton | OtherButton "16 word"

fun button_code :: "mouse_button \<Rightarrow> u32" where
  "button_code LeftButton = 0x110"
| "button_code RightButton = 0x111"
| "button_code MiddleButton = 0x112"
| "button_code BackButton = 0x116"
| "button_code ForwardButton = 0x115"
| "button_code (OtherButton code) = 0x110 + ucast code"

definition convert_mouse_button :: "mouse_button \<Rightarrow> bool \<Rightarrow> input_message option" where
  "convert_mouse_button button pressed =
     Some (PointerButton \<lparr> pb_button = button_code button,
             pb_state = (if pressed then ButtonPressed else ButtonReleased), pb_time = 0 \<rparr>)"

text \<open>A line is 15 pixels; the product of an \<open>f32\<close> and 15 is exact in \<open>f64\<close>.\<close>

datatype scroll_delta = LineDelta f64 f64 | PixelDelta f64 f64

definition axis_message :: "axis \<Rightarrow> f64 \<Rightarrow> input_message" where
  "axis_message ax v = PointerAxis \<lparr> pa_axis = ax, pa_value = v, pa_time = 0 \<rparr>"

fun convert_mouse_wheel :: "scroll_delta \<Rightarrow> input_message list" where
  "convert_mouse_wheel (LineDelta x y) =
     (if x \<noteq> 0 then [axis_message Horizontal (x * 15)] else [])
     @ (if y \<noteq> 0 then [axis_message Vertical (y * 15)] else [])"
| "convert_mouse_wheel (PixelDelta x y) =
     (if x \<noteq> 0 then [axis_message Horizontal x] else [])
     @ (if y \<noteq> 0 then [axis_message Vertical y] else [])"

subsection \<open>The window\<close>

datatype window_event =
    CloseRequested
  | Resized
  | RedrawRequested
  | KeyboardInput key_input
  | ModifiersChanged modifiers_state
  | CursorMoved "f64 \<times> f64"
  | MouseInput mouse_button bool
  | MouseWheel scroll_delta
  | Focused bool
  | OtherWindowEvent

text \<open>The part of \<open>App\<close> that the events change, and what they make the handler do besides drawing.\<close>

record app =
  ap_modifiers :: modifiers_state

datatype app_out = QueueInput input_message | GainedFocus | ExitProcess

definition app_new :: app where
  "app_new = \<lparr> ap_modifiers = \<lparr> ms_shift = False, ms_control = False, ms_alt = False, ms_super = False \<rparr> \<rparr>"

fun window_event_handler :: "window_event \<Rightarrow> app \<Rightarrow> app \<times> app_out list" where
  "window_event_handler CloseRequested ap = (ap, [ExitProcess])"
| "window_event_handler Resized ap = (ap, [])"
| "window_event_handler RedrawRequested ap = (ap, [])"
| "window_event_handler (KeyboardInput event) ap =
     (ap, map QueueInput (convert_keyboard event (ms_shift (ap_modifiers ap))))"
| "window_event_handler (ModifiersChanged new_state) ap =
     (ap\<lparr> ap_modifiers := new_state \<rparr>, map QueueInput (convert_modifiers (ap_modifiers ap) new_state))"
| "window_event_handler (CursorMoved pos) ap = (ap, [QueueInput (convert_cursor_moved pos)])"
| "window_event_handler (MouseInput button pressed) ap =
     (ap, case convert_mouse_button button pressed of None \<Rightarrow> [] | Some m \<Rightarrow> [QueueInput m])"
| "window_event_handler (MouseWheel delta) ap = (ap, map QueueInput (convert_mouse_wheel delta))"
| "window_event_handler (Focused gained) ap = (ap, if gained then [GainedFocus] else [])"
| "window_event_handler OtherWindowEvent ap = (ap, [])"

text \<open>The events of the window in order; after a close request the process is gone.\<close>

fun window_events :: "window_event list \<Rightarrow> app \<Rightarrow> app \<times> app_out list" where
  "window_events [] ap = (ap, [])"
| "window_events (e # es) ap =
     (let (ap1, outs) = window_event_handler e ap in
      if ExitProcess \<in> set outs then (ap1, outs)
      else let (ap2, outs2) = window_events es ap1 in (ap2, outs @ outs2))"

subsection \<open>Modifiers on the server\<close>

lemma builtin_action_modifiers: "cp_modifiers (fst (builtin_action key c)) = cp_modifiers c"
  by (auto simp: builtin_action_def focus_on_def Let_def split_beta split: option.split)

lemma inject_keyboard_modifiers:
  "cp_modifiers (fst (inject_keyboard ev c)) = modifier_on_key (ke_keycode ev) (ke_state ev = KeyPressed) (cp_modifiers c)"
  by (simp add: inject_keyboard_def Let_def split_beta builtin_action_modifiers split: option.split)

lemma click_focus_modifiers: "cp_modifiers (fst (click_focus hit c)) = cp_modifiers c"
  by (auto simp: click_focus_def focus_on_def Let_def split: option.split prod.split)

fun message_modifiers :: "input_message \<Rightarrow> u32 list \<Rightarrow> u32 list" where
  "message_modifiers (Keyboard ev) held = modifier_on_key (ke_keycode ev) (ke_state ev = KeyPressed) held"
| "message_modifiers _ held = held"

lemma inject_modifiers:
  "cp_modifiers (fst (inject_network_input hit m c)) = message_modifiers m (cp_modifiers c)"
proof (cases m)
  case (PointerButton ev)
  then show ?thesis by (simp add: Let_def split_beta click_focus_modifiers)
qed (simp_all add: inject_keyboard_modifiers Let_def)

lemma inject_all_modifiers:
  "cp_modifiers (fst (inject_all hit ms c)) = fold message_modifiers ms (cp_modifiers c)"
proof (induction ms arbitrary: c)
  case (Cons m ms)
  from Cons [of "fst (inject_network_input hit m c)"] show ?case
    by (simp add: split_beta inject_modifiers)
qed simp

lemma modifier_bits [simp]:
  "modifier_bit KEY_LEFTSHIFT_client = Some MOD_SHIFT" "modifier_bit KEY_LEFTCTRL_client = Some MOD_CTRL"
  "modifier_bit KEY_LEFTALT_client = Some MOD_ALT" "modifier_bit KEY_LEFTMETA_client = Some MOD_SUPER"
  by (simp_all add: modifier_bit_def KEY_LEFTSHIFT_client_def KEY_LEFTCTRL_client_def KEY_LEFTALT_client_def
      KEY_LEFTMETA_client_def KEY_LEFTMETA_def KEY_LEFTSHIFT_def KEY_RIGHTSHIFT_def KEY_LEFTCTRL_def KEY_RIGHTCTRL_def
      KEY_LEFTALT_def KEY_RIGHTALT_def KEY_RIGHTMETA_def)

lemma synced_distinct [simp]:
  "KEY_LEFTSHIFT_client \<noteq> KEY_LEFTCTRL_client" "KEY_LEFTSHIFT_client \<noteq> KEY_LEFTALT_client"
  "KEY_LEFTSHIFT_client \<noteq> KEY_LEFTMETA_client" "KEY_LEFTCTRL_client \<noteq> KEY_LEFTALT_client"
  "KEY_LEFTCTRL_client \<noteq> KEY_LEFTMETA_client" "KEY_LEFTALT_client \<noteq> KEY_LEFTMETA_client"
  by (simp_all add: KEY_LEFTSHIFT_client_def KEY_LEFTCTRL_client_def KEY_LEFTALT_client_def KEY_LEFTMETA_client_def)

lemmas synced_distinct_sym [simp] = synced_distinct [symmetric]

lemma table_modifiers: "list_all (\<lambda>(code, k). is_modifier_key code \<or> modifier_bit k = None) evdev_table"
  by (simp add: evdev_table_def is_modifier_key_def modifier_bit_def KEY_LEFTMETA_def KEY_LEFTSHIFT_def KEY_RIGHTSHIFT_def
      KEY_LEFTCTRL_def KEY_RIGHTCTRL_def KEY_LEFTALT_def KEY_RIGHTALT_def KEY_RIGHTMETA_def)

lemma plain_key: "keycode_to_evdev code = Some k \<Longrightarrow> \<not> is_modifier_key code \<Longrightarrow> modifier_bit k = None"
  using table_modifiers by (auto simp: keycode_to_evdev_def list_all_iff dest!: map_of_SomeD)

text \<open>The codes the server holds for a modifier state of the client.\<close>

definition held_codes :: "modifiers_state \<Rightarrow> u32 set" where
  "held_codes m =
     (if ms_shift m then {KEY_LEFTSHIFT_client} else {}) \<union> (if ms_control m then {KEY_LEFTCTRL_client} else {})
     \<union> (if ms_alt m then {KEY_LEFTALT_client} else {}) \<union> (if ms_super m then {KEY_LEFTMETA_client} else {})"

lemma message_key [simp]:
  "message_modifiers (key_message k pressed) held = modifier_on_key k pressed held"
  by (simp add: key_message_def)

lemma set_modifier_on_key:
  "modifier_bit k \<noteq> None \<Longrightarrow> set (modifier_on_key k pressed held) = (if pressed then insert k (set held) else set held - {k})"
  by (auto simp: modifier_on_key_def)

lemma held_codes_iff:
  "x \<in> held_codes m \<longleftrightarrow>
     (x = KEY_LEFTSHIFT_client \<and> ms_shift m) \<or> (x = KEY_LEFTCTRL_client \<and> ms_control m)
     \<or> (x = KEY_LEFTALT_client \<and> ms_alt m) \<or> (x = KEY_LEFTMETA_client \<and> ms_super m)"
  by (simp add: held_codes_def)

lemma emit_held:
  "modifier_bit k \<noteq> None \<Longrightarrow> x \<in> set (fold message_modifiers (emit_modifier was now k) held) \<longleftrightarrow>
     (if x = k \<and> was \<noteq> now then now else x \<in> set held)"
  by (auto simp: emit_modifier_def set_modifier_on_key)

lemma convert_modifiers_held:
  "set held = held_codes prev \<Longrightarrow> set (fold message_modifiers (convert_modifiers prev now) held) = held_codes now"
proof (rule set_eqI)
  fix x assume held: "set held = held_codes prev"
  consider "x = KEY_LEFTSHIFT_client" | "x = KEY_LEFTCTRL_client" | "x = KEY_LEFTALT_client" | "x = KEY_LEFTMETA_client"
    | "x \<notin> {KEY_LEFTSHIFT_client, KEY_LEFTCTRL_client, KEY_LEFTALT_client, KEY_LEFTMETA_client}" by blast
  then show "x \<in> set (fold message_modifiers (convert_modifiers prev now) held) \<longleftrightarrow> x \<in> held_codes now"
    using held_codes_iff [of x prev] held
    by cases (simp_all add: convert_modifiers_def emit_held held_codes_iff)
qed

lemma pointer_messages:
  "message_modifiers (convert_cursor_moved pos) held = held"
  "convert_mouse_button button pressed = Some m \<Longrightarrow> message_modifiers m held = held"
  "fold message_modifiers (convert_mouse_wheel delta) held = held"
  by (auto simp: convert_cursor_moved_def convert_mouse_button_def axis_message_def)
    (cases delta; simp add: axis_message_def)

text \<open>A key event brackets its key with Shift if it must, and leaves the modifiers as they were.\<close>

lemma convert_keyboard_shape:
  "convert_keyboard event shift = []
   \<or> (\<exists>k. modifier_bit k = None \<and> convert_keyboard event shift = [key_message k (ki_pressed event)])
   \<or> (\<exists>k. modifier_bit k = None \<and> convert_keyboard event shift
        = [key_message KEY_LEFTSHIFT_client (\<not> shift), key_message k True, key_message KEY_LEFTSHIFT_client shift])"
proof (cases "\<exists>code k. ki_physical_key event = Some code \<and> \<not> is_modifier_key code \<and> code \<noteq> ''CapsLock'' \<and> keycode_to_evdev code = Some k")
  case True
  then obtain code k where k: "ki_physical_key event = Some code" "\<not> is_modifier_key code" "code \<noteq> ''CapsLock''"
    "keycode_to_evdev code = Some k" by blast
  have "convert_keyboard event shift = [key_message k (ki_pressed event)] \<or> convert_keyboard event shift
      = [key_message KEY_LEFTSHIFT_client (\<not> shift), key_message k True, key_message KEY_LEFTSHIFT_client shift]"
    by (auto simp: convert_keyboard_def Let_def k split: option.split list.split)
  with plain_key [OF k(4,2)] show ?thesis by blast
next
  case False
  then have "convert_keyboard event shift = []" by (auto simp: convert_keyboard_def split: option.split)
  then show ?thesis by simp
qed

lemma convert_keyboard_held:
  assumes "set held = held_codes m"
  shows "set (fold message_modifiers (convert_keyboard event (ms_shift m)) held) = held_codes m"
proof -
  have plain: "modifier_bit k = None \<Longrightarrow> modifier_on_key k pr h = h" for k pr h by (simp add: modifier_on_key_def)
  have shift: "KEY_LEFTSHIFT_client \<in> held_codes m \<longleftrightarrow> ms_shift m" by (simp add: held_codes_iff)
  from convert_keyboard_shape [of event "ms_shift m"] show ?thesis
    by (elim disjE exE conjE) (use assms shift in \<open>auto simp: plain set_modifier_on_key\<close>)
qed

definition queued_inputs :: "app_out list \<Rightarrow> input_message list" where
  "queued_inputs outs = List.map_filter (\<lambda>out. case out of QueueInput m \<Rightarrow> Some m | _ \<Rightarrow> None) outs"

lemma queued_inputs_simps [simp]:
  "queued_inputs [] = []" "queued_inputs (QueueInput m # outs) = m # queued_inputs outs"
  "queued_inputs (GainedFocus # outs) = queued_inputs outs" "queued_inputs (ExitProcess # outs) = queued_inputs outs"
  "queued_inputs (map QueueInput ms) = ms"
  by (simp_all add: queued_inputs_def List.map_filter_simps) (induction ms; simp add: List.map_filter_simps)

lemma queued_inputs_append: "queued_inputs (xs @ ys) = queued_inputs xs @ queued_inputs ys"
  by (simp add: queued_inputs_def List.map_filter_def)

lemma window_event_held:
  assumes "set held = held_codes (ap_modifiers ap)"
  shows "set (fold message_modifiers (queued_inputs (snd (window_event_handler e ap))) held)
       = held_codes (ap_modifiers (fst (window_event_handler e ap)))"
proof (cases e)
  case (KeyboardInput ev)
  then show ?thesis using convert_keyboard_held [OF assms] by simp
next
  case (ModifiersChanged m)
  then show ?thesis using convert_modifiers_held [OF assms] by simp
next
  case (MouseInput button pressed)
  then show ?thesis using assms pointer_messages(2) [of button pressed _ held] by (simp split: option.split)
qed (use assms in \<open>simp_all add: pointer_messages\<close>)

lemma window_events_held:
  "set held = held_codes (ap_modifiers ap) \<Longrightarrow>
     set (fold message_modifiers (queued_inputs (snd (window_events es ap))) held)
       = held_codes (ap_modifiers (fst (window_events es ap)))"
proof (induction es arbitrary: ap held)
  case (Cons e es)
  note step = window_event_held [OF Cons.prems, of e]
  from Cons.IH [OF step] step show ?case
    by (simp add: split_beta queued_inputs_append Let_def)
qed simp

text \<open>
  C30.  No modifier sticks.  Whatever the user does in the viewer's window, keys, modifiers, pointer and
  wheel in any order, the modifiers the compositor holds after the queued input are exactly those of
  the client's last \<open>ModifiersChanged\<close>, if they were so before; key bindings that consume a key do
  not disturb this.
\<close>
theorem modifiers_in_sync:
  assumes "window_events es ap = (ap1, outs)" "set (cp_modifiers c) = held_codes (ap_modifiers ap)"
  shows "set (cp_modifiers (fst (inject_all hit (queued_inputs outs) c))) = held_codes (ap_modifiers ap1)"
  using window_events_held [OF assms(2), of es] by (simp add: inject_all_modifiers assms(1))

definition fresh_compositor :: compositor where
  "fresh_compositor = compositor_new ''wayray-0'' (1024, 768)"

definition no_modifiers :: modifiers_state where
  "no_modifiers = \<lparr> ms_shift = False, ms_control = False, ms_alt = False, ms_super = False \<rparr>"

definition caps_letter :: key_input where
  "caps_letter = \<lparr> ki_physical_key = Some ''KeyA'', ki_pressed = True, ki_text = Some [65] \<rparr>"

lemma caps_letter_code: "keycode_to_evdev ''KeyA'' = Some 30"
  by (simp add: keycode_to_evdev_def evdev_table_def)

theorem modifiers_in_sync_witness:
  "let (ap1, outs) = window_events [ModifiersChanged (no_modifiers\<lparr> ms_shift := True \<rparr>), KeyboardInput caps_letter,
         ModifiersChanged (no_modifiers\<lparr> ms_super := True \<rparr>)] app_new
   in set (cp_modifiers (fst (inject_all (\<lambda>_ _. None) (queued_inputs outs) fresh_compositor))) = held_codes (ap_modifiers ap1)
    \<and> ms_super (ap_modifiers ap1)"
proof -
  let ?es = "[ModifiersChanged (no_modifiers\<lparr> ms_shift := True \<rparr>), KeyboardInput caps_letter,
         ModifiersChanged (no_modifiers\<lparr> ms_super := True \<rparr>)]"
  obtain ap1 outs where run: "window_events ?es app_new = (ap1, outs)" by fastforce
  have "cp_modifiers fresh_compositor = []"
    by (simp add: fresh_compositor_def compositor_new_def)
  then have "set (cp_modifiers fresh_compositor) = held_codes (ap_modifiers app_new)"
    by (simp add: held_codes_def app_new_def)
  note synced = modifiers_in_sync [OF run this]
  have "ms_super (ap_modifiers ap1)"
    using arg_cong [OF run, of "\<lambda>r. ms_super (ap_modifiers (fst r))"]
    by (simp add: split_beta Let_def image_iff)
  with synced run show ?thesis by simp
qed

text \<open>
  The letter that was typed.  A press of a letter key is injected while the compositor holds Shift
  exactly if the text winit resolved is upper case, also when the client's caps lock is on, which the
  compositor does not know of; and Shift is afterwards what it physically is.
\<close>
theorem typed_case:
  assumes "ki_physical_key event = Some code" "keycode_to_evdev code = Some k" "\<not> is_modifier_key code" "code \<noteq> ''CapsLock''"
    and "ki_pressed event" "ki_text event = Some [ch]" "is_ascii_alphabetic ch"
    and "set (cp_modifiers c) = held_codes m"
  shows "\<exists>before after. convert_keyboard event (ms_shift m) = before @ key_message k True # after
    \<and> (KEY_LEFTSHIFT_client \<in> set (cp_modifiers (fst (inject_all hit before c))) \<longleftrightarrow> is_ascii_uppercase ch)
    \<and> set (cp_modifiers (fst (inject_all hit (convert_keyboard event (ms_shift m)) c))) = held_codes m"
proof -
  have held: "KEY_LEFTSHIFT_client \<in> held_codes m \<longleftrightarrow> ms_shift m" by (simp add: held_codes_iff)
  have rest: "set (cp_modifiers (fst (inject_all hit (convert_keyboard event (ms_shift m)) c))) = held_codes m"
    using convert_keyboard_held [OF assms(8)] by (simp add: inject_all_modifiers)
  show ?thesis
  proof (cases "is_ascii_uppercase ch = ms_shift m")
    case True
    then have "convert_keyboard event (ms_shift m) = [] @ key_message k True # []"
      using assms by (simp add: convert_keyboard_def Let_def)
    moreover have "KEY_LEFTSHIFT_client \<in> set (cp_modifiers (fst (inject_all hit [] c))) \<longleftrightarrow> is_ascii_uppercase ch"
      using True held assms(8) by simp
    ultimately show ?thesis using rest by blast
  next
    case False
    let ?before = "[key_message KEY_LEFTSHIFT_client (is_ascii_uppercase ch)]"
    have "convert_keyboard event (ms_shift m) = ?before @ key_message k True # [key_message KEY_LEFTSHIFT_client (ms_shift m)]"
      using False assms by (simp add: convert_keyboard_def Let_def)
    moreover have "KEY_LEFTSHIFT_client \<in> set (cp_modifiers (fst (inject_all hit ?before c))) \<longleftrightarrow> is_ascii_uppercase ch"
      by (simp add: inject_all_modifiers set_modifier_on_key del: inject_all.simps)
    ultimately show ?thesis using rest by blast
  qed
qed

theorem typed_case_witness:
  "\<exists>before after. convert_keyboard caps_letter False = before @ key_message 30 True # after
    \<and> KEY_LEFTSHIFT_client \<in> set (cp_modifiers (fst (inject_all (\<lambda>_ _. None) before fresh_compositor)))"
proof -
  have empty: "cp_modifiers fresh_compositor = []"
    by (simp add: fresh_compositor_def compositor_new_def)
  have "ki_physical_key caps_letter = Some ''KeyA''" "\<not> is_modifier_key ''KeyA''" "''KeyA'' \<noteq> ''CapsLock''"
    "ki_pressed caps_letter" "ki_text caps_letter = Some [65]" "is_ascii_alphabetic 65" "is_ascii_uppercase 65"
    "set (cp_modifiers fresh_compositor) = held_codes no_modifiers"
    by (simp_all add: caps_letter_def is_modifier_key_def is_ascii_alphabetic_def is_ascii_uppercase_def empty
        held_codes_def no_modifiers_def)
  from typed_case [OF this(1) caps_letter_code this(2-6,8), of "\<lambda>_ _. None"] this(7)
  show ?thesis by (auto simp: no_modifiers_def)
qed

end
