(* ===== verification/Window.thy ===== *)
theory Window
  imports Reconnect ClientInput Frames
begin

text \<open>
  The viewer's window (\<open>crates/wrclient/src/display.rs\<close>, \<open>App\<close> in \<open>main.rs\<close>): the frame texture, its upload and
  presentation, the fullscreen shader, and the pointer.  wgpu is a texture, a surface with a size, and
  what acquiring the next surface texture returns; the rasteriser interpolates over the triangle.
  The window shows the last frame as long as its size is that of the first connection, and the
  pointer is where the user sees it as long as the window has the size of the session.
\<close>

subsection \<open>The display\<close>

record display =
  dp_width :: u32
  dp_height :: u32
  dp_texture :: bytes
  dp_surface :: "u32 \<times> u32"

text \<open>\<open>Display::new\<close>: a texture of the session's size, zeroed, and a surface of the window's.\<close>

definition display_new :: "u32 \<times> u32 \<Rightarrow> u32 \<Rightarrow> u32 \<Rightarrow> display" where
  "display_new inner_size width height =
     \<lparr> dp_width = width, dp_height = height, dp_texture = replicate (unat width * unat height * 4) 0,
       dp_surface = (max (fst inner_size) 1, max (snd inner_size) 1) \<rparr>"

text \<open>\<open>update_frame\<close>: \<open>(self.width * self.height * 4) as usize\<close>, in 32 bits; far beyond the largest texture it would wrap.\<close>

definition expected_bytes :: "display \<Rightarrow> nat" where
  "expected_bytes d = unat (dp_width d * dp_height d * 4)"

definition update_frame :: "bytes \<Rightarrow> display \<Rightarrow> display" where
  "update_frame pixel_data d =
     (if length pixel_data \<noteq> expected_bytes d then d else d\<lparr> dp_texture := pixel_data \<rparr>)"

datatype surface_error = SurfaceTimeout | SurfaceOutdated | SurfaceLost | SurfaceOutOfMemory | SurfaceOther

text \<open>\<open>render\<close>: what is presented, a texture stretched over a surface.\<close>

definition render :: "surface_error option \<Rightarrow> display \<Rightarrow> surface_error + (bytes \<times> (u32 \<times> u32))" where
  "render acquired d =
     (case acquired of
        None \<Rightarrow> Inr (dp_texture d, dp_surface d)
      | Some e \<Rightarrow> Inl (if e = SurfaceLost \<or> e = SurfaceOutdated then SurfaceLost else e))"

definition display_resize :: "u32 \<times> u32 \<Rightarrow> display \<Rightarrow> display" where
  "display_resize new_size d =
     (if fst new_size > 0 \<and> snd new_size > 0 then d\<lparr> dp_surface := new_size \<rparr> else d)"

subsection \<open>The application\<close>

text \<open>The window and its display are created together; \<open>vp_frames\<close> is the channel from the network thread.\<close>

record view_port =
  vp_width :: u32
  vp_height :: u32
  vp_display :: "display option"
  vp_frames :: "bytes list"

datatype view_out =
    Present bytes "u32 \<times> u32"
  | RequestRedraw
  | ExitEventLoop

definition view_port_new :: "u32 \<Rightarrow> u32 \<Rightarrow> view_port" where
  "view_port_new width height = \<lparr> vp_width = width, vp_height = height, vp_display = None, vp_frames = [] \<rparr>"

definition resumed :: "u32 \<times> u32 \<Rightarrow> view_port \<Rightarrow> view_port \<times> view_out list" where
  "resumed inner_size vp =
     (if vp_display vp \<noteq> None then (vp, [])
      else (vp\<lparr> vp_display := Some (display_new inner_size (vp_width vp) (vp_height vp)) \<rparr>, [RequestRedraw]))"

definition drain_frames :: "view_port \<Rightarrow> view_port \<times> bool" where
  "drain_frames vp =
     (case vp_display vp of
        None \<Rightarrow> (vp\<lparr> vp_frames := [] \<rparr>, False)
      | Some d \<Rightarrow> (vp\<lparr> vp_display := Some (fold update_frame (vp_frames vp) d), vp_frames := [] \<rparr>, vp_frames vp \<noteq> []))"

definition present :: "surface_error option \<Rightarrow> view_port \<Rightarrow> view_out list" where
  "present acquired vp =
     (case vp_display vp of
        None \<Rightarrow> []
      | Some d \<Rightarrow>
          (case render acquired d of
             Inr (texture, surface) \<Rightarrow> [Present texture surface]
           | Inl e \<Rightarrow> if e = SurfaceOutOfMemory then [ExitEventLoop] else [RequestRedraw]))"

definition user_event :: "view_port \<Rightarrow> view_port" where
  "user_event vp = fst (drain_frames vp)"

definition redraw_requested :: "surface_error option \<Rightarrow> view_port \<Rightarrow> view_port \<times> view_out list" where
  "redraw_requested acquired vp =
     (let (vp1, got) = drain_frames vp
      in (vp1, present acquired vp1 @ (if vp_display vp1 \<noteq> None then [RequestRedraw] else [])))"

definition window_resized :: "u32 \<times> u32 \<Rightarrow> view_port \<Rightarrow> view_port" where
  "window_resized new_size vp = vp\<lparr> vp_display := map_option (display_resize new_size) (vp_display vp) \<rparr>"

subsection \<open>The shader\<close>

text \<open>\<open>vs_main\<close>: the corners of the triangle and their texture coordinates.\<close>

definition vs_positions :: "(rat \<times> rat) list" where "vs_positions = [(-1, -1), (3, -1), (-1, 3)]"
definition vs_uvs :: "(rat \<times> rat) list" where "vs_uvs = [(0, 1), (2, 1), (0, -1)]"

text \<open>The interpolation of the rasteriser: the barycentric coordinates of a point in a triangle.\<close>

definition cross :: "rat \<times> rat \<Rightarrow> rat \<times> rat \<Rightarrow> rat \<times> rat \<Rightarrow> rat" where
  "cross a b p = (fst b - fst a) * (snd p - snd a) - (snd b - snd a) * (fst p - fst a)"

definition barycentric :: "(rat \<times> rat) list \<Rightarrow> rat \<times> rat \<Rightarrow> rat list" where
  "barycentric tri p =
     (let area = cross (tri ! 0) (tri ! 1) (tri ! 2)
      in [cross (tri ! 1) (tri ! 2) p / area, cross (tri ! 2) (tri ! 0) p / area, cross (tri ! 0) (tri ! 1) p / area])"

definition interpolate :: "rat list \<Rightarrow> (rat \<times> rat) list \<Rightarrow> rat \<times> rat" where
  "interpolate ws vs = (sum_list (map2 (\<lambda>w v. w * fst v) ws vs), sum_list (map2 (\<lambda>w v. w * snd v) ws vs))"

text \<open>The clip-space point of a window position: x from left to right, y from bottom to top.\<close>

definition clip_point :: "u32 \<times> u32 \<Rightarrow> f64 \<times> f64 \<Rightarrow> rat \<times> rat" where
  "clip_point surface pos =
     (2 * fst pos / rat_of_nat (unat (fst surface)) - 1, 1 - 2 * snd pos / rat_of_nat (unat (snd surface)))"

text \<open>\<open>fs_main\<close>: the point of the session's picture that is sampled for a window position.\<close>

definition sampled_point :: "display \<Rightarrow> f64 \<times> f64 \<Rightarrow> f64 \<times> f64" where
  "sampled_point d pos =
     (let uv = interpolate (barycentric vs_positions (clip_point (dp_surface d) pos)) vs_uvs
      in (fst uv * rat_of_nat (unat (dp_width d)), snd uv * rat_of_nat (unat (dp_height d))))"

subsection \<open>What the window shows\<close>

definition shown_pixels :: "viewer_out list \<Rightarrow> bytes list" where
  "shown_pixels outs = List.map_filter (\<lambda>out. case out of ShowPixels px \<Rightarrow> Some px | _ \<Rightarrow> None) outs"

lemma shown_simps [simp]:
  "shown_pixels [] = []" "shown_pixels (ShowPixels px # outs) = px # shown_pixels outs"
  "shown_pixels (SendInput m # outs) = shown_pixels outs" "shown_pixels (SendToServer c # outs) = shown_pixels outs"
  "shown_pixels (SetOsText t # outs) = shown_pixels outs" "shown_pixels (map SendInput ms) = []"
  by (simp_all add: shown_pixels_def List.map_filter_simps) (induction ms; simp add: List.map_filter_simps)

lemma shown_append [simp]: "shown_pixels (xs @ ys) = shown_pixels xs @ shown_pixels ys"
  by (simp add: shown_pixels_def List.map_filter_def)

lemma viewer_control_quiet:
  "viewer_control m vw = (vw1, outs) \<Longrightarrow> shown_pixels outs = [] \<and> vw_framebuffer vw1 = vw_framebuffer vw"
  by (auto simp: viewer_control_def split: control_message.splits prod.splits option.splits)

lemma viewer_controls_quiet:
  "viewer_controls ms vw = (vw1, outs) \<Longrightarrow> shown_pixels outs = [] \<and> vw_framebuffer vw1 = vw_framebuffer vw"
proof (induction ms arbitrary: vw vw1 outs)
  case (Cons m ms)
  obtain vw2 outs2 where 1: "viewer_control m vw = (vw2, outs2)" by fastforce
  obtain vw3 outs3 where 2: "viewer_controls ms vw2 = (vw3, outs3)" by fastforce
  show ?case using viewer_control_quiet [OF 1] Cons.IH [OF 2] Cons.prems by (auto simp: 1 2)
qed simp

text \<open>
  Every picture shown has the length of the framebuffer, and while the session goes on the last one
  is the framebuffer.
\<close>

definition shows_framebuffer :: "viewer \<Rightarrow> viewer \<Rightarrow> viewer_out list \<Rightarrow> session_end option \<Rightarrow> bool" where
  "shows_framebuffer vw vw1 outs e \<longleftrightarrow> length (vw_framebuffer vw1) = length (vw_framebuffer vw)
     \<and> (\<forall>px\<in>set (shown_pixels outs). length px = length (vw_framebuffer vw))
     \<and> (e = None \<longrightarrow> vw_framebuffer vw1 = (if shown_pixels outs = [] then vw_framebuffer vw else last (shown_pixels outs)))"

lemma receive_frame_shows:
  "receive_frame zdec up rend f vw = Some (vw1, outs, e) \<Longrightarrow> shows_framebuffer vw vw1 outs e"
  using apply_regions_length [of zdec "vw_framebuffer vw" "vw_stride vw" "fu_regions f"]
  by (auto simp: receive_frame_def shows_framebuffer_def Let_def split: option.splits if_splits)

lemma session_turn_shows:
  assumes "session_turn zdec t vw = Some (vw1, outs, e)"
  shows "shows_framebuffer vw vw1 outs e"
proof (cases "tn_inputs t \<noteq> [] \<and> \<not> tn_up t")
  case True
  then show ?thesis using assms by (auto simp: session_turn_def shows_framebuffer_def)
next
  case False
  obtain vw2 outs2 where c: "viewer_controls (tn_controls t) vw = (vw2, outs2)" by fastforce
  obtain vw3 clip where f: "focus_capture t vw2 = (vw3, clip)" by fastforce
  have q: "shown_pixels outs2 = []" "vw_framebuffer vw3 = vw_framebuffer vw"
    using viewer_controls_quiet [OF c] f by (auto simp: focus_capture_def split: if_splits prod.splits)
  have "shown_pixels (case clip of None \<Rightarrow> [] | Some c \<Rightarrow> [SendToServer (ClipboardData c)]) = []" by (cases clip) simp_all
  then show ?thesis using assms False q receive_frame_shows [of zdec "tn_up t" "tn_render t" _ vw3]
    by (fastforce simp: session_turn_def c f shows_framebuffer_def Let_def
        split: if_splits frame_arrival.splits option.splits prod.splits)
qed

lemma session_loop_shows:
  "run_session_loop zdec ts vw = Some (vw1, outs, e) \<Longrightarrow> shows_framebuffer vw vw1 outs e"
proof (induction ts arbitrary: vw vw1 outs e)
  case Nil
  then show ?case by (simp add: shows_framebuffer_def)
next
  case (Cons t ts)
  obtain vw2 outs2 e2 where t: "session_turn zdec t vw = Some (vw2, outs2, e2)"
    using Cons.prems by (cases "session_turn zdec t vw") auto
  note st = session_turn_shows [OF t]
  show ?case
  proof (cases e2)
    case (Some x)
    then show ?thesis using Cons.prems st by (auto simp: t)
  next
    case None
    then obtain outs3 where "run_session_loop zdec ts vw2 = Some (vw1, outs3, e)" "outs = outs2 @ outs3"
      using Cons.prems by (auto simp: t split: option.splits)
    then show ?thesis using Cons.IH [of vw2 vw1 outs3 e] st None by (auto simp: shows_framebuffer_def)
  qed
qed

subsection \<open>The window and the network thread\<close>

text \<open>What happens to the window while frames come in, in any order.\<close>

datatype view_op = FrameQueued bytes | Woken | Redraw "surface_error option" | ResizeTo "u32 \<times> u32"

fun view_step :: "view_op \<Rightarrow> view_port \<Rightarrow> view_port \<times> view_out list" where
  "view_step (FrameQueued px) vp = (vp\<lparr> vp_frames := vp_frames vp @ [px] \<rparr>, [])"
| "view_step Woken vp = (user_event vp, [])"
| "view_step (Redraw acquired) vp = redraw_requested acquired vp"
| "view_step (ResizeTo sz) vp = (window_resized sz vp, [])"

fun view_run :: "view_op list \<Rightarrow> view_port \<Rightarrow> view_port \<times> view_out list" where
  "view_run [] vp = (vp, [])"
| "view_run (op # ops) vp =
     (let (vp1, outs1) = view_step op vp; (vp2, outs2) = view_run ops vp1 in (vp2, outs1 @ outs2))"

fun frames_queued :: "view_op list \<Rightarrow> bytes list" where
  "frames_queued [] = []"
| "frames_queued (FrameQueued px # ops) = px # frames_queued ops"
| "frames_queued (_ # ops) = frames_queued ops"

text \<open>The texture once the channel is drained.\<close>

definition due_texture :: "view_port \<Rightarrow> bytes option" where
  "due_texture vp = map_option (\<lambda>d. dp_texture (fold update_frame (vp_frames vp) d)) (vp_display vp)"

text \<open>The texture and the expected length do not depend on the surface.\<close>

definition same_frame :: "display \<Rightarrow> display \<Rightarrow> bool" where
  "same_frame d d1 \<longleftrightarrow> dp_texture d1 = dp_texture d \<and> expected_bytes d1 = expected_bytes d"

lemma update_expected [simp]: "expected_bytes (update_frame px d) = expected_bytes d"
  by (simp add: update_frame_def expected_bytes_def)

lemma fold_update_expected [simp]: "expected_bytes (fold update_frame fs d) = expected_bytes d"
  by (induction fs arbitrary: d) simp_all

lemma fold_update_same: "same_frame d d1 \<Longrightarrow> same_frame (fold update_frame fs d) (fold update_frame fs d1)"
proof (induction fs arbitrary: d d1)
  case (Cons px fs)
  have "same_frame (update_frame px d) (update_frame px d1)"
    using Cons.prems by (simp add: same_frame_def) (simp add: update_frame_def)
  then show ?case by (simp add: Cons.IH)
qed simp

lemma resize_same: "same_frame d (display_resize sz d)"
  by (simp add: same_frame_def display_resize_def expected_bytes_def)

text \<open>A view port whose display expects \<open>n\<close> bytes and is due to show \<open>t\<close>.\<close>

definition view_due :: "nat \<Rightarrow> bytes \<Rightarrow> view_port \<Rightarrow> bool" where
  "view_due n t vp \<longleftrightarrow> (\<exists>d. vp_display vp = Some d \<and> expected_bytes d = n \<and> due_texture vp = Some t)"

lemma drain_due: "view_due n t vp \<Longrightarrow> drain_frames vp = (vp1, got) \<Longrightarrow>
   view_due n t vp1 \<and> vp_frames vp1 = [] \<and> (\<exists>d. vp_display vp1 = Some d \<and> dp_texture d = t)"
  by (auto simp: view_due_def due_texture_def drain_frames_def)

lemma redraw_due:
  assumes "view_due n t vp" "redraw_requested acquired vp = (vp1, outs)"
  shows "view_due n t vp1" "Present texture surface \<in> set outs \<Longrightarrow> texture = t"
    "acquired = None \<Longrightarrow> \<exists>surface. outs = [Present t surface, RequestRedraw]"
proof -
  obtain vp2 got where d: "drain_frames vp = (vp2, got)" by fastforce
  note f = drain_due [OF assms(1) d]
  show "view_due n t vp1" "Present texture surface \<in> set outs \<Longrightarrow> texture = t"
    "acquired = None \<Longrightarrow> \<exists>surface. outs = [Present t surface, RequestRedraw]"
    using f assms(2) by (auto simp: redraw_requested_def d present_def render_def split: option.splits if_splits)
qed

lemma view_step_due:
  assumes "view_due n t vp" "view_step op vp = (vp1, outs)"
  shows "view_due n (case op of FrameQueued px \<Rightarrow> if length px = n then px else t | _ \<Rightarrow> t) vp1"
    and "Present texture surface \<in> set outs \<Longrightarrow> texture = t"
proof -
  have "view_due n (case op of FrameQueued px \<Rightarrow> if length px = n then px else t | _ \<Rightarrow> t) vp1
    \<and> (Present texture surface \<in> set outs \<longrightarrow> texture = t)"
  proof (cases op)
    case (FrameQueued px)
    obtain d where d: "vp_display vp = Some d" "expected_bytes d = n" "dp_texture (fold update_frame (vp_frames vp) d) = t"
      using assms(1) by (auto simp: view_due_def due_texture_def)
    moreover have "expected_bytes (fold update_frame (vp_frames vp) d) = n" by (simp add: d(2))
    ultimately show ?thesis
      using assms(2) by (auto simp: FrameQueued view_due_def due_texture_def update_frame_def)
  next
    case Woken
    obtain vp2 got where d: "drain_frames vp = (vp2, got)" by fastforce
    show ?thesis using drain_due [OF assms(1) d] assms(2) by (auto simp: Woken user_event_def d)
  next
    case (Redraw acquired)
    then show ?thesis using redraw_due [OF assms(1), of acquired vp1 outs] assms(2) by auto
  next
    case (ResizeTo sz)
    obtain d where "vp_display vp = Some d" "expected_bytes d = n" "dp_texture (fold update_frame (vp_frames vp) d) = t"
      using assms(1) by (auto simp: view_due_def due_texture_def)
    then show ?thesis
      using assms(2) fold_update_same [OF resize_same, of "vp_frames vp" d sz] resize_same [of d sz]
      by (auto simp: ResizeTo window_resized_def view_due_def due_texture_def same_frame_def)
  qed
  then show "view_due n (case op of FrameQueued px \<Rightarrow> if length px = n then px else t | _ \<Rightarrow> t) vp1"
    "Present texture surface \<in> set outs \<Longrightarrow> texture = t" by blast+
qed

text \<open>Frames that all have the expected length, and frames that all have another one.\<close>

lemma view_run_due:
  "view_due n t vp \<Longrightarrow> view_run ops vp = (vp1, outs) \<Longrightarrow> \<forall>px\<in>set (frames_queued ops). length px = n \<Longrightarrow>
     view_due n (last (t # frames_queued ops)) vp1"
proof (induction ops arbitrary: t vp vp1 outs)
  case (Cons op ops)
  obtain vp2 outs2 where s: "view_step op vp = (vp2, outs2)" by fastforce
  obtain outs3 where r: "view_run ops vp2 = (vp1, outs3)" using Cons.prems(2) s by (auto split: prod.splits)
  show ?case using Cons.IH [OF view_step_due(1) [OF Cons.prems(1) s] r] Cons.prems(3) by (cases op) auto
qed simp

lemma view_run_stuck:
  "view_due n t vp \<Longrightarrow> view_run ops vp = (vp1, outs) \<Longrightarrow> \<forall>px\<in>set (frames_queued ops). length px \<noteq> n \<Longrightarrow>
     view_due n t vp1 \<and> (\<forall>texture surface. Present texture surface \<in> set outs \<longrightarrow> texture = t)"
proof (induction ops arbitrary: vp vp1 outs)
  case (Cons op ops)
  obtain vp2 outs2 where s: "view_step op vp = (vp2, outs2)" by fastforce
  obtain outs3 where r: "view_run ops vp2 = (vp1, outs3)" "outs = outs2 @ outs3"
    using Cons.prems(2) s by (auto split: prod.splits)
  have "view_due n t vp2" using view_step_due(1) [OF Cons.prems(1) s] Cons.prems(3) by (cases op) auto
  then show ?case using Cons.IH [OF _ r(1)] view_step_due(2) [OF Cons.prems(1) s] Cons.prems(3) r(2) by (cases op) auto
qed simp

text \<open>
  C2.  The window shows the framebuffer.  While a session of the size of the window's texture goes on, in
  whatever pieces its pictures reach the main thread between wake-ups, redraws, failures of the
  surface and resizes of the window: the next redraw that gets a surface presents, byte for byte, the
  framebuffer of the session, or what was there before if nothing was received yet.
\<close>
theorem window_shows_framebuffer:
  assumes "run_session_loop zdec ts (viewer_start hello lc) = Some (vw, souts, None)"
    and "vp_display vp = Some d" "vp_frames vp = []"
    and "expected_bytes d = unat (sh_output_width hello) * 4 * unat (sh_output_height hello)"
    and "view_run ops vp = (vp1, outs)" "frames_queued ops = shown_pixels souts"
  shows "\<exists>vp2 surface. redraw_requested None vp1 =
     (vp2, [Present (if shown_pixels souts = [] then dp_texture d else vw_framebuffer vw) surface, RequestRedraw])"
proof -
  let ?n = "expected_bytes d"
  have due: "view_due ?n (dp_texture d) vp" using assms(2,3) by (simp add: view_due_def due_texture_def)
  have s: "shows_framebuffer (viewer_start hello lc) vw souts None" by (rule session_loop_shows [OF assms(1)])
  then have "\<forall>px\<in>set (frames_queued ops). length px = ?n"
    by (simp add: assms(4,6) shows_framebuffer_def viewer_start_def Let_def)
  from view_run_due [OF due assms(5) this]
  have "view_due ?n (if shown_pixels souts = [] then dp_texture d else vw_framebuffer vw) vp1"
    using s by (simp add: assms(6) shows_framebuffer_def split: if_splits)
  then show ?thesis using redraw_due(3) [of ?n _ vp1 None] by (metis prod.collapse)
qed

fun session_outs :: "thread_out list \<Rightarrow> viewer_out list" where
  "session_outs [] = []"
| "session_outs (InSession out # outs) = out # session_outs outs"
| "session_outs (_ # outs) = session_outs outs"

lemma session_outs_append [simp]: "session_outs (xs @ ys) = session_outs xs @ session_outs ys"
  by (induction xs rule: session_outs.induct) simp_all

lemma session_outs_map [simp]: "session_outs (map InSession vs) = vs"
  by (induction vs) simp_all

lemma connected_round_shown:
  assumes "connected_round zdec a hello st = (st1, outs, e)" "px \<in> set (shown_pixels (session_outs outs))"
  shows "length px = unat (sh_output_width hello) * 4 * unat (sh_output_height hello)"
proof -
  obtain lc ts vw souts e2 where "run_session_loop zdec ts (viewer_start hello lc) = Some (vw, souts, e2)"
    "session_outs outs = souts"
    using assms by (auto simp: connected_round_def Let_def split: if_splits option.splits session_end.splits)
  then show ?thesis using session_loop_shows assms(2)
    by (fastforce simp: shows_framebuffer_def viewer_start_def Let_def)
qed

text \<open>
  C33.  A server of another size freezes the window.  The window takes its size from the first connection.
  When a later one, after a redirect or a restart, has an output of another number of pixels, every
  picture of that session is dropped: whatever happens, the window goes on presenting the last picture
  before it.
\<close>
theorem other_size_freezes:
  assumes "connected_round zdec a hello st = (st1, touts, e)"
    and "vp_display vp = Some d" "vp_frames vp = []"
    and "expected_bytes d \<noteq> unat (sh_output_width hello) * 4 * unat (sh_output_height hello)"
    and "view_run ops vp = (vp1, outs)" "frames_queued ops = shown_pixels (session_outs touts)"
    and "Present texture surface \<in> set outs"
  shows "texture = dp_texture d"
proof -
  have due: "view_due (expected_bytes d) (dp_texture d) vp" using assms(2,3) by (simp add: view_due_def due_texture_def)
  have "\<forall>px\<in>set (frames_queued ops). length px \<noteq> expected_bytes d"
    using connected_round_shown [OF assms(1)] assms(4) by (auto simp: assms(6))
  from view_run_stuck [OF due assms(5) this] assms(7) show ?thesis by blast
qed

subsection \<open>The pointer\<close>

lemma sampled_point_scales:
  "sampled_point d pos = (fst pos * rat_of_nat (unat (dp_width d)) / rat_of_nat (unat (fst (dp_surface d))),
                          snd pos * rat_of_nat (unat (dp_height d)) / rat_of_nat (unat (snd (dp_surface d))))"
  by (simp add: sampled_point_def interpolate_def barycentric_def cross_def clip_point_def vs_positions_def vs_uvs_def
      Let_def field_simps)

definition in_window :: "display \<Rightarrow> f64 \<times> f64 \<Rightarrow> bool" where
  "in_window d pos \<longleftrightarrow> 0 \<le> fst pos \<and> fst pos < rat_of_nat (unat (fst (dp_surface d)))
     \<and> 0 \<le> snd pos \<and> snd pos < rat_of_nat (unat (snd (dp_surface d)))"

text \<open>
  C32.  The pointer is where the user sees it exactly as long as the window has the size of the session.
  The picture is stretched over the window, but the cursor's position is sent as it is: in a window
  that was resized, the compositor's pointer is not at the point of the picture under the cursor.
\<close>
theorem pointer_where_shown:
  assumes "0 < unat (fst (dp_surface d))" "0 < unat (snd (dp_surface d))"
  shows "(\<forall>pos. in_window d pos \<longrightarrow>
            cp_pointer (fst (inject_network_input hit (convert_cursor_moved pos) c)) = sampled_point d pos)
     \<longleftrightarrow> dp_surface d = (dp_width d, dp_height d)"
proof -
  let ?W = "rat_of_nat (unat (fst (dp_surface d)))" and ?H = "rat_of_nat (unat (snd (dp_surface d)))"
  have pos: "0 < ?W" "0 < ?H" "1 \<le> ?W" "1 \<le> ?H" using assms by (simp_all del: of_nat_unat)
  have pointer: "cp_pointer (fst (inject_network_input hit (convert_cursor_moved p) c)) = p" for p
    by (simp add: convert_cursor_moved_def Let_def)
  show ?thesis
  proof
    assume "dp_surface d = (dp_width d, dp_height d)"
    then show "\<forall>p. in_window d p \<longrightarrow>
        cp_pointer (fst (inject_network_input hit (convert_cursor_moved p) c)) = sampled_point d p"
      using pos by (simp add: pointer sampled_point_scales)
  next
    assume all: "\<forall>p. in_window d p \<longrightarrow>
        cp_pointer (fst (inject_network_input hit (convert_cursor_moved p) c)) = sampled_point d p"
    have "in_window d (1/2, 1/2)" using pos by (simp add: in_window_def)
    then have "sampled_point d (1/2, 1/2) = (1/2, 1/2)" using all pointer by metis
    then have "rat_of_nat (unat (dp_width d)) = ?W" "rat_of_nat (unat (dp_height d)) = ?H"
      using pos by (simp_all add: sampled_point_scales field_simps)
    then show "dp_surface d = (dp_width d, dp_height d)"
      by (simp add: prod_eq_iff word_unat_eq_iff del: of_nat_unat)
  qed
qed

text \<open>The witnesses: a viewer of a screen of one pixel, in a window of its size and in a larger one.\<close>

lemma one_pixel:
  "\<exists>f vw souts. run_session_loop Some [frame_turn f] (viewer_start small_hello lc) = Some (vw, souts, None)
     \<and> shown_pixels souts = [[1, 2, 3, 4]] \<and> vw_framebuffer vw = [1, 2, 3, 4]"
proof -
  obtain crc where crc: "checksum [1, 2, 3, 4] 4 4 1 = Some crc"
    using checksum_visible [of "[1, 2, 3, 4]" 1 4 4] by auto
  let ?r = "\<lparr> dr_x = 0, dr_y = 0, dr_width = 1, dr_height = 1, dr_data = [1, 2, 3, 4] \<rparr>"
  let ?f = "\<lparr> fu_sequence = 1, fu_regions = [?r], fu_checksum = crc \<rparr>"
  have "apply_regions Some [0, 0, 0, 0] 4 [?r] = Some [1, 2, 3, 4]"
    by (simp add: apply_region_def bpp_def slice_def write_slice_def)
  moreover have start: "vw_framebuffer (viewer_start small_hello lc) = [0, 0, 0, 0]" "vw_stride (viewer_start small_hello lc) = 4"
    "\<not> vw_keyframe_pending (viewer_start small_hello lc)"
    by (simp_all add: viewer_start_def small_hello_def numeral_eq_Suc)
  moreover have "(viewer_start small_hello lc)\<lparr> vw_framebuffer := fb, vw_keyframe_pending := False \<rparr>
      = (viewer_start small_hello lc)\<lparr> vw_framebuffer := fb \<rparr>" for fb
    by (simp add: viewer_start_def Let_def)
  ultimately have "receive_frame Some True True ?f (viewer_start small_hello lc) =
      Some ((viewer_start small_hello lc)\<lparr> vw_framebuffer := [1, 2, 3, 4] \<rparr>, [ShowPixels [1, 2, 3, 4], SendToServer (FrameAck 1)], None)"
    using crc by (simp add: receive_frame_def Let_def)
  then have "run_session_loop Some [frame_turn ?f] (viewer_start small_hello lc) =
      Some ((viewer_start small_hello lc)\<lparr> vw_framebuffer := [1, 2, 3, 4] \<rparr>,
        [SendToServer (Pong 5), ShowPixels [1, 2, 3, 4], SendToServer (FrameAck 1)], None)"
    by (simp add: frame_turn_def session_turn_def focus_capture_def viewer_control_def)
  moreover have "shown_pixels [SendToServer (Pong 5), ShowPixels [1, 2, 3, 4], SendToServer (FrameAck 1)] = [[1, 2, 3, 4]]"
    "vw_framebuffer ((viewer_start small_hello lc)\<lparr> vw_framebuffer := [1, 2, 3, 4] \<rparr>) = [1, 2, 3, 4]"
    by simp_all
  ultimately show ?thesis by blast
qed

definition pixel_display :: "u32 \<Rightarrow> display" where
  "pixel_display width = display_new (width, 1) width 1"

definition pixel_port :: "u32 \<Rightarrow> view_port" where
  "pixel_port width = fst (resumed (width, 1) (view_port_new width 1))"

theorem window_shows_framebuffer_witness:
  "\<exists>f vw souts vp2 surface.
     run_session_loop Some [frame_turn f] (viewer_start small_hello (clipboard_new False)) = Some (vw, souts, None)
     \<and> redraw_requested None (fst (view_run [FrameQueued [1, 2, 3, 4], ResizeTo (5, 5), Redraw (Some SurfaceLost)] (pixel_port 1)))
       = (vp2, [Present [1, 2, 3, 4] surface, RequestRedraw])"
proof -
  obtain f vw souts where run: "run_session_loop Some [frame_turn f] (viewer_start small_hello (clipboard_new False)) = Some (vw, souts, None)"
    "shown_pixels souts = [[1, 2, 3, 4]]" "vw_framebuffer vw = [1, 2, 3, 4]"
    using one_pixel by blast
  let ?ops = "[FrameQueued [1, 2, 3, 4], ResizeTo (5, 5), Redraw (Some SurfaceLost)]"
  have vp: "vp_display (pixel_port 1) = Some (pixel_display 1)" "vp_frames (pixel_port 1) = []"
    "expected_bytes (pixel_display 1) = unat (sh_output_width small_hello) * 4 * unat (sh_output_height small_hello)"
    by (simp_all add: pixel_port_def pixel_display_def resumed_def view_port_new_def expected_bytes_def display_new_def small_hello_def)
  obtain vp1 outs where v: "view_run ?ops (pixel_port 1) = (vp1, outs)" by fastforce
  from window_shows_framebuffer [OF run(1) vp v] obtain vp2 surface where
    "redraw_requested None vp1 = (vp2, [Present [1, 2, 3, 4] surface, RequestRedraw])"
    using run(2,3) by auto
  then show ?thesis using run(1) v by (metis fst_conv)
qed

theorem other_size_freezes_witness:
  "\<exists>a st1 touts e. connected_round Some a small_hello after_hello = (st1, touts, e)
     \<and> shown_pixels (session_outs touts) = [[1, 2, 3, 4]]
     \<and> (\<forall>texture surface. Present texture surface \<in> set (snd (view_run [FrameQueued [1, 2, 3, 4], Redraw None] (pixel_port 2)))
          \<longrightarrow> texture = replicate 8 0)
     \<and> snd (view_run [FrameQueued [1, 2, 3, 4], Redraw None] (pixel_port 2)) \<noteq> []"
proof -
  obtain f vw souts where run: "run_session_loop Some [frame_turn f] (viewer_start small_hello (nt_clipboard after_hello)) = Some (vw, souts, None)"
    "shown_pixels souts = [[1, 2, 3, 4]]"
    using one_pixel by blast
  let ?a = "(attempt_home (Some [1]))\<lparr> at_display := True, at_turns := [frame_turn f] \<rparr>"
  let ?ops = "[FrameQueued [1, 2, 3, 4], Redraw None]"
  obtain st1 touts e where round: "connected_round Some ?a small_hello after_hello = (st1, touts, e)" "session_outs touts = souts"
    using run by (simp add: connected_round_def attempt_home_def small_hello_def Let_def)
  have vp: "vp_display (pixel_port 2) = Some (pixel_display 2)" "vp_frames (pixel_port 2) = []"
    "expected_bytes (pixel_display 2) \<noteq> unat (sh_output_width small_hello) * 4 * unat (sh_output_height small_hello)"
    "dp_texture (pixel_display 2) = replicate 8 0"
    by (simp_all add: pixel_port_def pixel_display_def resumed_def view_port_new_def expected_bytes_def display_new_def small_hello_def)
  obtain vp1 outs where v: "view_run ?ops (pixel_port 2) = (vp1, outs)" by fastforce
  have outs: "snd (view_run ?ops (pixel_port 2)) = outs" by (simp only: v snd_conv)
  have "frames_queued ?ops = shown_pixels (session_outs touts)" by (simp add: round run)
  from other_size_freezes [OF round(1) vp(1-3) v this] have "\<forall>texture surface. Present texture surface \<in> set outs \<longrightarrow> texture = replicate 8 0"
    using vp(4) by auto
  moreover have "outs \<noteq> []"
    using v by (auto simp: redraw_requested_def drain_frames_def vp(1) split: prod.splits)
  ultimately have "(\<forall>texture surface. Present texture surface \<in> set (snd (view_run ?ops (pixel_port 2))) \<longrightarrow> texture = replicate 8 0)
      \<and> snd (view_run ?ops (pixel_port 2)) \<noteq> []"
    unfolding outs by blast
  then show ?thesis using round run(2) by metis
qed

theorem pointer_where_shown_witness:
  "\<not> (\<forall>pos. in_window (display_resize (4, 4) (pixel_display 1)) pos \<longrightarrow>
        cp_pointer (fst (inject_network_input (\<lambda>s p. None) (convert_cursor_moved pos) fresh_compositor))
          = sampled_point (display_resize (4, 4) (pixel_display 1)) pos)"
  using pointer_where_shown [of "display_resize (4, 4) (pixel_display 1)" "\<lambda>s p. None" fresh_compositor]
  by (simp add: pixel_display_def display_new_def display_resize_def)

end
