(* ===== verification/Winit.thy ===== *)
theory Winit
  imports ClientInput
begin

text \<open>
  The development backend (\<open>backend/winit.rs\<close>, \<open>process_input_event\<close> in \<open>state.rs\<close>): the compositor in a window of
  the local desktop.  smithay's winit backend, from the events of the window to those of the
  compositor, is translated from \<open>vendor/smithay\<close>; GL rendering is what it returns.  The pointer behaves as
  that of a remote viewer; the wheel does not, and neither does the placement of windows.
\<close>

subsection \<open>Axis frames\<close>

datatype axis_source = FingerSource | ContinuousSource | WheelSource | WheelTiltSource

record axis_frame =
  af_source :: "axis_source option"
  af_axis :: "f64 \<times> f64"
  af_v120 :: "(int \<times> int) option"
  af_stop :: "bool \<times> bool"

definition axis_frame_new :: axis_frame where
  "axis_frame_new = \<lparr> af_source = None, af_axis = (0, 0), af_v120 = None, af_stop = (False, False) \<rparr>"

definition frame_value :: "axis \<Rightarrow> f64 \<Rightarrow> axis_frame \<Rightarrow> axis_frame" where
  "frame_value ax v frame =
     frame\<lparr> af_axis := (case ax of Horizontal \<Rightarrow> (fst (af_axis frame) + v, snd (af_axis frame))
                                | Vertical \<Rightarrow> (fst (af_axis frame), snd (af_axis frame) + v)) \<rparr>"

definition frame_v120 :: "axis \<Rightarrow> int \<Rightarrow> axis_frame \<Rightarrow> axis_frame" where
  "frame_v120 ax steps frame =
     (let old = (case af_v120 frame of None \<Rightarrow> (0, 0) | Some p \<Rightarrow> p) in
      frame\<lparr> af_v120 := Some (case ax of Horizontal \<Rightarrow> (steps, snd old) | Vertical \<Rightarrow> (fst old, steps)) \<rparr>)"

definition frame_stop :: "axis \<Rightarrow> axis_frame \<Rightarrow> axis_frame" where
  "frame_stop ax frame =
     frame\<lparr> af_stop := (case ax of Horizontal \<Rightarrow> (True, snd (af_stop frame)) | Vertical \<Rightarrow> (fst (af_stop frame), True)) \<rparr>"

subsection \<open>The events of the backend\<close>

text \<open>\<open>WinitMouseWheelEvent\<close>: what smithay makes of a wheel event.\<close>

fun wheel_source :: "scroll_delta \<Rightarrow> axis_source" where
  "wheel_source (LineDelta x y) = WheelSource"
| "wheel_source (PixelDelta x y) = ContinuousSource"

fun wheel_amount :: "axis \<Rightarrow> scroll_delta \<Rightarrow> f64 option" where
  "wheel_amount Horizontal (PixelDelta x y) = Some (- x)"
| "wheel_amount Vertical (PixelDelta x y) = Some (- y)"
| "wheel_amount _ (LineDelta x y) = None"

fun wheel_amount_v120 :: "axis \<Rightarrow> scroll_delta \<Rightarrow> f64 option" where
  "wheel_amount_v120 Horizontal (LineDelta x y) = Some (- x * 120)"
| "wheel_amount_v120 Vertical (LineDelta x y) = Some (- y * 120)"
| "wheel_amount_v120 _ (PixelDelta x y) = None"

text \<open>Rust's cast from \<open>f64\<close> to \<open>i32\<close>: towards zero, saturating.\<close>

definition f64_as_i32 :: "f64 \<Rightarrow> int" where
  "f64_as_i32 r = max (- (2 ^ 31)) (min (2 ^ 31 - 1) (if 0 \<le> r then \<lfloor>r\<rfloor> else \<lceil>r\<rceil>))"

definition xorg_mouse_to_libinput :: "u32 \<Rightarrow> u32" where
  "xorg_mouse_to_libinput xorg =
     (if xorg = 0 then 0 else if xorg = 1 then 0x110 else if xorg = 2 then 0x112 else if xorg = 3 then 0x111
      else xorg - 8 + 0x113)"

fun local_button_code :: "bool \<Rightarrow> mouse_button \<Rightarrow> u32" where
  "local_button_code x11 LeftButton = 0x110"
| "local_button_code x11 RightButton = 0x111"
| "local_button_code x11 MiddleButton = 0x112"
| "local_button_code x11 ForwardButton = 0x115"
| "local_button_code x11 BackButton = 0x116"
| "local_button_code x11 (OtherButton b) = (if x11 then xorg_mouse_to_libinput (ucast b) else ucast b)"

datatype backend_input =
    LocalKey u32 bool
  | LocalMotion "f64 \<times> f64"
  | LocalButton u32 bool
  | LocalAxis scroll_delta
  | IgnoredInput

text \<open>
  \<open>render_winit_frame\<close> meets: whether binding succeeds, the damage of rendering or its failure, and
  whether submitting succeeds.
\<close>

record redraw =
  rw_bound :: bool
  rw_rendered :: "(int \<times> int \<times> int \<times> int) list option option"
  rw_submitted :: bool

datatype backend_event =
    BackendResized
  | BackendFocus bool
  | BackendInput backend_input
  | BackendRedraw redraw
  | BackendClose

text \<open>The events of the desktop's window; a key comes with its scan code, if it has one.\<close>

datatype desktop_event =
    DesktopKey "u32 option" bool bool bool
  | DesktopCursor "f64 \<times> f64"
  | DesktopButton mouse_button bool
  | DesktopWheel scroll_delta
  | DesktopTouch
  | DesktopResized
  | DesktopRedraw redraw
  | DesktopClose
  | DesktopFocused bool
  | DesktopOther

text \<open>\<open>window_event\<close> of smithay's winit backend; the flags of a key are pressed, synthetic and repeat.\<close>

definition smithay_window_event :: "bool \<Rightarrow> u32 \<times> u32 \<Rightarrow> desktop_event \<Rightarrow> backend_event list" where
  "smithay_window_event x11 inner e =
     (case e of
        DesktopKey scancode pressed synthetic repeated \<Rightarrow>
          if synthetic \<or> repeated then []
          else [BackendInput (LocalKey ((case scancode of None \<Rightarrow> 0 | Some k \<Rightarrow> k) + 8) pressed)]
      | DesktopCursor pos \<Rightarrow>
          [BackendInput (LocalMotion (fst pos / rat_of_nat (unat (fst inner)), snd pos / rat_of_nat (unat (snd inner))))]
      | DesktopButton button pressed \<Rightarrow> [BackendInput (LocalButton (local_button_code x11 button) pressed)]
      | DesktopWheel delta \<Rightarrow> [BackendInput (LocalAxis delta)]
      | DesktopTouch \<Rightarrow> [BackendInput IgnoredInput]
      | DesktopResized \<Rightarrow> [BackendResized]
      | DesktopRedraw rw \<Rightarrow> [BackendRedraw rw]
      | DesktopClose \<Rightarrow> [BackendClose]
      | DesktopFocused gained \<Rightarrow> [BackendFocus gained]
      | DesktopOther \<Rightarrow> [])"

subsection \<open>Input\<close>

datatype local_out =
    ToSeat seat_out
  | SeatAxisFrame axis_frame
  | SubmitFrame "(int \<times> int \<times> int \<times> int) list option"
  | FrameDone win

definition scroll_frame :: "scroll_delta \<Rightarrow> axis_frame" where
  "scroll_frame delta =
     (let amount = (\<lambda>ax. case wheel_amount ax delta of
                           Some v \<Rightarrow> v
                         | None \<Rightarrow> (case wheel_amount_v120 ax delta of None \<Rightarrow> 0 | Some v \<Rightarrow> v) * 3 / 120);
          add = (\<lambda>ax frame. if amount ax = 0 then frame
                           else let frame1 = frame_value ax (amount ax) frame in
                                case wheel_amount_v120 ax delta of
                                  None \<Rightarrow> frame1 | Some v \<Rightarrow> frame_v120 ax (f64_as_i32 v) frame1);
          stop = (\<lambda>ax frame. if amount ax = 0 then frame_stop ax frame else frame);
          frame = add Vertical (add Horizontal (axis_frame_new\<lparr> af_source := Some (wheel_source delta) \<rparr>))
      in if wheel_source delta = FingerSource then stop Vertical (stop Horizontal frame) else frame)"

text \<open>\<open>position_transformed\<close>, from the relative position to the output.\<close>

definition output_point :: "f64 \<times> f64 \<Rightarrow> int \<times> int \<Rightarrow> f64 \<times> f64" where
  "output_point rel sz = (max (fst rel * rat_of_int (fst sz)) 0, max (snd rel * rat_of_int (snd sz)) 0)"

definition process_input_event ::
  "(space \<Rightarrow> f64 \<times> f64 \<Rightarrow> win option) \<Rightarrow> int \<times> int \<Rightarrow> backend_input \<Rightarrow> compositor \<Rightarrow> compositor \<times> local_out list" where
  "process_input_event hit mode e c =
     (case e of
        LocalKey code pressed \<Rightarrow> (c, [ToSeat (SeatKey code pressed)])
      | LocalMotion rel \<Rightarrow>
          (let pos = output_point rel mode in (c\<lparr> cp_pointer := pos \<rparr>, [ToSeat (SeatMotion pos (hit (cp_space c) pos))]))
      | LocalButton button pressed \<Rightarrow>
          (let (c1, evs) = (if pressed then click_focus hit c else (c, []))
           in (c1, map ToSeat (evs @ [SeatButton button pressed])))
      | LocalAxis delta \<Rightarrow> (c, [SeatAxisFrame (scroll_frame delta)])
      | IgnoredInput \<Rightarrow> (c, []))"

subsection \<open>The main loop\<close>

text \<open>The output mode is that of the window when the backend started.\<close>

record dev_backend =
  dv_compositor :: compositor
  dv_mode :: "int \<times> int"
  dv_running :: bool

definition dev_start :: "u32 \<times> u32 \<Rightarrow> compositor \<Rightarrow> dev_backend" where
  "dev_start window_size c =
     \<lparr> dv_compositor = c\<lparr> cp_output_size := (int (unat (fst window_size)), int (unat (snd window_size))) \<rparr>,
       dv_mode = (int (unat (fst window_size)), int (unat (snd window_size))), dv_running = True \<rparr>"

definition render_winit_frame :: "redraw \<Rightarrow> compositor \<Rightarrow> local_out list" where
  "render_winit_frame rw c =
     (if \<not> rw_bound rw then []
      else case rw_rendered rw of
             None \<Rightarrow> []
           | Some damage \<Rightarrow>
               SubmitFrame damage
                 # (if rw_submitted rw \<and> damage \<noteq> None then map (\<lambda>e. FrameDone (fst e)) (cp_space c) else []))"

definition backend_event_handler ::
  "(space \<Rightarrow> f64 \<times> f64 \<Rightarrow> win option) \<Rightarrow> backend_event \<Rightarrow> dev_backend \<Rightarrow> dev_backend \<times> local_out list" where
  "backend_event_handler hit e dv =
     (case e of
        BackendResized \<Rightarrow> (dv, [])
      | BackendFocus gained \<Rightarrow> (dv, [])
      | BackendInput i \<Rightarrow>
          (let (c, outs) = process_input_event hit (dv_mode dv) i (dv_compositor dv) in (dv\<lparr> dv_compositor := c \<rparr>, outs))
      | BackendRedraw rw \<Rightarrow> (dv, render_winit_frame rw (dv_compositor dv))
      | BackendClose \<Rightarrow> (dv\<lparr> dv_running := False \<rparr>, []))"

fun backend_events ::
  "(space \<Rightarrow> f64 \<times> f64 \<Rightarrow> win option) \<Rightarrow> backend_event list \<Rightarrow> dev_backend \<Rightarrow> dev_backend \<times> local_out list" where
  "backend_events hit [] dv = (dv, [])"
| "backend_events hit (e # es) dv =
     (let (dv1, outs1) = backend_event_handler hit e dv; (dv2, outs2) = backend_events hit es dv1 in (dv2, outs1 @ outs2))"

text \<open>What Wayland clients do in a turn.\<close>

datatype client_op = CreateToplevel creator win | DestroyToplevel win | ManagerAction compositor_action

fun client_step :: "client_op \<Rightarrow> compositor \<Rightarrow> compositor \<times> seat_out list" where
  "client_step (CreateToplevel creator w) c = new_toplevel creator w c"
| "client_step (DestroyToplevel w) c = toplevel_destroyed w c"
| "client_step (ManagerAction a) c = perform_action a c"

fun client_steps :: "client_op list \<Rightarrow> compositor \<Rightarrow> compositor \<times> seat_out list" where
  "client_steps [] c = (c, [])"
| "client_steps (op # ops) c =
     (let (c1, outs1) = client_step op c; (c2, outs2) = client_steps ops c1 in (c2, outs1 @ outs2))"

text \<open>The turns of \<open>run\<close>: dispatch the clients, then the events of the window, until it is closed.\<close>

fun dev_run ::
  "(space \<Rightarrow> f64 \<times> f64 \<Rightarrow> win option) \<Rightarrow> (client_op list \<times> backend_event list) list \<Rightarrow> dev_backend
     \<Rightarrow> dev_backend \<times> local_out list" where
  "dev_run hit [] dv = (dv, [])"
| "dev_run hit ((ops, es) # turns) dv =
     (if \<not> dv_running dv then (dv, [])
      else let (c, outs1) = client_steps ops (dv_compositor dv);
               (dv1, outs2) = backend_events hit es (dv\<lparr> dv_compositor := c \<rparr>);
               (dv2, outs3) = dev_run hit turns dv1
           in (dv2, map ToSeat outs1 @ outs2 @ outs3))"

subsection \<open>The wheel\<close>

text \<open>How far the seat is told to scroll.\<close>

fun seat_scroll :: "seat_out \<Rightarrow> f64 \<times> f64" where
  "seat_scroll (SeatAxis Horizontal (Some v)) = (v, 0)"
| "seat_scroll (SeatAxis Vertical (Some v)) = (0, v)"
| "seat_scroll _ = (0, 0)"

definition total_scroll :: "seat_out list \<Rightarrow> f64 \<times> f64" where
  "total_scroll outs = (sum_list (map (fst \<circ> seat_scroll) outs), sum_list (map (snd \<circ> seat_scroll) outs))"

definition scaled :: "rat \<Rightarrow> f64 \<times> f64 \<Rightarrow> f64 \<times> f64" where
  "scaled k p = (k * fst p, k * snd p)"

text \<open>
  C31.  The wheel of a remote viewer scrolls backwards.  For every wheel event the session of a viewer is told to
  scroll the opposite way of what the local backend tells it for the same event: by as much for a
  movement in pixels, and five times as far for one in lines.
\<close>
theorem scroll_reversed:
  "total_scroll (snd (inject_all hit (convert_mouse_wheel delta) c))
     = scaled (case delta of LineDelta x y \<Rightarrow> -5 | PixelDelta x y \<Rightarrow> -1) (af_axis (scroll_frame delta))"
  by (cases delta) (simp_all add: total_scroll_def scaled_def scroll_frame_def axis_message_def frame_value_def
      frame_v120_def axis_frame_new_def Let_def)

subsection \<open>The pointer\<close>

fun viewer_message :: "desktop_event \<Rightarrow> input_message option" where
  "viewer_message (DesktopCursor pos) = Some (convert_cursor_moved pos)"
| "viewer_message (DesktopButton button pressed) = convert_mouse_button button pressed"
| "viewer_message _ = None"

text \<open>
  Motion and buttons do locally what they do through a viewer: in a window that still has the size it
  started with, the compositor and the seat see the same as with the message the viewer sends for the
  same event, the extra buttons apart.
\<close>
theorem pointer_as_viewer:
  assumes "viewer_message e = Some m" "\<And>b pressed. e \<noteq> DesktopButton (OtherButton b) pressed"
    and "\<And>pos. e = DesktopCursor pos \<Longrightarrow> 0 \<le> fst pos \<and> 0 \<le> snd pos"
    and "0 < fst inner" "0 < snd inner"
  shows "backend_events hit (smithay_window_event x11 inner e) (dev_start inner c) =
    (let (c1, outs) = inject_network_input hit m (dv_compositor (dev_start inner c))
     in ((dev_start inner c)\<lparr> dv_compositor := c1 \<rparr>, map ToSeat outs))"
proof -
  have nz: "rat_of_nat (unat (fst inner)) \<noteq> 0" "rat_of_nat (unat (snd inner)) \<noteq> 0"
    using assms(4,5) by (simp_all add: word_gt_0 unat_eq_0 del: of_nat_unat)
  show ?thesis
  proof (cases e)
    case (DesktopCursor pos)
    have "output_point (fst pos / rat_of_nat (unat (fst inner)), snd pos / rat_of_nat (unat (snd inner)))
        (int (unat (fst inner)), int (unat (snd inner))) = pos"
      using nz assms(3) [OF DesktopCursor] by (simp add: output_point_def prod_eq_iff del: of_nat_unat)
    then show ?thesis
      using assms(1) by (auto simp: DesktopCursor smithay_window_event_def backend_event_handler_def process_input_event_def
          dev_start_def convert_cursor_moved_def Let_def simp del: of_nat_unat)
  next
    case (DesktopButton button pressed)
    have "local_button_code x11 button = button_code button" using assms(2) DesktopButton by (cases button) auto
    then show ?thesis
      using assms(1) by (auto simp: DesktopButton smithay_window_event_def backend_event_handler_def process_input_event_def
          dev_start_def convert_mouse_button_def Let_def split: prod.split)
  qed (use assms(1) in auto)
qed

subsection \<open>Where windows are\<close>

fun concerns :: "win \<Rightarrow> client_op \<Rightarrow> bool" where
  "concerns w (CreateToplevel creator v) \<longleftrightarrow> v = w"
| "concerns w (DestroyToplevel v) \<longleftrightarrow> v = w"
| "concerns w (ManagerAction a) \<longleftrightarrow> False"

definition window_at :: "win \<Rightarrow> compositor \<Rightarrow> point option" where
  "window_at w c = map_of (cp_space c) w"

definition spread :: "compositor \<Rightarrow> bool" where
  "spread c \<longleftrightarrow> distinct (space_wins (cp_space c))"

lemma raise_stays: "distinct (space_wins sp) \<Longrightarrow>
   distinct (space_wins (raise_element v sp)) \<and> map_of (raise_element v sp) = map_of sp"
proof (cases "v \<in> set (space_wins sp)")
  case False
  then have "raise_element v sp = sp" by (auto simp: raise_element_def split: option.split dest: find_in)
  then show "distinct (space_wins sp) \<Longrightarrow> ?thesis" by simp
qed (simp add: raise_element_simps)

lemma focus_stays: "spread c \<Longrightarrow> spread (fst (focus_on v c)) \<and> window_at w (fst (focus_on v c)) = window_at w c"
  using raise_stays by (simp add: spread_def window_at_def focus_on_def)

lemma click_stays: "spread c \<Longrightarrow> spread (fst (click_focus hit c)) \<and> window_at w (fst (click_focus hit c)) = window_at w c"
  using focus_stays by (auto simp: click_focus_def spread_def window_at_def Let_def split: option.split prod.split)

lemma client_stays:
  "spread c \<Longrightarrow> \<not> concerns w op \<Longrightarrow> spread (fst (client_step op c)) \<and> window_at w (fst (client_step op c)) = window_at w c"
proof (cases op)
  case (CreateToplevel creator v)
  then show "spread c \<Longrightarrow> \<not> concerns w op \<Longrightarrow> ?thesis"
    by (auto simp: spread_def window_at_def map_element_simps)
next
  case (DestroyToplevel v)
  then show "spread c \<Longrightarrow> \<not> concerns w op \<Longrightarrow> ?thesis"
    by (auto simp: spread_def window_at_def toplevel_destroyed_def Let_def unmap_elem_simps split: option.split)
next
  case (ManagerAction a)
  then show "spread c \<Longrightarrow> \<not> concerns w op \<Longrightarrow> ?thesis"
    using focus_stays by (cases a) (auto split: option.split)
qed

lemma clients_stay:
  "spread c \<Longrightarrow> \<forall>op\<in>set ops. \<not> concerns w op \<Longrightarrow>
     spread (fst (client_steps ops c)) \<and> window_at w (fst (client_steps ops c)) = window_at w c"
proof (induction ops arbitrary: c)
  case (Cons op ops)
  then show ?case using client_stays [of c w op] by (simp add: Let_def split_beta)
qed simp

lemma event_stays:
  "spread (dv_compositor dv) \<Longrightarrow> spread (dv_compositor (fst (backend_event_handler hit e dv)))
     \<and> window_at w (dv_compositor (fst (backend_event_handler hit e dv))) = window_at w (dv_compositor dv)"
  using click_stays [of "dv_compositor dv" hit w]
  by (auto simp: backend_event_handler_def process_input_event_def spread_def window_at_def Let_def
      split: backend_event.split backend_input.split prod.split)

lemma events_stay:
  "spread (dv_compositor dv) \<Longrightarrow> spread (dv_compositor (fst (backend_events hit es dv)))
     \<and> window_at w (dv_compositor (fst (backend_events hit es dv))) = window_at w (dv_compositor dv)"
proof (induction es arbitrary: dv)
  case (Cons e es)
  then show ?case using event_stays [of dv hit e w] by (simp add: Let_def split_beta)
qed simp

text \<open>
  The local backend never applies what a window manager places.  A window stays where it was mapped, whatever
  its and the other clients, the window managers and the user do until it is destroyed.
\<close>
theorem local_places_frozen:
  assumes "distinct (map fst (cp_space (dv_compositor dv)))"
    and "\<forall>(ops, es)\<in>set turns. \<forall>op\<in>set ops. \<not> concerns w op"
  shows "window_at w (dv_compositor (fst (dev_run hit turns dv))) = window_at w (dv_compositor dv)"
proof -
  have "spread (dv_compositor dv)" using assms(1) by (simp add: spread_def)
  then show ?thesis using assms(2)
  proof (induction turns arbitrary: dv)
    case (Cons t turns)
    obtain ops es where t: "t = (ops, es)" by fastforce
    let ?dv1 = "dv\<lparr> dv_compositor := fst (client_steps ops (dv_compositor dv)) \<rparr>"
    have "spread (dv_compositor ?dv1) \<and> window_at w (dv_compositor ?dv1) = window_at w (dv_compositor dv)"
      using clients_stay [of "dv_compositor dv" ops w] Cons.prems by (simp add: t)
    then show ?case
      using events_stay [of ?dv1 hit es w] Cons.IH [of "fst (backend_events hit es ?dv1)"] Cons.prems
      by (simp add: t Let_def split_beta)
  qed simp
qed

text \<open>The witnesses: a cursor in a window of 8 by 8, and Super+Left in a window with two toplevels, with a redraw.\<close>

theorem pointer_as_viewer_witness:
  "backend_events (\<lambda>s p. None) (smithay_window_event False (8, 8) (DesktopCursor (3, 4))) (dev_start (8, 8) fresh_compositor) =
    (let (c1, outs) = inject_network_input (\<lambda>s p. None) (convert_cursor_moved (3, 4)) (dv_compositor (dev_start (8, 8) fresh_compositor))
     in ((dev_start (8, 8) fresh_compositor)\<lparr> dv_compositor := c1 \<rparr>, map ToSeat outs))"
  by (rule pointer_as_viewer) simp_all

definition snap_turn :: "client_op list \<times> backend_event list" where
  "snap_turn = ([CreateToplevel None 9],
     concat (map (smithay_window_event False (1024, 768))
       [DesktopKey (Some 125) True False False, DesktopKey (Some 105) True False False,
        DesktopRedraw \<lparr> rw_bound = True, rw_rendered = Some (Some [(0, 0, 9, 9)]), rw_submitted = True \<rparr>]))"

theorem local_places_frozen_witness:
  "window_at 8 (dv_compositor (fst (dev_run (\<lambda>s p. None) [snap_turn] (dev_start (1024, 768) two_windows))))
     = window_at 8 (dv_compositor (dev_start (1024, 768) two_windows))"
proof (rule local_places_frozen)
  show "distinct (map fst (cp_space (dv_compositor (dev_start (1024, 768) two_windows))))"
    using two_windows_ok by (simp add: compositor_ok_def dev_start_def)
  show "\<forall>(ops, es)\<in>set [snap_turn]. \<forall>op\<in>set ops. \<not> concerns 8 op" by (simp add: snap_turn_def)
qed

end
