(* ===== verification/Tiling.thy ===== *)
theory Tiling
  imports WmProtocol
begin

text \<open>
  The tiling window manager (\<open>crates/wr-wm-tiling/src/main.rs\<close>), a client of the protocol of
  \<open>WmProtocol\<close>: its layout, its handlers, and what its render phase makes the server collect.  A window
  object is its id; the sending of a request is an element of the outputs.
\<close>

subsection \<open>The layout\<close>

text \<open>A tile: x, y, width, height.\<close>

type_synonym tile = "int \<times> int \<times> int \<times> int"

definition tile_gap :: int where "tile_gap = 4"

text \<open>
  The recursion of \<open>bsp_layout\<close> does not end for a count of zero; \<open>None\<close> is not returning.
\<close>

partial_function (option) bsp_layout :: "int \<Rightarrow> int \<Rightarrow> int \<Rightarrow> int \<Rightarrow> nat \<Rightarrow> bool \<Rightarrow> tile list option" where
  "bsp_layout x y w h count horizontal =
     (if count = 1 then Some [(x, y, w, h)]
      else let first_half = count div 2; second_half = count - first_half in
           if horizontal
           then let first_w = wrap32 (trunc_div (wrap32 (w * int first_half)) (int count) - tile_gap div 2);
                    second_w = wrap32 (w - first_w - tile_gap)
                in Option.bind (bsp_layout x y first_w h first_half (\<not> horizontal)) (\<lambda>first.
                   Option.bind (bsp_layout (wrap32 (x + first_w + tile_gap)) y second_w h second_half (\<not> horizontal)) (\<lambda>second.
                   Some (first @ second)))
           else let first_h = wrap32 (trunc_div (wrap32 (h * int first_half)) (int count) - tile_gap div 2);
                    second_h = wrap32 (h - first_h - tile_gap)
                in Option.bind (bsp_layout x y w first_h first_half (\<not> horizontal)) (\<lambda>first.
                   Option.bind (bsp_layout x (wrap32 (y + first_h + tile_gap)) w second_h second_half (\<not> horizontal)) (\<lambda>second.
                   Some (first @ second))))"

record tile_window =
  tw_obj :: object_id
  tw_width :: int
  tw_height :: int

record tiling_wm =
  tl_windows :: "tile_window list"
  tl_output_width :: int
  tl_output_height :: int

definition tiling_new :: tiling_wm where
  "tiling_new = \<lparr> tl_windows = [], tl_output_width = 1280, tl_output_height = 720 \<rparr>"

definition calculate_layout :: "tiling_wm \<Rightarrow> tile list option" where
  "calculate_layout wm =
     (let n = length (tl_windows wm); gap = tile_gap;
          w = wrap32 (tl_output_width wm - 2 * gap); h = wrap32 (tl_output_height wm - 2 * gap) in
      if n = 0 then Some []
      else if n = 1 then Some [(gap, gap, w, h)]
      else bsp_layout gap gap w h n True)"

subsection \<open>The handlers\<close>

datatype tiling_event =
    WindowNew object_id
  | WindowClosed object_id
  | ManageStart
  | RenderStart
  | OutputNew string int int
  | OutputRemoved string
  | Replaced
  | Dimensions object_id int int
  | OtherTilingEvent

datatype tiling_out =
    ToWindow object_id window_request
  | ToManager manager_request
  | ToWorkspace workspace_request
  | Exits

text \<open>What \<open>main\<close> requests before it enters the event loop.\<close>

definition tiling_setup :: "tiling_out list" where
  "tiling_setup = [ToWorkspace (ReqCreateWorkspace ''main''), ToWorkspace (ReqSetActiveWorkspace ''wayray-0'' ''main'')]"

text \<open>
  Each layout belongs to the window at its index; a layout without one is skipped.  \<open>None\<close>: the layout
  does not return.
\<close>

fun tiling_event_handler :: "tiling_event \<Rightarrow> tiling_wm \<Rightarrow> (tiling_wm \<times> tiling_out list) option" where
  "tiling_event_handler (WindowNew window) wm =
     Some (wm\<lparr> tl_windows := tl_windows wm @ [\<lparr> tw_obj = window, tw_width = 0, tw_height = 0 \<rparr>] \<rparr>, [])"
| "tiling_event_handler (WindowClosed window) wm =
     Some (wm\<lparr> tl_windows := filter (\<lambda>t. tw_obj t \<noteq> window) (tl_windows wm) \<rparr>, [])"
| "tiling_event_handler ManageStart wm =
     (case calculate_layout wm of
        None \<Rightarrow> None
      | Some layouts \<Rightarrow>
          Some (wm, map2 (\<lambda>t (x, y, w, h). ToWindow (tw_obj t) (ProposeDimensions w h)) (tl_windows wm) layouts
                    @ (if tl_windows wm = [] then [] else [ToWindow (tw_obj (last (tl_windows wm))) SetFocus])
                    @ [ToManager ManageDone]))"
| "tiling_event_handler RenderStart wm =
     (case calculate_layout wm of
        None \<Rightarrow> None
      | Some layouts \<Rightarrow>
          Some (wm, concat (map2 (\<lambda>t (x, y, w, h).
                       [ToWindow (tw_obj t) (SetPosition x y), ToWindow (tw_obj t) SetZTop, ToWindow (tw_obj t) Show])
                     (tl_windows wm) layouts)
                    @ [ToManager RenderDone]))"
| "tiling_event_handler (OutputNew name width height) wm =
     Some (wm\<lparr> tl_output_width := width, tl_output_height := height \<rparr>, [])"
| "tiling_event_handler (OutputRemoved name) wm = Some (wm, [])"
| "tiling_event_handler Replaced wm = Some (wm, [Exits])"
| "tiling_event_handler (Dimensions window width height) wm =
     (case position (\<lambda>t. tw_obj t = window) (tl_windows wm) of
        None \<Rightarrow> Some (wm, [])
      | Some i \<Rightarrow>
          Some (wm\<lparr> tl_windows := (tl_windows wm)[i := (tl_windows wm ! i)\<lparr> tw_width := width, tw_height := height \<rparr>] \<rparr>, []))"
| "tiling_event_handler OtherTilingEvent wm = Some (wm, [])"

fun tiling_run :: "tiling_event list \<Rightarrow> tiling_wm \<Rightarrow> (tiling_wm \<times> tiling_out list) option" where
  "tiling_run [] wm = Some (wm, [])"
| "tiling_run (e # es) wm =
     (case tiling_event_handler e wm of
        None \<Rightarrow> None
      | Some (wm1, outs) \<Rightarrow>
          if Exits \<in> set outs then Some (wm1, outs)
          else map_option (\<lambda>(wm2, outs2). (wm2, outs @ outs2)) (tiling_run es wm1))"

subsection \<open>The recursion\<close>

lemma bsp_count:
  assumes "bsp_layout x y w h n horizontal = Some ts"
  shows "n \<noteq> 0"
proof (rule bsp_layout.raw_induct [where P = "\<lambda>x y w h n hor ts. n \<noteq> 0" and xa = "(((((x, y), w), h), n), horizontal)",
      unfolded prod.case, OF _ assms])
  fix bsp :: "int \<Rightarrow> int \<Rightarrow> int \<Rightarrow> int \<Rightarrow> nat \<Rightarrow> bool \<Rightarrow> tile list option" and x y w h count horizontal ts
  assume IH: "\<And>x y w h count horizontal ts. bsp x y w h count horizontal = Some ts \<Longrightarrow> count \<noteq> 0"
  have "bsp x y w h 0 hor = None" for x y w h hor
    using IH [of x y w h 0 hor] by (cases "bsp x y w h 0 hor") simp_all
  moreover assume "(if count = 1 then Some [(x, y, w, h)]
      else let first_half = count div 2; second_half = count - first_half in
           if horizontal
           then let first_w = wrap32 (trunc_div (wrap32 (w * int first_half)) (int count) - tile_gap div 2);
                    second_w = wrap32 (w - first_w - tile_gap)
                in Option.bind (bsp x y first_w h first_half (\<not> horizontal)) (\<lambda>first.
                   Option.bind (bsp (wrap32 (x + first_w + tile_gap)) y second_w h second_half (\<not> horizontal)) (\<lambda>second.
                   Some (first @ second)))
           else let first_h = wrap32 (trunc_div (wrap32 (h * int first_half)) (int count) - tile_gap div 2);
                    second_h = wrap32 (h - first_h - tile_gap)
                in Option.bind (bsp x y w first_h first_half (\<not> horizontal)) (\<lambda>first.
                   Option.bind (bsp x (wrap32 (y + first_h + tile_gap)) w second_h second_half (\<not> horizontal)) (\<lambda>second.
                   Some (first @ second)))) = Some ts"
  ultimately show "count \<noteq> 0" by (cases "count = 0") (simp_all add: Let_def split: if_splits)
qed

lemma bsp_diverges: "bsp_layout x y w h 0 horizontal = None"
  using bsp_count [of x y w h 0 horizontal] by (cases "bsp_layout x y w h 0 horizontal") auto

lemma bsp_returns:
  "0 < n \<Longrightarrow> \<exists>ts. bsp_layout x y w h n horizontal = Some ts \<and> length ts = n"
proof (induction n arbitrary: x y w h horizontal rule: less_induct)
  case (less n)
  show ?case
  proof (cases "n = 1")
    case True
    then show ?thesis by (simp add: bsp_layout.simps)
  next
    case False
    with less.prems have half: "n div 2 < n" "0 < n div 2" "n - n div 2 < n" "0 < n - n div 2" by simp_all
    obtain f where f: "\<And>x y w h hor. bsp_layout x y w h (n div 2) hor = Some (f x y w h hor)"
      "\<And>x y w h hor. length (f x y w h hor) = n div 2"
      using less.IH [OF half(1,2)] by metis
    obtain g where g: "\<And>x y w h hor. bsp_layout x y w h (n - n div 2) hor = Some (g x y w h hor)"
      "\<And>x y w h hor. length (g x y w h hor) = n - n div 2"
      using less.IH [OF half(3,4)] by metis
    show ?thesis using False half by (subst bsp_layout.simps) (simp add: Let_def f g)
  qed
qed

subsection \<open>The tiles\<close>

text \<open>Halving a length with its gap: each part has room for five pixels per window, less one gap.\<close>

lemma split_room:
  fixes w n k :: int
  assumes "5 * n \<le> w + 4" "2 \<le> n" "2 * k \<le> n" "n \<le> 2 * k + 1"
  shows "5 * k \<le> w * k div n + 2" and "5 * (n - k) \<le> w - w * k div n + 2"
proof -
  let ?q = "w * k div n"
  have q: "?q * n \<le> w * k" "w * k < (?q + 1) * n"
    using div_mult_mod_eq [of "w * k" n] pos_mod_bound [of n "w * k"] pos_mod_sign [of n "w * k"] assms(2)
    unfolding distrib_right by linarith+
  show "5 * k \<le> ?q + 2"
  proof (rule ccontr)
    assume "\<not> 5 * k \<le> ?q + 2"
    then have "(?q + 1) * n \<le> (5 * k - 2) * n" using assms(2) by (intro mult_right_mono) auto
    moreover have "(5 * n - 4) * k \<le> w * k" using assms by (intro mult_right_mono) auto
    ultimately have "(5 * n - 4) * k < (5 * k - 2) * n" using q(2) by linarith
    then have "2 * n < 4 * k" by (simp add: algebra_simps)
    with assms(3) show False by simp
  qed
  show "5 * (n - k) \<le> w - ?q + 2"
  proof (rule ccontr)
    assume "\<not> 5 * (n - k) \<le> w - ?q + 2"
    then have "(w + 3 - 5 * (n - k)) * n \<le> ?q * n" using assms(2) by (intro mult_right_mono) auto
    then have "(w + 3 - 5 * (n - k)) * n \<le> w * k" using q(1) by linarith
    then have "w * (n - k) \<le> (5 * (n - k) - 3) * n" by (simp add: algebra_simps)
    moreover have "(5 * n - 4) * (n - k) \<le> w * (n - k)" using assms by (intro mult_right_mono) auto
    ultimately have "3 * n \<le> 4 * (n - k)" by (simp add: algebra_simps)
    with assms(2-4) show False by presburger
  qed
qed

text \<open>Tiles with a gap between them, in one of the directions.\<close>

fun apart :: "tile \<Rightarrow> tile \<Rightarrow> bool" where
  "apart (x, y, w, h) (x', y', w', h') \<longleftrightarrow>
     x + w + tile_gap \<le> x' \<or> x' + w' + tile_gap \<le> x \<or> y + h + tile_gap \<le> y' \<or> y' + h' + tile_gap \<le> y"

fun inside :: "int \<Rightarrow> int \<Rightarrow> int \<Rightarrow> int \<Rightarrow> tile \<Rightarrow> bool" where
  "inside x y w h (a, b, c, d) \<longleftrightarrow> x \<le> a \<and> y \<le> b \<and> 0 < c \<and> 0 < d \<and> a + c \<le> x + w \<and> b + d \<le> y + h"

definition tiling :: "int \<Rightarrow> int \<Rightarrow> int \<Rightarrow> int \<Rightarrow> tile list \<Rightarrow> bool" where
  "tiling x y w h ts \<longleftrightarrow> list_all (inside x y w h) ts \<and> sorted_wrt apart ts"

lemma inside_mono:
  "inside x y w h t \<Longrightarrow> x' \<le> x \<Longrightarrow> y' \<le> y \<Longrightarrow> x + w \<le> x' + w' \<Longrightarrow> y + h \<le> y' + h' \<Longrightarrow> inside x' y' w' h' t"
  by (cases t) auto

lemma tiling_append:
  assumes "tiling x1 y1 w1 h1 ts" "tiling x2 y2 w2 h2 us"
    and "x \<le> x1" "y \<le> y1" "x1 + w1 \<le> x + w" "y1 + h1 \<le> y + h"
    and "x \<le> x2" "y \<le> y2" "x2 + w2 \<le> x + w" "y2 + h2 \<le> y + h"
    and "x1 + w1 + tile_gap \<le> x2 \<or> y1 + h1 + tile_gap \<le> y2"
  shows "tiling x y w h (ts @ us)"
proof -
  have "apart t u" if "t \<in> set ts" "u \<in> set us" for t u
    using assms(1,2,11) that by (cases t; cases u) (fastforce simp: tiling_def list_all_iff)
  moreover have "inside x y w h t" if "t \<in> set ts" for t
    using assms(1,3-6) that by (auto simp: tiling_def list_all_iff intro: inside_mono)
  moreover have "inside x y w h u" if "u \<in> set us" for u
    using assms(2,7-10) that by (auto simp: tiling_def list_all_iff intro: inside_mono)
  ultimately show ?thesis using assms(1,2) by (auto simp: tiling_def list_all_iff sorted_wrt_append)
qed

text \<open>The split of a length, without wrap-around.\<close>

lemma split_exact:
  fixes k :: nat
  assumes "2 \<le> n" "k = n div 2" "5 * int n \<le> w + 4" "w \<le> 32768"
  defines "v \<equiv> wrap32 (trunc_div (wrap32 (w * int k)) (int n) - tile_gap div 2)"
  shows "v + 2 = w * int k div int n" "in_i32 v"
    "5 * int k \<le> v + 4" "5 * int (n - k) \<le> (w - v - tile_gap) + 4" "0 < v" "v < w"
proof -
  have k: "2 * int k \<le> int n" "int n \<le> 2 * int k + 1" "1 \<le> int k" "2 \<le> int n" using assms(1,2) by auto
  note room = split_room [OF assms(3) k(4,1,2)]
  have "int k \<le> 3277" "0 \<le> w" using assms(3,4) k by linarith+
  then have "0 \<le> w * int k" "w * int k \<le> 32768 * 3277"
    using assms(4) mult_mono [of w 32768 "int k" 3277] by simp_all
  then have div: "wrap32 (w * int k) = w * int k" "0 \<le> w * int k" by (simp_all add: in_i32_def)
  define q where "q = w * int k div int n"
  note room = room [folded q_def]
  have q: "q \<le> w" using room(2) k by presburger
  then have i: "in_i32 (q - 2)" using assms(4) room(1) k by (simp add: in_i32_def)
  have v: "v = q - 2"
    using i k by (simp add: v_def div tile_gap_def q_def)
  show "v + 2 = w * int k div int n" "in_i32 v" using v i by (simp_all add: q_def)
  show "5 * int k \<le> v + 4" "5 * int (n - k) \<le> (w - v - tile_gap) + 4"
    using v room k by (simp_all add: tile_gap_def of_nat_diff)
  show "0 < v" using v room(1) k(3) by presburger
  show "v < w" using q v by simp
qed

lemma bsp_tiling:
  "0 < n \<Longrightarrow> 5 * int n \<le> w + 4 \<Longrightarrow> 5 * int n \<le> h + 4 \<Longrightarrow> 0 \<le> x \<Longrightarrow> 0 \<le> y \<Longrightarrow> x + w \<le> 32768 \<Longrightarrow> y + h \<le> 32768 \<Longrightarrow>
     bsp_layout x y w h n horizontal = Some ts \<Longrightarrow> tiling x y w h ts"
proof (induction n arbitrary: x y w h horizontal ts rule: less_induct)
  case (less n)
  show ?case
  proof (cases "n = 1")
    case True
    then show ?thesis using less.prems by (auto simp: bsp_layout.simps tiling_def)
  next
    case False
    define k where "k = n div 2"
    with False less.prems(1) have half: "k < n" "0 < k" "n - k < n" "0 < n - k" "2 \<le> n" by auto
    show ?thesis
    proof (cases horizontal)
      case True
      define v where "v = wrap32 (trunc_div (wrap32 (w * int k)) (int n) - tile_gap div 2)"
      have "w \<le> 32768" using less.prems by linarith
      note v = split_exact [OF half(5) k_def less.prems(2) this, folded v_def]
      have small: "wrap32 (w - v - tile_gap) = w - v - tile_gap" "wrap32 (x + v + tile_gap) = x + v + tile_gap"
        using v less.prems by (simp_all add: in_i32_def tile_gap_def)
      obtain us vs where ts: "ts = us @ vs" "bsp_layout x y v h k False = Some us"
        "bsp_layout (x + v + tile_gap) y (w - v - tile_gap) h (n - k) False = Some vs"
        using less.prems(8) False True by (subst (asm) bsp_layout.simps)
          (auto simp: Let_def k_def [symmetric] v_def [symmetric] small bind_eq_Some_conv)
      have us: "tiling x y v h us"
        using less.IH [OF half(1,2) v(3) _ less.prems(4,5) _ less.prems(7) ts(2)] less.prems half v(6) by simp
      have vs: "tiling (x + v + tile_gap) y (w - v - tile_gap) h vs"
        using less.IH [OF half(3,4) v(4) _ _ less.prems(5) _ less.prems(7) ts(3)] less.prems half v(5)
        by (simp add: tile_gap_def)
      show ?thesis unfolding ts(1)
        by (rule tiling_append [OF us vs]) (use v in \<open>auto simp: tile_gap_def\<close>)
    next
      case vert: False
      define v where "v = wrap32 (trunc_div (wrap32 (h * int k)) (int n) - tile_gap div 2)"
      have "h \<le> 32768" using less.prems by linarith
      note v = split_exact [OF half(5) k_def less.prems(3) this, folded v_def]
      have small: "wrap32 (h - v - tile_gap) = h - v - tile_gap" "wrap32 (y + v + tile_gap) = y + v + tile_gap"
        using v less.prems by (simp_all add: in_i32_def tile_gap_def)
      obtain us vs where ts: "ts = us @ vs" "bsp_layout x y w v k True = Some us"
        "bsp_layout x (y + v + tile_gap) w (h - v - tile_gap) (n - k) True = Some vs"
        using less.prems(8) False vert by (subst (asm) bsp_layout.simps)
          (auto simp: Let_def k_def [symmetric] v_def [symmetric] small bind_eq_Some_conv)
      have us: "tiling x y w v us"
        using less.IH [OF half(1,2) _ v(3) less.prems(4,5,6) _ ts(2)] less.prems half v(6) by simp
      have vs: "tiling x (y + v + tile_gap) w (h - v - tile_gap) vs"
        using less.IH [OF half(3,4) _ v(4) less.prems(4) _ less.prems(6) _ ts(3)] less.prems half v(5)
        by (simp add: tile_gap_def)
      show ?thesis unfolding ts(1)
        by (rule tiling_append [OF us vs]) (use v in \<open>auto simp: tile_gap_def\<close>)
    qed
  qed
qed

lemma layout_returns:
  "\<exists>ts. calculate_layout wm = Some ts \<and> length ts = length (tl_windows wm)"
proof (cases "tl_windows wm = []")
  case False
  then have "0 < length (tl_windows wm)" by simp
  from bsp_returns [OF this] show ?thesis
    by (cases "length (tl_windows wm) = 1") (auto simp: calculate_layout_def Let_def)
qed (simp add: calculate_layout_def Let_def)

text \<open>
  C36.  The layout always returns, one tile for each window.  If the output is at most 32768 pixels wide and
  high and has room for five pixels per window in both directions (besides the outer gaps), every tile
  has a positive size and lies within the outer gap of the output, and any two tiles are at least a
  gap apart.  (For a count of zero the recursion itself would never end, \<open>bsp_diverges\<close>; the layout
  does not call it then.)
\<close>
theorem tiling_layout:
  "\<exists>ts. calculate_layout wm = Some ts \<and> length ts = length (tl_windows wm)
     \<and> (5 * int (length (tl_windows wm)) \<le> tl_output_width wm - 4 \<and> 5 * int (length (tl_windows wm)) \<le> tl_output_height wm - 4
        \<and> tl_output_width wm \<le> 32768 \<and> tl_output_height wm \<le> 32768 \<longrightarrow>
          list_all (inside tile_gap tile_gap (tl_output_width wm - 2 * tile_gap) (tl_output_height wm - 2 * tile_gap)) ts
          \<and> sorted_wrt apart ts)"
proof (cases "tl_windows wm = []")
  case True
  then show ?thesis by (simp add: calculate_layout_def Let_def)
next
  case False
  let ?n = "length (tl_windows wm)"
  let ?w = "wrap32 (tl_output_width wm - 2 * tile_gap)" and ?h = "wrap32 (tl_output_height wm - 2 * tile_gap)"
  have n: "0 < ?n" using False by simp
  obtain ts where layout: "calculate_layout wm = Some ts" "length ts = ?n" using layout_returns by blast
  then have ts: "bsp_layout tile_gap tile_gap ?w ?h ?n True = Some ts"
    using n by (cases "?n = 1") (auto simp: calculate_layout_def Let_def bsp_layout.simps)
  have "tiling tile_gap tile_gap (tl_output_width wm - 2 * tile_gap) (tl_output_height wm - 2 * tile_gap) ts"
    if room: "5 * int ?n \<le> tl_output_width wm - 4" "5 * int ?n \<le> tl_output_height wm - 4"
      "tl_output_width wm \<le> 32768" "tl_output_height wm \<le> 32768"
  proof -
    have "?w = tl_output_width wm - 2 * tile_gap" "?h = tl_output_height wm - 2 * tile_gap"
      using room n by (simp_all add: in_i32_def tile_gap_def)
    with bsp_tiling [OF n _ _ _ _ _ _ ts] room show ?thesis by (simp add: tile_gap_def)
  qed
  with layout show ?thesis by (auto simp: tiling_def)
qed

definition three_windows :: tiling_wm where
  "three_windows = tiling_new\<lparr> tl_windows := map (\<lambda>i. \<lparr> tw_obj = i, tw_width = 0, tw_height = 0 \<rparr>) [7, 8, 9] \<rparr>"

theorem tiling_layout_witness:
  "\<exists>ts. calculate_layout three_windows = Some ts \<and> length ts = 3 \<and> list_all (inside 4 4 1272 712) ts \<and> sorted_wrt apart ts"
  using tiling_layout [of three_windows] by (simp add: three_windows_def tiling_new_def tile_gap_def numeral_3_eq_3)

subsection \<open>The phases on the server\<close>

text \<open>The window requests among the outputs, for the windows the objects stand for.\<close>

definition window_requests :: "(object_id \<Rightarrow> window_id) \<Rightarrow> tiling_out list \<Rightarrow> (window_id \<times> window_request) list" where
  "window_requests winid outs =
     List.map_filter (\<lambda>out. case out of ToWindow obj req \<Rightarrow> Some (winid obj, req) | _ \<Rightarrow> None) outs"

lemma window_requests_simps [simp]:
  "window_requests winid [] = []"
  "window_requests winid (ToWindow obj req # outs) = (winid obj, req) # window_requests winid outs"
  "window_requests winid (ToManager m # outs) = window_requests winid outs"
  by (simp_all add: window_requests_def List.map_filter_simps)

lemma window_requests_append [simp]:
  "window_requests winid (xs @ ys) = window_requests winid xs @ window_requests winid ys"
  by (simp add: window_requests_def List.map_filter_def)

definition placed :: "(object_id \<Rightarrow> window_id) \<Rightarrow> tile_window \<Rightarrow> tile \<Rightarrow> render_command" where
  "placed winid t tile = (case tile of (x, y, w, h) \<Rightarrow>
     \<lparr> rc_id = winid (tw_obj t), rc_position = (x, y), rc_z_order = Top, rc_visible = True \<rparr>)"

lemma update_command_last:
  "i \<notin> rc_id ` set cs \<Longrightarrow> rc_id c = i \<Longrightarrow> update_command i f new (cs @ [c]) = cs @ [f c]"
  by (induction cs) auto

lemma place_one:
  assumes "i \<notin> rc_id ` set (wp_pending p)"
  shows "run_requests [(i, SetPosition x y), (i, SetZTop), (i, Show)] p =
    p\<lparr> wp_pending := wp_pending p @ [\<lparr> rc_id = i, rc_position = (x, y), rc_z_order = Top, rc_visible = True \<rparr>] \<rparr>"
  using assms by (simp add: run_requests_def set_z_def set_shown_def update_command_last)

lemma run_requests_append: "run_requests (xs @ ys) p = run_requests ys (run_requests xs p)"
  by (simp add: run_requests_def)

lemma render_requests:
  assumes "length ws = length ts" "distinct (map (winid \<circ> tw_obj) ws)"
    and "(winid \<circ> tw_obj) ` set ws \<inter> rc_id ` set (wp_pending p) = {}"
  shows "wp_pending (run_requests (window_requests winid (concat (map2 (\<lambda>t (x, y, w, h).
             [ToWindow (tw_obj t) (SetPosition x y), ToWindow (tw_obj t) SetZTop, ToWindow (tw_obj t) Show]) ws ts))) p)
       = wp_pending p @ map2 (placed winid) ws ts"
  using assms
proof (induction ws ts arbitrary: p rule: list_induct2)
  case (Cons t ws tile ts)
  obtain x y w h where tile: "tile = (x, y, w, h)" by (cases tile)
  let ?one = "[(winid (tw_obj t), SetPosition x y), (winid (tw_obj t), SetZTop), (winid (tw_obj t), Show)]"
  have new: "winid (tw_obj t) \<notin> rc_id ` set (wp_pending p)" using Cons.prems(2) by auto
  have "(winid \<circ> tw_obj) ` set ws \<inter> rc_id ` set (wp_pending (run_requests ?one p)) = {}"
    using Cons.prems by (auto simp: place_one [OF new])
  from Cons.IH [OF _ this] Cons.prems(1) show ?case
    by (simp add: tile run_requests_append [of ?one, simplified] place_one [OF new] placed_def)
qed (simp add: run_requests_def)

text \<open>
  C37.  The tiling manager drives the server as the server means it to: in a render phase its requests leave
  exactly one command per window, which shows the window at the place of its tile and puts it on top.
\<close>
theorem tiling_render_phase:
  assumes "wp_wm_client p = Some m" "distinct (map (winid \<circ> tw_obj) (tl_windows wm))"
  shows "\<exists>ts outs. calculate_layout wm = Some ts \<and> tiling_event_handler RenderStart wm = Some (wm, outs)
     \<and> snd (take_render_commands (run_requests (window_requests winid outs) (fst (start_render_phase p))))
         = map2 (placed winid) (tl_windows wm) ts"
proof -
  obtain ts where ts: "calculate_layout wm = Some ts" "length ts = length (tl_windows wm)"
    using layout_returns by blast
  then show ?thesis
    using render_requests [OF ts(2) [symmetric] assms(2), of "fst (start_render_phase p)"] assms(1)
    by (simp add: take_render_commands_def start_render_phase_def)
qed

theorem tiling_render_phase_witness:
  "\<exists>ts outs. calculate_layout three_windows = Some ts \<and> tiling_event_handler RenderStart three_windows = Some (three_windows, outs)
     \<and> snd (take_render_commands (run_requests (window_requests of_nat outs)
             (fst (start_render_phase (wm_proto_new\<lparr> wp_wm_client := Some 1 \<rparr>)))))
         = map2 (placed of_nat) (tl_windows three_windows) ts"
  by (rule tiling_render_phase [where m = 1]) (simp_all add: three_windows_def)

end
