(* ===== verification/Launcher.thy ===== *)
theory Launcher
  imports Cluster
begin

text \<open>
  The session launcher: its messages (\<open>crates/wayray-protocol/src/launcher.rs\<close>), the link of the
  compositor (\<open>crates/wrsrvd/src/launcher_link.rs\<close>), the daemon (\<open>crates/wrsessd/src/main.rs\<close>) and the
  greeter (\<open>crates/wrlogin/src/main.rs\<close>).  Of the operating system there is the table of running
  processes: starting one adds an entry or fails, killing one removes its entry.  The transport is
  the call of the daemon's handler.
\<close>

subsection \<open>Messages\<close>

datatype launcher_request =
    SessionRequested string string
  | SessionAuthenticated string string
  | SessionLogout string u64
  | ListManagedSessions
  | KillSession string

record session_info =
  sf_token :: string
  sf_user :: "string option"
  sf_child_count :: nat

datatype launcher_response =
    SessionReady string
  | DesktopStarted string string
  | LauncherError string string
  | ManagedSessions "session_info list"
  | SessionKilled string

subsection \<open>Processes\<close>

text \<open>A running process: its id, its binary and the display it was given.\<close>

record os =
  os_next_pid :: nat
  os_running :: "(nat \<times> string \<times> string) list"

text \<open>\<open>Command::new(binary).env("WAYLAND_DISPLAY", display).spawn()\<close>; \<open>executable\<close>: the binary can be started.\<close>

definition spawn :: "(string \<Rightarrow> bool) \<Rightarrow> string \<Rightarrow> string \<Rightarrow> os \<Rightarrow> os \<times> nat option" where
  "spawn executable binary display sys =
     (if executable binary
      then (sys\<lparr> os_next_pid := os_next_pid sys + 1,
                 os_running := (os_next_pid sys, binary, display) # os_running sys \<rparr>, Some (os_next_pid sys))
      else (sys, None))"

definition kill :: "nat \<Rightarrow> os \<Rightarrow> os" where
  "kill pid sys = sys\<lparr> os_running := filter (\<lambda>p. fst p \<noteq> pid) (os_running sys) \<rparr>"

definition running :: "os \<Rightarrow> nat \<Rightarrow> bool" where
  "running sys pid \<longleftrightarrow> pid \<in> fst ` set (os_running sys)"

subsection \<open>The daemon\<close>

record managed_session =
  mg_token :: string
  mg_user :: "string option"
  mg_children :: "nat list"
  mg_wayland_display :: string

record launcher =
  la_sessions :: "(string, managed_session) hashmap"
  la_greeter_bin :: string

definition launcher_new :: launcher where
  "launcher_new = \<lparr> la_sessions = [], la_greeter_bin = ''wrlogin'' \<rparr>"

definition handle_session_requested ::
  "(string \<Rightarrow> bool) \<Rightarrow> string \<Rightarrow> string \<Rightarrow> launcher \<times> os \<Rightarrow> (launcher \<times> os) \<times> launcher_response" where
  "handle_session_requested executable token wayland_display st =
     (case st of (la, sys) \<Rightarrow>
        let session = \<lparr> mg_token = token, mg_user = None, mg_children = [], mg_wayland_display = wayland_display \<rparr> in
        case spawn executable (la_greeter_bin la) wayland_display sys of
          (sys1, Some child) \<Rightarrow>
            ((la\<lparr> la_sessions := hm_insert token (session\<lparr> mg_children := [child] \<rparr>) (la_sessions la) \<rparr>, sys1),
             SessionReady token)
        | (sys1, None) \<Rightarrow>
            ((la\<lparr> la_sessions := hm_insert token session (la_sessions la) \<rparr>, sys1),
             LauncherError token ''greeter launch failed''))"

fun launch_components :: "(string \<Rightarrow> bool) \<Rightarrow> string \<Rightarrow> (string \<times> bool) list \<Rightarrow> os \<Rightarrow> os \<times> nat list" where
  "launch_components executable display [] sys = (sys, [])"
| "launch_components executable display ((binary, is_wm) # rest) sys =
     (let (sys1, child) = spawn executable binary display sys;
          (sys2, children) = launch_components executable display rest sys1
      in (sys2, (case child of None \<Rightarrow> [] | Some c \<Rightarrow> [c]) @ children))"

definition handle_session_authenticated ::
  "(string \<Rightarrow> bool) \<Rightarrow> session_config \<Rightarrow> string \<Rightarrow> string \<Rightarrow> launcher \<times> os \<Rightarrow> (launcher \<times> os) \<times> launcher_response" where
  "handle_session_authenticated executable config token user st =
     (case st of (la, sys) \<Rightarrow>
        case hm_get (la_sessions la) token of
          None \<Rightarrow> (st, LauncherError token ''no session found for token'')
        | Some session \<Rightarrow>
            (case launch_components executable (mg_wayland_display session) (launch_list config) sys of
               (sys1, children) \<Rightarrow>
                 ((la\<lparr> la_sessions := hm_insert token
                         (session\<lparr> mg_user := Some user, mg_children := mg_children session @ children \<rparr>) (la_sessions la) \<rparr>,
                   sys1),
                  DesktopStarted token user)))"

text \<open>Taking a session out of the table and killing its children.\<close>

definition remove_session :: "string \<Rightarrow> launcher \<times> os \<Rightarrow> (launcher \<times> os) \<times> bool" where
  "remove_session token st =
     (case st of (la, sys) \<Rightarrow>
        case hm_get (la_sessions la) token of
          None \<Rightarrow> (st, False)
        | Some session \<Rightarrow>
            ((la\<lparr> la_sessions := hm_remove token (la_sessions la) \<rparr>, fold kill (mg_children session) sys), True))"

definition handle_session_logout :: "string \<Rightarrow> launcher \<times> os \<Rightarrow> launcher \<times> os" where
  "handle_session_logout token st = fst (remove_session token st)"

definition list_sessions :: "launcher \<Rightarrow> launcher_response" where
  "list_sessions la =
     ManagedSessions (map (\<lambda>s. \<lparr> sf_token = mg_token s, sf_user = mg_user s, sf_child_count = length (mg_children s) \<rparr>)
       (hm_values (la_sessions la)))"

definition kill_session :: "string \<Rightarrow> launcher \<times> os \<Rightarrow> (launcher \<times> os) \<times> launcher_response" where
  "kill_session token st =
     (case remove_session token st of
        (st1, True) \<Rightarrow> (st1, SessionKilled token)
      | (st1, False) \<Rightarrow> (st1, LauncherError token ''session not found''))"

fun handle ::
  "(string \<Rightarrow> bool) \<Rightarrow> session_config \<Rightarrow> launcher_request \<Rightarrow> launcher \<times> os \<Rightarrow> (launcher \<times> os) \<times> launcher_response option" where
  "handle executable config (SessionRequested token display) st =
     (case handle_session_requested executable token display st of (st1, r) \<Rightarrow> (st1, Some r))"
| "handle executable config (SessionAuthenticated token user) st =
     (case handle_session_authenticated executable config token user st of (st1, r) \<Rightarrow> (st1, Some r))"
| "handle executable config (SessionLogout token session_id) st = (handle_session_logout token st, None)"
| "handle executable config ListManagedSessions st = (st, Some (list_sessions (fst st)))"
| "handle executable config (KillSession token) st =
     (case kill_session token st of (st1, r) \<Rightarrow> (st1, Some r))"

subsection \<open>The link of the compositor\<close>

datatype launcher_event = SessionCreated string | SessionDestroyed string u64

fun link_request :: "string \<Rightarrow> launcher_event \<Rightarrow> launcher_request" where
  "link_request wayland_display (SessionCreated token) = SessionRequested token wayland_display"
| "link_request wayland_display (SessionDestroyed token session_id) = SessionLogout token session_id"

text \<open>The worker delivers the events in order; \<open>reachable\<close>: the daemon can be reached for the n-th one.\<close>

fun link_worker ::
  "(string \<Rightarrow> bool) \<Rightarrow> session_config \<Rightarrow> string \<Rightarrow> (nat \<Rightarrow> bool) \<Rightarrow> nat \<Rightarrow> launcher_event list \<Rightarrow> launcher \<times> os \<Rightarrow> launcher \<times> os" where
  "link_worker executable config display reachable n [] st = st"
| "link_worker executable config display reachable n (e # es) st =
     link_worker executable config display reachable (n + 1) es
       (if reachable n then fst (handle executable config (link_request display e) st) else st)"

subsection \<open>The greeter\<close>

text \<open>\<open>prompt\<close>: a line of the standard input, trimmed; the empty string at its end.\<close>

fun prompt :: "string list \<Rightarrow> string \<times> string list" where
  "prompt [] = ('''', [])"
| "prompt (line # lines) = (trim line, lines)"

definition greeter_token :: "string option \<Rightarrow> string" where
  "greeter_token env = (case env of None \<Rightarrow> ''unknown'' | Some t \<Rightarrow> t)"

text \<open>
  The login loop with fuel; \<open>None\<close>: it is still running.  \<open>reachable n\<close>: the daemon answers the request
  sent with \<open>n\<close> rounds left.
\<close>

fun login_loop ::
  "(string \<Rightarrow> bool) \<Rightarrow> session_config \<Rightarrow> (nat \<Rightarrow> bool) \<Rightarrow> nat \<Rightarrow> string \<Rightarrow> string list \<Rightarrow> launcher \<times> os \<Rightarrow> ((launcher \<times> os) \<times> string) option" where
  "login_loop executable config reachable 0 token input st = None"
| "login_loop executable config reachable (Suc fuel) token input st =
     (let (user, input1) = prompt input in
      if user = '''' then login_loop executable config reachable fuel token input1 st
      else let (password, input2) = prompt input1 in
           if \<not> reachable fuel then login_loop executable config reachable fuel token input2 st
           else let (st1, response) = handle executable config (SessionAuthenticated token user) st
                in case response of
                     Some (DesktopStarted t u) \<Rightarrow> Some (st1, u)
                   | _ \<Rightarrow> login_loop executable config reachable fuel token input2 st1)"

subsection \<open>Who owns a process\<close>

datatype launcher_op = Request launcher_request | Exited nat

fun launcher_step :: "(string \<Rightarrow> bool) \<Rightarrow> session_config \<Rightarrow> launcher_op \<Rightarrow> launcher \<times> os \<Rightarrow> launcher \<times> os" where
  "launcher_step executable config (Request r) st = fst (handle executable config r st)"
| "launcher_step executable config (Exited pid) st = (fst st, kill pid (snd st))"

definition child_of :: "launcher \<Rightarrow> nat \<Rightarrow> string \<Rightarrow> bool" where
  "child_of la pid token \<longleftrightarrow> (\<exists>s. hm_get (la_sessions la) token = Some s \<and> pid \<in> set (mg_children s))"

definition launcher_ok :: "launcher \<times> os \<Rightarrow> bool" where
  "launcher_ok st \<longleftrightarrow> hm_wf (la_sessions (fst st))
     \<and> (\<forall>pid. running (snd st) pid \<longrightarrow> pid < os_next_pid (snd st) \<and> (\<exists>token. child_of (fst st) pid token))"

lemma running_kill [simp]: "running (kill pid sys) p \<longleftrightarrow> p \<noteq> pid \<and> running sys p"
  by (auto simp: running_def kill_def)

lemma running_fold_kill [simp]: "running (fold kill pids sys) p \<longleftrightarrow> p \<notin> set pids \<and> running sys p"
  by (induction pids arbitrary: sys) auto

lemma next_pid_kill [simp]: "os_next_pid (kill pid sys) = os_next_pid sys" "os_next_pid (fold kill pids sys) = os_next_pid sys"
  by (simp add: kill_def) (induction pids arbitrary: sys; simp add: kill_def)

lemma spawn_running:
  "spawn executable binary display sys = (sys1, child) \<Longrightarrow>
     (running sys1 p \<longleftrightarrow> running sys p \<or> child = Some p)
     \<and> os_next_pid sys \<le> os_next_pid sys1 \<and> (child = Some p \<longrightarrow> os_next_pid sys \<le> p \<and> p < os_next_pid sys1)"
  by (auto simp: spawn_def running_def split: if_splits)

lemma launch_components_running:
  "launch_components executable display cs sys = (sys1, children) \<Longrightarrow>
     (running sys1 p \<longleftrightarrow> running sys p \<or> p \<in> set children)
     \<and> os_next_pid sys \<le> os_next_pid sys1 \<and> (p \<in> set children \<longrightarrow> os_next_pid sys \<le> p \<and> p < os_next_pid sys1)"
proof (induction executable display cs sys arbitrary: sys1 children rule: launch_components.induct)
  case (2 executable display binary is_wm rest sys)
  obtain s1 c where s1: "spawn executable binary display sys = (s1, c)" by fastforce
  obtain s2 ch where s2: "launch_components executable display rest s1 = (s2, ch)" by fastforce
  from spawn_running [OF s1, of p] "2.IH" [OF s1 [symmetric] refl s2] "2.prems" show ?case
    by (auto simp: s1 s2 split: option.splits)
qed auto

text \<open>The pids of the sessions other than \<open>token\<close> stay where they are.\<close>

lemma launcher_okI:
  assumes "hm_wf (la_sessions la)"
    and "\<And>pid. running sys pid \<Longrightarrow> pid < os_next_pid sys \<and> (\<exists>token. child_of la pid token)"
  shows "launcher_ok (la, sys)"
  using assms by (simp add: launcher_ok_def)

lemma launcher_okD:
  assumes "launcher_ok (la, sys)"
  shows "hm_wf (la_sessions la)" "running sys pid \<Longrightarrow> pid < os_next_pid sys"
    "running sys pid \<Longrightarrow> \<exists>token s. hm_get (la_sessions la) token = Some s \<and> pid \<in> set (mg_children s)"
  using assms by (auto simp: launcher_ok_def child_of_def)

lemma child_of_insert:
  "t \<noteq> token \<Longrightarrow> child_of la p t \<Longrightarrow> child_of (la\<lparr> la_sessions := hm_insert token m (la_sessions la) \<rparr>) p t"
  "p \<in> set (mg_children m) \<Longrightarrow> child_of (la\<lparr> la_sessions := hm_insert token m (la_sessions la) \<rparr>) p token"
  by (simp_all add: child_of_def)

lemma insert_session_ok:
  assumes ok: "launcher_ok (la, sys)" and old: "\<And>s. hm_get (la_sessions la) token = Some s \<Longrightarrow> set (mg_children s) \<subseteq> set (mg_children m)"
    and new: "\<And>p. running sys1 p \<Longrightarrow> running sys p \<or> p < os_next_pid sys1 \<and> p \<in> set (mg_children m)"
    and le: "os_next_pid sys \<le> os_next_pid sys1"
  shows "launcher_ok (la\<lparr> la_sessions := hm_insert token m (la_sessions la) \<rparr>, sys1)"
proof (rule launcher_okI)
  show "hm_wf (la_sessions (la\<lparr> la_sessions := hm_insert token m (la_sessions la) \<rparr>))"
    using launcher_okD(1) [OF ok] by simp
  fix p assume "running sys1 p"
  then consider "running sys p" | "p < os_next_pid sys1" "p \<in> set (mg_children m)" using new by blast
  then show "p < os_next_pid sys1 \<and> (\<exists>t. child_of (la\<lparr> la_sessions := hm_insert token m (la_sessions la) \<rparr>) p t)"
  proof cases
    case 1
    obtain t s where t: "hm_get (la_sessions la) t = Some s" "p \<in> set (mg_children s)" using launcher_okD(3) [OF ok 1] by blast
    have "\<exists>t. child_of (la\<lparr> la_sessions := hm_insert token m (la_sessions la) \<rparr>) p t"
    proof (cases "t = token")
      case True
      then have "p \<in> set (mg_children m)" using old t by blast
      then show ?thesis using child_of_insert(2) by blast
    next
      case False
      moreover have "child_of la p t" using t by (auto simp: child_of_def)
      ultimately show ?thesis using child_of_insert(1) by blast
    qed
    with launcher_okD(2) [OF ok 1] le show ?thesis by simp
  next
    case 2
    then show ?thesis using child_of_insert(2) by blast
  qed
qed

lemma requested_ok:
  assumes "launcher_ok (la, sys)" "hm_get (la_sessions la) token = None"
  shows "launcher_ok (fst (handle_session_requested executable token display (la, sys)))"
proof -
  obtain sys1 child where s: "spawn executable (la_greeter_bin la) display sys = (sys1, child)" by fastforce
  have "launcher_ok (la\<lparr> la_sessions := hm_insert token m (la_sessions la) \<rparr>, sys1)"
    if "\<And>c. child = Some c \<Longrightarrow> mg_children m = [c]" for m
  proof (rule insert_session_ok [OF assms(1)])
    show "set (mg_children s) \<subseteq> set (mg_children m)" if "hm_get (la_sessions la) token = Some s" for s
      using that assms(2) by simp
    show "running sys p \<or> p < os_next_pid sys1 \<and> p \<in> set (mg_children m)" if "running sys1 p" for p
      using spawn_running [OF s, of p] that \<open>\<And>c. child = Some c \<Longrightarrow> mg_children m = [c]\<close> by auto
    show "os_next_pid sys \<le> os_next_pid sys1" using spawn_running [OF s] by blast
  qed
  then show ?thesis using s by (auto simp: handle_session_requested_def Let_def split: option.split)
qed

lemma authenticated_ok:
  assumes "launcher_ok (la, sys)"
  shows "launcher_ok (fst (handle_session_authenticated executable config token user (la, sys)))"
proof (cases "hm_get (la_sessions la) token")
  case None
  then show ?thesis using assms by (simp add: handle_session_authenticated_def)
next
  case (Some s)
  obtain sys1 children where l: "launch_components executable (mg_wayland_display s) (launch_list config) sys = (sys1, children)"
    by fastforce
  let ?m = "s\<lparr> mg_user := Some user, mg_children := mg_children s @ children \<rparr>"
  have "launcher_ok (la\<lparr> la_sessions := hm_insert token ?m (la_sessions la) \<rparr>, sys1)"
  proof (rule insert_session_ok [OF assms])
    show "set (mg_children s') \<subseteq> set (mg_children ?m)" if "hm_get (la_sessions la) token = Some s'" for s'
      using that Some by simp
    show "running sys p \<or> p < os_next_pid sys1 \<and> p \<in> set (mg_children ?m)" if "running sys1 p" for p
      using launch_components_running [OF l, of p] that by auto
    show "os_next_pid sys \<le> os_next_pid sys1" using launch_components_running [OF l] by blast
  qed
  then show ?thesis using Some l by (simp add: handle_session_authenticated_def)
qed

lemma remove_session_ok:
  assumes "launcher_ok (la, sys)"
  shows "launcher_ok (fst (remove_session token (la, sys)))"
proof (cases "hm_get (la_sessions la) token")
  case None
  then show ?thesis using assms by (simp add: remove_session_def)
next
  case (Some s)
  note ok = launcher_okD [OF assms]
  have "launcher_ok (la\<lparr> la_sessions := hm_remove token (la_sessions la) \<rparr>, fold kill (mg_children s) sys)"
  proof (rule launcher_okI)
    show "hm_wf (la_sessions (la\<lparr> la_sessions := hm_remove token (la_sessions la) \<rparr>))" using ok(1) by simp
    fix p assume "running (fold kill (mg_children s) sys) p"
    then have p: "running sys p" "p \<notin> set (mg_children s)" by simp_all
    obtain t m where "hm_get (la_sessions la) t = Some m" "p \<in> set (mg_children m)" using ok(3) [OF p(1)] by blast
    with p Some have "child_of (la\<lparr> la_sessions := hm_remove token (la_sessions la) \<rparr>) p t"
      by (auto simp: child_of_def)
    then show "p < os_next_pid (fold kill (mg_children s) sys)
        \<and> (\<exists>t. child_of (la\<lparr> la_sessions := hm_remove token (la_sessions la) \<rparr>) p t)"
      using ok(2) [OF p(1)] by auto
  qed
  then show ?thesis using Some by (simp add: remove_session_def)
qed

text \<open>No session is requested again while it is managed.\<close>

fun fresh_request :: "launcher_op \<Rightarrow> launcher \<times> os \<Rightarrow> bool" where
  "fresh_request (Request (SessionRequested token display)) st = (hm_get (la_sessions (fst st)) token = None)"
| "fresh_request _ st = True"

lemma launcher_step_ok:
  assumes "launcher_ok st" "fresh_request op st"
  shows "launcher_ok (launcher_step executable config op st)"
proof -
  obtain la sys where st [simp]: "st = (la, sys)" by fastforce
  show ?thesis
  proof (cases op)
    case (Exited pid)
    then show ?thesis using assms(1) by (simp add: launcher_ok_def)
  next
    case (Request r)
    show ?thesis
    proof (cases r)
      case (SessionRequested token display)
      then show ?thesis using requested_ok [of la sys token executable display] assms Request
        by (simp add: split_beta)
    next
      case (SessionAuthenticated token user)
      then show ?thesis using authenticated_ok [of la sys executable config token user] assms(1) Request
        by (simp add: split_beta)
    next
      case (SessionLogout token i)
      then show ?thesis using remove_session_ok [of la sys token] assms(1) Request
        by (simp add: handle_session_logout_def)
    next
      case ListManagedSessions
      then show ?thesis using assms(1) Request by simp
    next
      case (KillSession token)
      then show ?thesis using remove_session_ok [of la sys token] assms(1) Request
        by (auto simp: kill_session_def split: prod.split bool.split)
    qed
  qed
qed

fun fresh_requests :: "(string \<Rightarrow> bool) \<Rightarrow> session_config \<Rightarrow> launcher_op list \<Rightarrow> launcher \<times> os \<Rightarrow> bool" where
  "fresh_requests executable config [] st = True"
| "fresh_requests executable config (op # ops) st =
     (fresh_request op st \<and> fresh_requests executable config ops (launcher_step executable config op st))"

lemma launcher_run_ok:
  "launcher_ok st \<Longrightarrow> fresh_requests executable config ops st \<Longrightarrow>
     launcher_ok (fold (launcher_step executable config) ops st)"
  by (induction ops arbitrary: st) (simp_all add: launcher_step_ok)

text \<open>
  C34.  No process is left behind.  As long as no session is requested again while it is managed, every
  process the daemon started and that is still running belongs to a managed session; so when all
  sessions have been logged out or killed, nothing is running any more.
\<close>
theorem no_orphans:
  assumes "fresh_requests executable config ops (launcher_new, \<lparr> os_next_pid = n, os_running = [] \<rparr>)"
    and "fold (launcher_step executable config) ops (launcher_new, \<lparr> os_next_pid = n, os_running = [] \<rparr>) = (la, sys)"
  shows "(\<forall>pid. running sys pid \<longrightarrow> (\<exists>token. child_of la pid token)) \<and> (la_sessions la = [] \<longrightarrow> os_running sys = [])"
proof -
  have "launcher_ok (launcher_new, \<lparr> os_next_pid = n, os_running = [] \<rparr>)"
    by (simp add: launcher_ok_def launcher_new_def running_def)
  from launcher_run_ok [OF this assms(1)] assms(2) have ok: "launcher_ok (la, sys)" by simp
  have "False" if "la_sessions la = []" "os_running sys \<noteq> []"
  proof -
    from that(2) have "running sys (fst (hd (os_running sys)))" by (simp add: running_def)
    from launcher_okD(3) [OF ok this] that(1) show False by simp
  qed
  with ok show ?thesis by (auto simp: launcher_ok_def)
qed

text \<open>The witness: two sessions come and go, one of them with a desktop.\<close>

definition sample_ops :: "launcher_op list" where
  "sample_ops = [Request (SessionRequested ''t'' ''wayland-1''), Request (SessionRequested ''u'' ''wayland-1''),
     Request (SessionAuthenticated ''t'' ''ann''), Exited 100, Request (SessionLogout ''t'' 1), Request (KillSession ''u'')]"

theorem no_orphans_witness:
  "let (la, sys) = fold (launcher_step (\<lambda>_. True) session_config_default) sample_ops (launcher_new, \<lparr> os_next_pid = 100, os_running = [] \<rparr>)
   in la_sessions la = [] \<and> os_running sys = []"
proof -
  let ?st = "(launcher_new, \<lparr> os_next_pid = 100, os_running = [] \<rparr>)"
  obtain la sys where run: "fold (launcher_step (\<lambda>_. True) session_config_default) sample_ops ?st = (la, sys)" by fastforce
  have fresh: "fresh_requests (\<lambda>_. True) session_config_default sample_ops ?st"
    by (simp add: sample_ops_def launcher_new_def handle_session_requested_def spawn_def Let_def)
  have empty: "la_sessions la = []"
    using run by (auto simp: sample_ops_def launcher_new_def handle_session_requested_def spawn_def Let_def
        handle_session_authenticated_def handle_session_logout_def kill_session_def remove_session_def
        session_config_default_def launch_list_def opt_entry_def split_beta split: if_splits)
  from no_orphans [OF fresh run] empty show ?thesis by (simp add: run)
qed

subsection \<open>A session requested twice\<close>

definition orphan :: "nat \<Rightarrow> launcher \<times> os \<Rightarrow> bool" where
  "orphan pid st \<longleftrightarrow> running (snd st) pid \<and> pid < os_next_pid (snd st) \<and> (\<forall>token. \<not> child_of (fst st) pid token)"

lemma remove_session_orphan:
  assumes "orphan pid st"
  shows "orphan pid (fst (remove_session token st))"
proof -
  have "pid \<notin> set (mg_children s)" if "hm_get (la_sessions (fst st)) token = Some s" for s
    using assms that by (auto simp: orphan_def child_of_def)
  with assms show ?thesis
    by (auto simp: remove_session_def orphan_def child_of_def split: option.split prod.split if_splits)
qed

lemma insert_orphan:
  assumes "orphan pid (la, sys)" "running sys1 pid" "pid < os_next_pid sys1" "pid \<notin> set (mg_children m)"
  shows "orphan pid (la\<lparr> la_sessions := hm_insert token m (la_sessions la) \<rparr>, sys1)"
  using assms by (auto simp: orphan_def child_of_def split: if_splits)

lemma requested_orphan:
  assumes "orphan pid (la, sys)"
  shows "orphan pid (fst (handle_session_requested executable token display (la, sys)))"
proof -
  obtain sys1 child where s: "spawn executable (la_greeter_bin la) display sys = (sys1, child)" by fastforce
  note sp = spawn_running [OF s, of pid]
  have p: "running sys pid" "pid < os_next_pid sys" using assms by (simp_all add: orphan_def)
  show ?thesis
    using sp p s by (auto simp: handle_session_requested_def Let_def intro!: insert_orphan [OF assms] split: option.split)
qed

lemma authenticated_orphan:
  assumes "orphan pid (la, sys)"
  shows "orphan pid (fst (handle_session_authenticated executable config token user (la, sys)))"
proof (cases "hm_get (la_sessions la) token")
  case (Some s)
  obtain sys1 children where l: "launch_components executable (mg_wayland_display s) (launch_list config) sys = (sys1, children)"
    by fastforce
  note lc = launch_components_running [OF l, of pid]
  have p: "running sys pid" "pid < os_next_pid sys" "pid \<notin> set (mg_children s)"
    using assms Some by (auto simp: orphan_def child_of_def)
  show ?thesis
    using lc p l Some by (auto simp: handle_session_authenticated_def intro!: insert_orphan [OF assms])
qed (use assms in \<open>simp add: handle_session_authenticated_def\<close>)

lemma launcher_step_orphan:
  assumes "orphan pid st" "op \<noteq> Exited pid"
  shows "orphan pid (launcher_step executable config op st)"
proof -
  obtain la sys where st [simp]: "st = (la, sys)" by fastforce
  show ?thesis
  proof (cases op)
    case (Exited q)
    then show ?thesis using assms by (auto simp: orphan_def)
  next
    case (Request r)
    then show ?thesis
      using assms(1) requested_orphan [of pid la sys] authenticated_orphan [of pid la sys] remove_session_orphan [of pid st]
      by (cases r) (auto simp: split_beta handle_session_logout_def kill_session_def split: prod.split bool.split)
  qed
qed

text \<open>
  A session requested again while it is managed (a compositor that restarts without its database and
  meets the same token) orphans its processes: the first greeter is in no session's list any more,
  and no request, a logout of the session included, ever kills it.
\<close>
theorem rerequest_orphans:
  assumes "executable ''wrlogin''" "Exited n \<notin> set later"
    and "fold (launcher_step executable config)
           (Request (SessionRequested token d1) # Request (SessionRequested token d2) # later)
           (launcher_new, \<lparr> os_next_pid = n, os_running = [] \<rparr>) = (la, sys)"
  shows "running sys n \<and> (\<forall>t. \<not> child_of la n t)"
proof -
  let ?st = "fold (launcher_step executable config) [Request (SessionRequested token d1), Request (SessionRequested token d2)]
      (launcher_new, \<lparr> os_next_pid = n, os_running = [] \<rparr>)"
  have "orphan n ?st"
    using assms(1) by (auto simp: handle_session_requested_def launcher_new_def spawn_def Let_def orphan_def running_def child_of_def
        split: if_splits)
  then have "orphan n (fold (launcher_step executable config) later ?st)"
    using assms(2) by (induction later arbitrary: n rule: rev_induct) (auto simp: launcher_step_orphan)
  with assms(3) show ?thesis by (simp add: orphan_def)
qed

theorem rerequest_orphans_witness:
  "let (la, sys) = fold (launcher_step (\<lambda>_. True) session_config_default)
         [Request (SessionRequested ''t'' ''wayland-1''), Request (SessionRequested ''t'' ''wayland-2''), Request (SessionLogout ''t'' 1)]
         (launcher_new, \<lparr> os_next_pid = 1, os_running = [] \<rparr>)
   in running sys 1 \<and> (\<forall>t. \<not> child_of la 1 t)"
proof -
  let ?later = "[Request (SessionLogout ''t'' 1)]"
  obtain la sys where run: "fold (launcher_step (\<lambda>_. True) session_config_default)
         (Request (SessionRequested ''t'' ''wayland-1'') # Request (SessionRequested ''t'' ''wayland-2'') # ?later)
         (launcher_new, \<lparr> os_next_pid = 1, os_running = [] \<rparr>) = (la, sys)" by fastforce
  have "Exited 1 \<notin> set ?later" by simp
  from rerequest_orphans [OF _ this run] show ?thesis unfolding run Let_def prod.case by simp
qed

subsection \<open>The greeter the daemon starts\<close>

text \<open>
  C35.  The greeter of the reference launcher cannot log anybody in.  The daemon starts it without
  \<open>WAYRAY_SESSION_TOKEN\<close> and with an empty standard input.  With an empty input it prompts for ever,
  whatever its token; and without the variable it authenticates as ''unknown'', so as long as no
  session has that token it prompts for ever whatever is typed.
\<close>
theorem greeter_cannot_log_in:
  "login_loop executable config reachable fuel token [] st = None
   \<and> (hm_get (la_sessions (fst st)) ''unknown'' = None \<longrightarrow>
        login_loop executable config reachable fuel (greeter_token None) lines st = None)"
proof
  show "login_loop executable config reachable fuel token [] st = None"
    by (induction fuel) simp_all
  show "hm_get (la_sessions (fst st)) ''unknown'' = None \<longrightarrow>
        login_loop executable config reachable fuel (greeter_token None) lines st = None"
  proof (induction fuel arbitrary: lines)
    case (Suc fuel)
    then show ?case
      by (cases st) (auto simp: greeter_token_def handle_session_authenticated_def Let_def split: prod.split)
  qed simp
qed

theorem greeter_cannot_log_in_witness:
  "login_loop (\<lambda>_. True) session_config_default (\<lambda>_. True) 100 (greeter_token None) [''ann'', ''secret'', ''ann'', ''secret'']
     (fst (handle (\<lambda>_. True) session_config_default (SessionRequested ''t'' ''wayland-1'') (launcher_new, \<lparr> os_next_pid = 1, os_running = [] \<rparr>)))
     = None"
proof -
  have "hm_get (la_sessions (fst (fst (handle (\<lambda>_. True) session_config_default (SessionRequested ''t'' ''wayland-1'')
      (launcher_new, \<lparr> os_next_pid = 1, os_running = [] \<rparr>))))) ''unknown'' = None"
    by (simp add: handle_session_requested_def launcher_new_def spawn_def Let_def)
  then show ?thesis using greeter_cannot_log_in by blast
qed

end
