(* ===== verification/Transport.thy ===== *)
theory Transport
  imports Launcher Headless
begin

text \<open>
  The IPC transport of the launcher and admin protocols (\<open>crates/wayray-protocol/src/transport.rs\<close>): JSON
  lines over a Unix socket, and the admin socket of the server (\<open>crates/wrsrvd/src/admin.rs\<close>).  The bytes of
  one direction of a connection are a string; \<open>serde_json\<close> is a pair of parameters (\<open>print\<close> of a value, \<open>parse\<close> of
  a text).  The doors of illumos, an optional feature, are calls of a procedure in the daemon's process.
\<close>

subsection \<open>Lines\<close>

definition default_ipc_path :: "string option \<Rightarrow> string" where
  "default_ipc_path xdg_runtime_dir =
     path_join (case xdg_runtime_dir of None \<Rightarrow> ''/tmp'' | Some d \<Rightarrow> d) ''wayray-launcher.sock''"

text \<open>\<open>BufRead::read_line\<close>: the bytes up to the next newline, with it, or all that are left.\<close>

definition read_line :: "string \<Rightarrow> string \<times> string" where
  "read_line s =
     (case dropWhile (\<lambda>c. c \<noteq> newline) s of
        [] \<Rightarrow> (s, [])
      | nl # rest \<Rightarrow> (takeWhile (\<lambda>c. c \<noteq> newline) s @ [nl], rest))"

text \<open>A line that is not UTF-8 is an error of \<open>read_line\<close>.\<close>

definition is_utf8 :: "string \<Rightarrow> bool" where
  "is_utf8 s \<longleftrightarrow> list_all (\<lambda>c. utf8_char (map (\<lambda>b. of_nat (of_char b)) c)) (str_chars s)"

lemma read_line_length: "s \<noteq> [] \<Longrightarrow> length (snd (read_line s)) < length s"
  using length_dropWhile_le [of "\<lambda>c. c \<noteq> newline" s]
  by (auto simp: read_line_def split: list.split)

lemma read_line_nonempty: "fst (read_line s) = [] \<longleftrightarrow> s = []"
  by (auto simp: read_line_def split: list.split)

lemma read_line_line: "newline \<notin> set l \<Longrightarrow> read_line (l @ newline # rest) = (l @ [newline], rest)"
  by (simp add: read_line_def takeWhile_append dropWhile_append)

subsection \<open>The server side\<close>

text \<open>
  \<open>serve_connection\<close> on the bytes a client sends before it shuts its side down: the state after it, the bytes sent
  back, and whether it ended without an error.  \<open>accepted\<close> is the number of responses the client still
  takes; writing one more fails.
\<close>

function serve_connection ::
  "(string \<Rightarrow> 'req option) \<Rightarrow> ('resp \<Rightarrow> string) \<Rightarrow> ('req \<Rightarrow> 's \<Rightarrow> 's \<times> 'resp option) \<Rightarrow> nat \<Rightarrow> string \<Rightarrow> 's \<Rightarrow> ('s \<times> string) \<times> bool" where
  "serve_connection parse print handler accepted input st =
     (case read_line input of (line, rest) \<Rightarrow>
        if line = [] then ((st, []), True)
        else if \<not> is_utf8 line then ((st, []), False)
        else let trimmed = trim line in
          if trimmed = [] then serve_connection parse print handler accepted rest st
          else case parse trimmed of
                 None \<Rightarrow> serve_connection parse print handler accepted rest st
               | Some request \<Rightarrow>
                   (case handler request st of
                      (st1, None) \<Rightarrow> serve_connection parse print handler accepted rest st1
                    | (st1, Some response) \<Rightarrow>
                        if accepted = 0 then ((st1, []), False)
                        else case serve_connection parse print handler (accepted - 1) rest st1 of
                               ((st2, out), ended) \<Rightarrow> ((st2, print response @ newline # out), ended)))"
  by pat_completeness auto
termination
proof (relation "measure (\<lambda>(parse, print, handler, accepted, input, st). length input)", goal_cases)
  case (2 parse print handler accepted input st line rest trimmed)
  then show ?case using read_line_length [of input] read_line_nonempty [of input] by (auto simp: prod_eq_iff)
next
  case (3 parse print handler accepted input st line rest trimmed)
  then show ?case using read_line_length [of input] read_line_nonempty [of input] by (auto simp: prod_eq_iff)
next
  case (4 parse print handler accepted input st line rest trimmed)
  then show ?case using read_line_length [of input] read_line_nonempty [of input] by (auto simp: prod_eq_iff)
next
  case (5 parse print handler accepted input st line rest trimmed)
  then show ?case using read_line_length [of input] read_line_nonempty [of input] by (auto simp: prod_eq_iff)
qed simp

declare serve_connection.simps [simp del]

text \<open>
  What a listening socket yields: a failed accept, or a connection with the bytes it brings, the responses it
  takes and whether the client ever closes it.  An open connection without another whole line keeps the
  server waiting.
\<close>

datatype incoming = AcceptFailed | Incoming string nat bool

definition complete_lines :: "string \<Rightarrow> string" where
  "complete_lines s = rev (dropWhile (\<lambda>c. c \<noteq> newline) (rev s))"

text \<open>The connections in the order they were accepted; the bytes sent on each that was served.\<close>

fun serve_json ::
  "(string \<Rightarrow> 'req option) \<Rightarrow> ('resp \<Rightarrow> string) \<Rightarrow> ('req \<Rightarrow> 's \<Rightarrow> 's \<times> 'resp option) \<Rightarrow> incoming list \<Rightarrow> 's \<Rightarrow> 's \<times> string list" where
  "serve_json parse print handler [] st = (st, [])"
| "serve_json parse print handler (AcceptFailed # cs) st = serve_json parse print handler cs st"
| "serve_json parse print handler (Incoming input accepted closes # cs) st =
     (case serve_connection parse print handler accepted (if closes then input else complete_lines input) st of
        ((st1, out), ended) \<Rightarrow>
          if closes \<or> \<not> ended then (case serve_json parse print handler cs st1 of (st2, outs) \<Rightarrow> (st2, out # outs))
          else (st1, [out]))"

subsection \<open>The client side\<close>

text \<open>
  \<open>send_json\<close> against a serving peer: \<open>None\<close> when no response line ever comes (the peer waits for the next
  request), else the parsed response, or \<open>Some None\<close> when the text does not parse.
\<close>

definition send_json ::
  "('req \<Rightarrow> string) \<Rightarrow> (string \<Rightarrow> 'resp option) \<Rightarrow> (string \<Rightarrow> 'req option) \<Rightarrow> ('resp \<Rightarrow> string) \<Rightarrow> ('req \<Rightarrow> 's \<Rightarrow> 's \<times> 'resp option)
     \<Rightarrow> 'req \<Rightarrow> 's \<Rightarrow> 's \<times> 'resp option option" where
  "send_json print_req parse_resp parse_req print_resp handler request st =
     (case serve_connection parse_req print_resp handler 1 (print_req request @ [newline]) st of
        ((st1, out), ended) \<Rightarrow>
          (st1, if newline \<in> set out \<or> \<not> ended then Some (parse_resp (trim (fst (read_line out)))) else None))"

text \<open>\<open>send_json_notification\<close> writes its line and closes; it takes no response.\<close>

definition notification :: "('req \<Rightarrow> string) \<Rightarrow> 'req \<Rightarrow> incoming" where
  "notification print request = Incoming (print request @ [newline]) 0 True"

subsection \<open>The admin socket\<close>

text \<open>
  \<open>dispatch\<close>: the query goes to the main loop (\<open>loop_up\<close>: its channel still exists); \<open>answer\<close> is the reply that came
  within \<open>REPLY_TIMEOUT\<close>, if one did.
\<close>

definition REPLY_TIMEOUT :: nat where "REPLY_TIMEOUT = from_secs 5"

definition dispatch :: "bool \<Rightarrow> admin_response option \<Rightarrow> admin_response" where
  "dispatch loop_up answer =
     (if \<not> loop_up then AdminError ''compositor is shutting down''
      else case answer of Some response \<Rightarrow> response | None \<Rightarrow> AdminError ''compositor did not answer in time'')"

text \<open>
  The handler of the admin thread, while the main loop is in state \<open>h\<close> and answers each query with one drain
  of its queue after \<open>delay\<close>.
\<close>

definition admin_handler ::
  "string \<Rightarrow> clock \<Rightarrow> bool \<Rightarrow> nat \<Rightarrow> admin_request \<Rightarrow> headless \<Rightarrow> headless \<times> admin_response option" where
  "admin_handler version ck loop_up delay request h =
     (h, Some (dispatch loop_up
        (case drain_admin_queries version ck True [request] h of
           [AdminReply r] \<Rightarrow> if delay < REPLY_TIMEOUT then Some r else None
         | _ \<Rightarrow> None)))"

subsection \<open>Requests in, responses out\<close>

text \<open>What is used of \<open>serde_json\<close> for a value: its text is one line that reads back.\<close>

definition json_line :: "('a \<Rightarrow> string) \<Rightarrow> (string \<Rightarrow> 'a option) \<Rightarrow> 'a \<Rightarrow> bool" where
  "json_line print parse x \<longleftrightarrow> parse (print x) = Some x \<and> print x \<noteq> [] \<and> newline \<notin> set (print x) \<and> is_utf8 (print x)
     \<and> \<not> is_whitespace (hd (str_chars (print x))) \<and> \<not> is_whitespace (List.last (str_chars (print x)))"

lemma str_chars_newline: "str_chars (s @ [newline]) = str_chars s @ [[newline]]"
  by (subst str_chars_append) (simp_all add: char_start_def newline_def is_utf8_cont_def)

lemma newline_whitespace: "is_whitespace [newline]"
  by (simp add: newline_def is_whitespace_ascii)

lemma is_utf8_newline: "is_utf8 (s @ [newline]) \<longleftrightarrow> is_utf8 s"
  unfolding is_utf8_def str_chars_newline by (simp add: newline_def)

lemma trim_newline:
  assumes "s \<noteq> []" "\<not> is_whitespace (hd (str_chars s))" "\<not> is_whitespace (List.last (str_chars s))"
  shows "trim (s @ [newline]) = s"
proof -
  obtain c cs where cs: "str_chars s = c # cs" using str_chars_nonempty [OF assms(1)] by (cases "str_chars s") auto
  obtain d ds where ds: "rev (str_chars s) = d # ds" using cs by (cases "rev (str_chars s)") auto
  have "\<not> is_whitespace d" using assms(3) ds by (metis hd_rev list.sel(1))
  then have "dropWhile is_whitespace (rev (str_chars s)) = rev (str_chars s)" unfolding ds by simp
  moreover have "dropWhile is_whitespace (str_chars s @ [[newline]]) = str_chars s @ [[newline]]"
    using assms(2) cs by simp
  ultimately show ?thesis
    by (simp add: trim_def trim_end_chars_def str_chars_newline newline_whitespace)
qed

lemma trim_json: "json_line print parse x \<Longrightarrow> trim (print x @ [newline]) = print x"
  by (simp add: json_line_def trim_newline)

lemma serve_connection_end [simp]: "serve_connection parse print handler accepted [] st = ((st, []), True)"
  by (simp add: serve_connection.simps read_line_def)

lemma serve_connection_line:
  assumes "newline \<notin> set l" "is_utf8 l"
  shows "serve_connection parse print handler accepted (l @ newline # rest) st =
    (let trimmed = trim (l @ [newline]) in
     if trimmed = [] then serve_connection parse print handler accepted rest st
     else case parse trimmed of
            None \<Rightarrow> serve_connection parse print handler accepted rest st
          | Some request \<Rightarrow>
              (case handler request st of
                 (st1, None) \<Rightarrow> serve_connection parse print handler accepted rest st1
               | (st1, Some response) \<Rightarrow>
                   if accepted = 0 then ((st1, []), False)
                   else case serve_connection parse print handler (accepted - 1) rest st1 of
                          ((st2, out), ended) \<Rightarrow> ((st2, print response @ newline # out), ended)))"
  by (subst serve_connection.simps) (simp add: read_line_line [OF assms(1)] is_utf8_newline assms(2))

text \<open>The requests of a list of lines: blank and unparsable lines are none.\<close>

definition line_request :: "(string \<Rightarrow> 'req option) \<Rightarrow> string \<Rightarrow> 'req option" where
  "line_request parse l = (let t = trim (l @ [newline]) in if t = [] then None else parse t)"

text \<open>The handler on a list of requests: the state and the responses.\<close>

fun handle_all :: "('req \<Rightarrow> 's \<Rightarrow> 's \<times> 'resp option) \<Rightarrow> 'req list \<Rightarrow> 's \<Rightarrow> 's \<times> 'resp list" where
  "handle_all handler [] st = (st, [])"
| "handle_all handler (r # rs) st =
     (case handler r st of (st1, answer) \<Rightarrow>
        case handle_all handler rs st1 of (st2, answers) \<Rightarrow>
          (st2, (case answer of None \<Rightarrow> [] | Some a \<Rightarrow> [a]) @ answers))"

lemma serve_connection_lines:
  assumes "\<forall>l \<in> set ls. newline \<notin> set l \<and> is_utf8 l" "length ls \<le> accepted"
  shows "serve_connection parse print handler accepted (concat (map (\<lambda>l. l @ [newline]) ls)) st =
    (case handle_all handler (List.map_filter (line_request parse) ls) st of
       (st1, answers) \<Rightarrow> ((st1, concat (map (\<lambda>a. print a @ [newline]) answers)), True))"
  using assms
proof (induction ls arbitrary: st accepted)
  case (Cons l ls)
  have l: "newline \<notin> set l" "is_utf8 l" using Cons.prems(1) by simp_all
  note IH = Cons.IH [of accepted] Cons.IH [of "accepted - 1"]
  show ?case
  proof (cases "line_request parse l")
    case None
    then show ?thesis using Cons.prems IH(1)
      by (auto simp: serve_connection_line [OF l] line_request_def Let_def List.map_filter_simps split: if_splits)
  next
    case (Some r)
    obtain st1 answer where h: "handler r st = (st1, answer)" by fastforce
    show ?thesis using Some Cons.prems IH h
      by (cases answer) (auto simp: serve_connection_line [OF l] line_request_def Let_def List.map_filter_simps
          split: if_splits prod.split)
  qed
qed (simp add: List.map_filter_simps)

lemma send_json_handler:
  assumes "json_line print_req parse_req request"
    and "\<forall>response. snd (handler request st) = Some response \<longrightarrow> json_line print_resp parse_resp response"
  shows "send_json print_req parse_resp parse_req print_resp handler request st =
    (fst (handler request st), map_option Some (snd (handler request st)))"
proof -
  have l: "newline \<notin> set (print_req request)" "is_utf8 (print_req request)" "print_req request \<noteq> []"
    "parse_req (print_req request) = Some request"
    using assms(1) by (simp_all add: json_line_def)
  obtain st1 answer where h: "handler request st = (st1, answer)" by fastforce
  show ?thesis
  proof (cases answer)
    case None
    then show ?thesis
      by (simp add: send_json_def serve_connection_line [OF l(1,2)] trim_json [OF assms(1)] l h)
  next
    case (Some response)
    then have r: "json_line print_resp parse_resp response" using assms(2) h by simp
    then have "newline \<notin> set (print_resp response)" "parse_resp (print_resp response) = Some response"
      by (simp_all add: json_line_def)
    with Some show ?thesis
      by (simp add: send_json_def serve_connection_line [OF l(1,2)] trim_json [OF assms(1)] l h
          read_line_line [of "print_resp response" "[]", simplified] trim_json [OF r])
  qed
qed

text \<open>
  A request over the socket is a call of the handler: the caller gets exactly the handler's answer and
  the daemon's state is the handler's.  For a request the handler does not answer the caller would wait for
  ever; that is why a logout is sent as a notification.
\<close>
theorem transport_is_call:
  assumes "json_line print_req parse_req request"
    and "\<forall>response. snd (handler request st) = Some response \<longrightarrow> json_line print_resp parse_resp response"
  shows "send_json print_req parse_resp parse_req print_resp handler request st =
    (fst (handler request st), map_option Some (snd (handler request st)))"
  using assms by (rule send_json_handler)

text \<open>The witness: a daemon with a switch that answers the new position.\<close>

definition show_switch :: "bool \<Rightarrow> string" where "show_switch b = (if b then ''true'' else ''false'')"

definition read_switch :: "string \<Rightarrow> bool option" where
  "read_switch s = (if s = ''true'' then Some True else if s = ''false'' then Some False else None)"

lemma newline_char: "newline = CHR 0x0A"
  by (simp add: newline_def char_of_def bit_numeral_rec bit_0)

lemma switch_json: "json_line show_switch read_switch b"
proof -
  have "\<forall>c \<in> set (show_switch b). \<not> is_utf8_cont c" by (auto simp: show_switch_def is_utf8_cont_def)
  note chars = str_chars_ascii [OF this]
  show ?thesis
    by (cases b) (simp_all add: json_line_def is_utf8_def chars, simp_all add: show_switch_def read_switch_def newline_char
        is_whitespace_single is_utf8_cont_def)
qed

theorem transport_is_call_witness:
  "send_json show_switch read_switch read_switch show_switch (\<lambda>r st. (st \<noteq> r, Some (st \<noteq> r))) True False = (True, Some (Some True))"
  using transport_is_call [of show_switch read_switch True "\<lambda>r st. (st \<noteq> r, Some (st \<noteq> r))" False show_switch read_switch]
    switch_json by simp

subsection \<open>The link of the compositor over its socket\<close>

text \<open>The connections the link worker makes: a request waits for its response, a logout does not.\<close>

fun link_connections ::
  "(launcher_request \<Rightarrow> string) \<Rightarrow> string \<Rightarrow> (nat \<Rightarrow> bool) \<Rightarrow> nat \<Rightarrow> launcher_event list \<Rightarrow> incoming list" where
  "link_connections print display reachable n [] = []"
| "link_connections print display reachable n (e # es) =
     (if \<not> reachable n then []
      else case e of
             SessionCreated token \<Rightarrow> [Incoming (print (link_request display e) @ [newline]) 1 True]
           | SessionDestroyed token session_id \<Rightarrow> [notification print (link_request display e)])
     @ link_connections print display reachable (n + 1) es"

lemma serve_one_request:
  assumes "json_line print_req parse request" "snd (handler request st) \<noteq> None \<Longrightarrow> accepted \<noteq> 0"
  shows "fst (fst (serve_connection parse print handler accepted (print_req request @ [newline]) st)) = fst (handler request st)"
proof -
  have l: "newline \<notin> set (print_req request)" "is_utf8 (print_req request)" "print_req request \<noteq> []"
    "parse (print_req request) = Some request"
    using assms(1) by (simp_all add: json_line_def)
  show ?thesis
    using assms(2)
    by (cases "handler request st") (auto simp: serve_connection_line [OF l(1,2)] trim_json [OF assms(1)] l split: option.split)
qed

lemma serve_json_one:
  assumes "json_line print_req parse request" "snd (handler request st) \<noteq> None \<Longrightarrow> accepted \<noteq> 0"
  shows "fst (serve_json parse print handler (Incoming (print_req request @ [newline]) accepted True # cs) st)
       = fst (serve_json parse print handler cs (fst (handler request st)))"
  using serve_one_request [where print = print and handler = handler, OF assms] by (simp add: split_beta)

text \<open>
  C39.  The compositor drives the launcher daemon over its socket as if it called it: the daemon that serves the
  connections of the link worker, one event each and some of them lost, reaches the state the worker
  computes by calling its handler.
\<close>
theorem link_over_socket:
  assumes "\<forall>e \<in> set events. json_line print_req parse_req (link_request display e)"
  shows "fst (serve_json parse_req print_resp (handle executable config) (link_connections print_req display reachable n events) st)
       = link_worker executable config display reachable n events st"
  using assms
proof (induction events arbitrary: n st)
  case (Cons e es)
  have e: "json_line print_req parse_req (link_request display e)" using Cons.prems by simp
  note one = serve_json_one [where handler = "handle executable config" and print = print_resp, OF e]
  have IH: "fst (serve_json parse_req print_resp (handle executable config) (link_connections print_req display reachable m es) st')
      = link_worker executable config display reachable m es st'" for m st'
    using Cons.IH Cons.prems by simp
  show ?case
  proof (cases e)
    case (SessionCreated token)
    then show ?thesis using one [of st 1] IH [of "n + 1"] by simp
  next
    case (SessionDestroyed token i)
    then show ?thesis using one [of st 0] IH [of "n + 1"] by (simp add: notification_def)
  qed
qed simp

text \<open>The witness: the two requests of one session's life, written as the two positions of the switch.\<close>

definition show_request :: "launcher_request \<Rightarrow> string" where
  "show_request r = show_switch (r = SessionRequested ''t'' ''wayland-1'')"

definition read_request :: "string \<Rightarrow> launcher_request option" where
  "read_request s = map_option (\<lambda>b. if b then SessionRequested ''t'' ''wayland-1'' else SessionLogout ''t'' 1) (read_switch s)"

theorem link_over_socket_witness:
  "let st = (launcher_new, \<lparr> os_next_pid = 1, os_running = [] \<rparr>); events = [SessionCreated ''t'', SessionDestroyed ''t'' 1] in
   fst (serve_json read_request (\<lambda>_. ''{}'') (handle (\<lambda>_. True) session_config_default)
         (link_connections show_request ''wayland-1'' (\<lambda>_. True) 0 events) st)
     = link_worker (\<lambda>_. True) session_config_default ''wayland-1'' (\<lambda>_. True) 0 events st"
proof -
  let ?events = "[SessionCreated ''t'', SessionDestroyed ''t'' 1]"
  have "json_line show_request read_request (link_request ''wayland-1'' e)" if "e \<in> set ?events" for e
    using that switch_json [of "link_request ''wayland-1'' e = SessionRequested ''t'' ''wayland-1''"]
    by (auto simp: json_line_def show_request_def read_request_def)
  then show ?thesis unfolding Let_def by (intro link_over_socket) blast
qed

subsection \<open>Doors\<close>

text \<open>
  The daemon's process: \<open>HANDLER\<close> with the state of the handler behind its mutex, and whether a door at the path
  leads to \<open>launcher_door\<close>.  A panic of the handler ends the process, so the mutex is never poisoned.
\<close>

record 's door_process =
  dp_handler :: "'s option"
  dp_installed :: bool

datatype io_error = AlreadyExists | ConnectionRefused | InvalidData | OtherIoError

text \<open>\<open>created\<close> and \<open>attached\<close>: creating the door and installing it at the path succeed.\<close>

definition door_serve :: "bool \<Rightarrow> bool \<Rightarrow> 's \<Rightarrow> 's door_process \<Rightarrow> 's door_process \<times> io_error option" where
  "door_serve created attached st d =
     (if dp_handler d \<noteq> None then (d, Some AlreadyExists)
      else let d1 = d\<lparr> dp_handler := Some st \<rparr> in
           if \<not> created \<or> \<not> attached then (d1, Some OtherIoError) else (d1\<lparr> dp_installed := True \<rparr>, None))"

definition launcher_door ::
  "(string \<Rightarrow> 'req option) \<Rightarrow> ('resp \<Rightarrow> string) \<Rightarrow> ('req \<Rightarrow> 's \<Rightarrow> 's \<times> 'resp option) \<Rightarrow> string \<Rightarrow> 's door_process
     \<Rightarrow> 's door_process \<times> string" where
  "launcher_door parse print handler data d =
     (case parse data of
        None \<Rightarrow> (d, [])
      | Some request \<Rightarrow>
          (case dp_handler d of
             None \<Rightarrow> (d, [])
           | Some st \<Rightarrow>
               (case handler request st of
                  (st1, response) \<Rightarrow>
                    (d\<lparr> dp_handler := Some st1 \<rparr>, case response of None \<Rightarrow> [] | Some r \<Rightarrow> print r))))"

text \<open>\<open>called\<close>: the door call itself succeeds; one that fails does not reach the procedure.\<close>

definition door_send_request ::
  "('req \<Rightarrow> string) \<Rightarrow> (string \<Rightarrow> 'resp option) \<Rightarrow> (string \<Rightarrow> 'req option) \<Rightarrow> ('resp \<Rightarrow> string) \<Rightarrow> ('req \<Rightarrow> 's \<Rightarrow> 's \<times> 'resp option)
     \<Rightarrow> bool \<Rightarrow> 'req \<Rightarrow> 's door_process \<Rightarrow> 's door_process \<times> (io_error + 'resp)" where
  "door_send_request print_req parse_resp parse_req print_resp handler called request d =
     (if \<not> dp_installed d then (d, Inl ConnectionRefused)
      else if \<not> called then (d, Inl OtherIoError)
      else case launcher_door parse_req print_resp handler (print_req request) d of
             (d1, out) \<Rightarrow> (d1, case parse_resp out of None \<Rightarrow> Inl InvalidData | Some r \<Rightarrow> Inr r))"

definition door_send_notification ::
  "('req \<Rightarrow> string) \<Rightarrow> (string \<Rightarrow> 'req option) \<Rightarrow> ('resp \<Rightarrow> string) \<Rightarrow> ('req \<Rightarrow> 's \<Rightarrow> 's \<times> 'resp option)
     \<Rightarrow> bool \<Rightarrow> 'req \<Rightarrow> 's door_process \<Rightarrow> 's door_process \<times> io_error option" where
  "door_send_notification print_req parse_req print_resp handler called request d =
     (if \<not> dp_installed d then (d, Some ConnectionRefused)
      else if \<not> called then (d, Some OtherIoError)
      else (fst (launcher_door parse_req print_resp handler (print_req request) d), None))"

definition serving_door :: "'s \<Rightarrow> 's door_process" where
  "serving_door st = \<lparr> dp_handler = Some st, dp_installed = True \<rparr>"

lemma served_door: "fst (door_serve True True st \<lparr> dp_handler = None, dp_installed = False \<rparr>) = serving_door st"
  by (simp add: door_serve_def serving_door_def)

text \<open>
  A request through a door is the request through the socket: the same state and the same response.  Where
  the socket would wait for ever, for a request the handler does not answer, the door returns at once with
  an error, since the empty text is not JSON.
\<close>
theorem door_as_socket:
  assumes "json_line print_req parse_req request" "parse_resp [] = None"
    and "\<forall>response. snd (handler request st) = Some response \<longrightarrow> json_line print_resp parse_resp response"
  shows "door_send_request print_req parse_resp parse_req print_resp handler True request (serving_door st) =
    (case send_json print_req parse_resp parse_req print_resp handler request st of
       (st1, answer) \<Rightarrow> (serving_door st1, case answer of Some (Some r) \<Rightarrow> Inr r | _ \<Rightarrow> Inl InvalidData))"
  using assms send_json_handler [where handler = handler and print_resp = print_resp and parse_resp = parse_resp, OF assms(1,3)]
  by (cases "handler request st")
    (auto simp: door_send_request_def launcher_door_def serving_door_def json_line_def split: option.split)

theorem door_as_socket_witness:
  "door_send_request show_switch read_switch read_switch show_switch (\<lambda>r st. (st \<noteq> r, if r then Some st else None)) True True (serving_door False) =
    (case send_json show_switch read_switch read_switch show_switch (\<lambda>r st. (st \<noteq> r, if r then Some st else None)) True False of
       (st1, answer) \<Rightarrow> (serving_door st1, case answer of Some (Some r) \<Rightarrow> Inr r | _ \<Rightarrow> Inl InvalidData))"
  by (rule door_as_socket) (simp_all add: switch_json, simp add: read_switch_def)

text \<open>The calls the link worker makes through a door, some of them lost.\<close>

fun link_doors ::
  "(launcher_request \<Rightarrow> string) \<Rightarrow> (string \<Rightarrow> launcher_response option) \<Rightarrow> (string \<Rightarrow> launcher_request option) \<Rightarrow> (launcher_response \<Rightarrow> string)
     \<Rightarrow> (launcher_request \<Rightarrow> 's \<Rightarrow> 's \<times> launcher_response option) \<Rightarrow> string \<Rightarrow> (nat \<Rightarrow> bool) \<Rightarrow> nat \<Rightarrow> launcher_event list \<Rightarrow> 's door_process
     \<Rightarrow> 's door_process" where
  "link_doors print_req parse_resp parse_req print_resp handler display reachable n [] d = d"
| "link_doors print_req parse_resp parse_req print_resp handler display reachable n (e # es) d =
     link_doors print_req parse_resp parse_req print_resp handler display reachable (n + 1) es
       (case e of
          SessionCreated token \<Rightarrow>
            fst (door_send_request print_req parse_resp parse_req print_resp handler (reachable n) (link_request display e) d)
        | SessionDestroyed token session_id \<Rightarrow>
            fst (door_send_notification print_req parse_req print_resp handler (reachable n) (link_request display e) d))"

theorem link_over_doors:
  assumes "\<forall>e \<in> set events. json_line print_req parse_req (link_request display e)"
  shows "link_doors print_req parse_resp parse_req print_resp (handle executable config) display reachable n events (serving_door st)
       = serving_door (link_worker executable config display reachable n events st)"
  using assms
proof (induction events arbitrary: n st)
  case (Cons e es)
  have p: "parse_req (print_req (link_request display e)) = Some (link_request display e)"
    using Cons.prems by (simp add: json_line_def)
  define st1 where "st1 = (if reachable n then fst (handle executable config (link_request display e) st) else st)"
  have door: "fst (launcher_door parse_req print_resp (handle executable config) (print_req (link_request display e)) (serving_door st))
      = serving_door (fst (handle executable config (link_request display e) st))"
    by (simp add: launcher_door_def serving_door_def p split: prod.split)
  have "link_doors print_req parse_resp parse_req print_resp (handle executable config) display reachable n (e # es) (serving_door st)
      = link_doors print_req parse_resp parse_req print_resp (handle executable config) display reachable (n + 1) es (serving_door st1)"
    using door by (cases e) (auto simp: door_send_request_def door_send_notification_def st1_def serving_door_def split: prod.split)
  also have "\<dots> = serving_door (link_worker executable config display reachable (n + 1) es st1)"
    by (rule Cons.IH) (use Cons.prems in simp)
  finally show ?case by (simp only: link_worker.simps st1_def)
qed simp

theorem link_over_doors_witness:
  "let st = (launcher_new, \<lparr> os_next_pid = 1, os_running = [] \<rparr>); events = [SessionCreated ''t'', SessionDestroyed ''t'' 1] in
   link_doors show_request (\<lambda>_. None) read_request (\<lambda>_. ''{}'') (handle (\<lambda>_. True) session_config_default) ''wayland-1'' (\<lambda>_. True) 0 events (serving_door st)
     = serving_door (link_worker (\<lambda>_. True) session_config_default ''wayland-1'' (\<lambda>_. True) 0 events st)"
proof -
  let ?events = "[SessionCreated ''t'', SessionDestroyed ''t'' 1]"
  have "json_line show_request read_request (link_request ''wayland-1'' e)" if "e \<in> set ?events" for e
    using that switch_json [of "link_request ''wayland-1'' e = SessionRequested ''t'' ''wayland-1''"]
    by (auto simp: json_line_def show_request_def read_request_def)
  then show ?thesis unfolding Let_def by (intro link_over_doors) blast
qed

end
