(* ===== verification/Commands.thy ===== *)
theory Commands
  imports Transport
begin

text \<open>
  The command lines: the options of the server (\<open>crates/wrsrvd/src/main.rs\<close>) and the administration command
  \<open>wradm\<close> (\<open>crates/wradm/src/main.rs\<close>).  Standard output and standard error are lists of lines; an
  environment variable is an optional string.
\<close>

subsection \<open>Options\<close>

text \<open>\<open>args.windows(2).find(|w| w[0] == flag).map(|w| w[1])\<close>\<close>

fun window_value :: "string \<Rightarrow> string list \<Rightarrow> string option" where
  "window_value flag (a # b # rest) = (if a = flag then Some b else window_value flag (b # rest))"
| "window_value flag args = None"

definition or_else :: "'a option \<Rightarrow> 'a option \<Rightarrow> 'a option" where
  "or_else a b = (case a of None \<Rightarrow> b | Some x \<Rightarrow> Some x)"

record server_env =
  en_launcher_socket :: "string option"
  en_admin_socket :: "string option"
  en_state_db :: "string option"
  en_runtime_dir :: "string option"

definition use_winit :: "string list \<Rightarrow> bool" where
  "use_winit args = list_ex (\<lambda>(a, b). a = ''--backend'' \<and> b = ''winit'') (zip args (tl args))"

definition launcher_socket :: "server_env \<Rightarrow> string list \<Rightarrow> string option" where
  "launcher_socket env args = or_else (window_value ''--launcher-socket'' args) (en_launcher_socket env)"

definition admin_socket :: "server_env \<Rightarrow> string list \<Rightarrow> string option" where
  "admin_socket env args =
     (case position (\<lambda>a. a = ''--admin-socket'') args of
        Some i \<Rightarrow>
          Some (if i + 1 < length args \<and> \<not> starts_with (args ! (i + 1)) ''--'' then args ! (i + 1)
                else default_admin_socket_path (en_runtime_dir env))
      | None \<Rightarrow> en_admin_socket env)"

definition state_db :: "server_env \<Rightarrow> string list \<Rightarrow> string option" where
  "state_db env args = or_else (window_value ''--state-db'' args) (en_state_db env)"

text \<open>An explicit cluster file that does not load stops the server (\<open>Inl\<close>).\<close>

definition server_cluster ::
  "(string \<Rightarrow> config_error + cluster_config) \<Rightarrow> cluster_config \<Rightarrow> string list \<Rightarrow> config_error + cluster_config" where
  "server_cluster load default_config args =
     (case window_value ''--cluster'' args of
        Some path \<Rightarrow> load path
      | None \<Rightarrow> Inr default_config)"

subsection \<open>Output\<close>

text \<open>\<open>{:<n}\<close> pads with spaces to \<open>n\<close> characters.\<close>

definition pad :: "nat \<Rightarrow> string \<Rightarrow> string" where
  "pad n s = s @ replicate (n - length (str_chars s)) (CHR '' '')"

definition human_duration :: "nat \<Rightarrow> string" where
  "human_duration secs =
     (let d = secs div 86400; h = secs mod 86400 div 3600; m = secs mod 3600 div 60; s = secs mod 60 in
      if 0 < d then show_nat d @ ''d'' @ show_nat h @ ''h''
      else if 0 < h then show_nat h @ ''h'' @ show_nat m @ ''m''
      else if 0 < m then show_nat m @ ''m'' @ show_nat s @ ''s''
      else show_nat s @ ''s'')"

definition or_dash :: "string option \<Rightarrow> string" where
  "or_dash s = (case s of None \<Rightarrow> ''-'' | Some x \<Rightarrow> x)"

definition session_row :: "session_entry \<Rightarrow> string" where
  "session_row s =
     pad 6 (show_nat (unat (se_id s))) @ ''  '' @ pad 12 (se_token_prefix s) @ ''  '' @ pad 16 (or_dash (se_user s)) @ ''  ''
     @ pad 10 (se_state s) @ ''  '' @ pad 8 (human_duration (se_uptime_secs s)) @ ''  '' @ or_dash (se_client_addr s)"

definition print_sessions :: "session_entry list \<Rightarrow> string list" where
  "print_sessions sessions =
     (if sessions = [] then [''No sessions.'']
      else (pad 6 ''ID'' @ ''  '' @ pad 12 ''TOKEN'' @ ''  '' @ pad 16 ''USER'' @ ''  '' @ pad 10 ''STATE'' @ ''  '' @ pad 8 ''UPTIME''
            @ ''  CLIENT'') # map session_row sessions)"

definition print_status :: "server_status \<Rightarrow> string list" where
  "print_status status =
     [''Server:    wrsrvd '' @ ss_version status,
      ''Uptime:    '' @ human_duration (ss_uptime_secs status),
      ''Sessions:  '' @ show_nat (sc_active (ss_sessions status)) @ '' active, ''
        @ show_nat (sc_suspended (ss_sessions status)) @ '' suspended, ''
        @ show_nat (sc_creating (ss_sessions status)) @ '' creating, ''
        @ show_nat (sc_destroyed (ss_sessions status)) @ '' destroyed'',
      if 0 < ss_cluster_peers status then ''Cluster:   '' @ show_nat (ss_cluster_peers status) @ '' peer(s)''
      else ''Cluster:   single-server'']"

definition print_usage :: "string list" where
  "print_usage =
     [''Usage: wradm <command> [args]'', '''', ''Commands:'',
      ''  list            List launcher-managed sessions (wrsessd)'',
      ''  kill <token>    Kill a launcher-managed session by token'',
      ''  sessions        List compositor sessions (wrsrvd)'',
      ''  status          Show compositor server status (wrsrvd)'',
      '''', ''Options:'',
      ''  --server-socket <path>   wrsrvd admin socket (sessions/status)'']"

definition managed_row :: "session_info \<Rightarrow> string" where
  "managed_row s = pad 36 (sf_token s) @ ''  '' @ pad 16 (or_dash (sf_user s)) @ ''  '' @ show_nat (sf_child_count s)"

definition print_managed :: "session_info list \<Rightarrow> string list" where
  "print_managed sessions =
     (if sessions = [] then [''No active sessions.'']
      else (pad 36 ''TOKEN'' @ ''  '' @ pad 16 ''USER'' @ ''  PROCESSES'') # map managed_row sessions)"

subsection \<open>The commands\<close>

text \<open>What a run prints on the two outputs, and its exit code.  The text of an error that comes from a library is not kept.\<close>

record run_result =
  rr_stdout :: "string list"
  rr_stderr :: "string list"
  rr_code :: nat

definition ok_run :: "string list \<Rightarrow> run_result" where
  "ok_run ls = \<lparr> rr_stdout = ls, rr_stderr = [], rr_code = 0 \<rparr>"

definition err_run :: "nat \<Rightarrow> string list \<Rightarrow> run_result" where
  "err_run code ls = \<lparr> rr_stdout = [], rr_stderr = ls, rr_code = code \<rparr>"

definition wradm_ipc_path :: "server_env \<Rightarrow> string" where
  "wradm_ipc_path env =
     (case en_launcher_socket env of Some p \<Rightarrow> p | None \<Rightarrow> default_ipc_path (en_runtime_dir env))"

definition wradm_admin_path :: "server_env \<Rightarrow> string list \<Rightarrow> string" where
  "wradm_admin_path env args =
     (case or_else (window_value ''--server-socket'' args) (en_admin_socket env) of
        Some p \<Rightarrow> p
      | None \<Rightarrow> default_admin_socket_path (en_runtime_dir env))"

text \<open>
  \<open>main\<close>; \<open>send path request\<close> and \<open>send_admin path request\<close> are the calls of the two daemons, \<open>None\<close> an error of
  the transport.
\<close>

definition wradm_main ::
  "(string \<Rightarrow> launcher_request \<Rightarrow> launcher_response option) \<Rightarrow> (string \<Rightarrow> admin_request \<Rightarrow> admin_response option)
     \<Rightarrow> server_env \<Rightarrow> string list \<Rightarrow> run_result" where
  "wradm_main send send_admin env args =
     (if length args < 2 then err_run 1 print_usage
      else if args ! 1 = ''list'' then
        (case send (wradm_ipc_path env) ListManagedSessions of
           None \<Rightarrow> err_run 1 [''launcher communication failed'']
         | Some (ManagedSessions sessions) \<Rightarrow> ok_run (print_managed sessions)
         | Some _ \<Rightarrow> err_run 0 [''Unexpected response''])
      else if args ! 1 = ''kill'' then
        (if length args < 3 then err_run 1 [''Usage: wradm kill <token>'']
         else case send (wradm_ipc_path env) (KillSession (args ! 2)) of
                None \<Rightarrow> err_run 1 [''launcher communication failed'']
              | Some (SessionKilled token) \<Rightarrow> ok_run [''Session '' @ token @ '' killed.'']
              | Some (LauncherError token message) \<Rightarrow> err_run 1 [''Error: '' @ message]
              | Some _ \<Rightarrow> err_run 0 [''Unexpected response''])
      else if args ! 1 = ''sessions'' then
        (case send_admin (wradm_admin_path env args) ListSessions of
           None \<Rightarrow> err_run 1 [''compositor admin communication failed'']
         | Some (SessionList sessions) \<Rightarrow> ok_run (print_sessions sessions)
         | Some (AdminError message) \<Rightarrow> err_run 1 [''Error: '' @ message]
         | Some _ \<Rightarrow> err_run 0 [''Unexpected response''])
      else if args ! 1 = ''status'' then
        (case send_admin (wradm_admin_path env args) ServerStatusReq of
           None \<Rightarrow> err_run 1 [''compositor admin communication failed'']
         | Some (ServerStatus status) \<Rightarrow> ok_run (print_status status)
         | Some (AdminError message) \<Rightarrow> err_run 1 [''Error: '' @ message]
         | Some _ \<Rightarrow> err_run 0 [''Unexpected response''])
      else err_run 1 ((''Unknown command: '' @ args ! 1) # print_usage))"

subsection \<open>wradm against a running server\<close>

text \<open>
  \<open>send_admin\<close> of a \<open>wradm\<close> whose peer is the admin thread of the server in state \<open>h\<close> at \<open>path\<close>; nobody
  listens elsewhere.
\<close>

definition admin_call ::
  "(admin_request \<Rightarrow> string) \<Rightarrow> (string \<Rightarrow> admin_response option) \<Rightarrow> (string \<Rightarrow> admin_request option) \<Rightarrow> (admin_response \<Rightarrow> string)
     \<Rightarrow> string \<Rightarrow> clock \<Rightarrow> nat \<Rightarrow> string \<Rightarrow> headless \<Rightarrow> string \<Rightarrow> admin_request \<Rightarrow> admin_response option" where
  "admin_call print_req parse_resp parse_req print_resp version ck delay path h p request =
     (if p \<noteq> path then None
      else case snd (send_json print_req parse_resp parse_req print_resp (admin_handler version ck True delay) request h) of
             Some reply \<Rightarrow> reply
           | None \<Rightarrow> None)"

text \<open>Answers that do not depend on the state give the same bytes.\<close>

lemma serve_connection_answers:
  assumes "\<And>r. handler r st = (st, answer r)" "\<And>r. handler' r st' = (st', answer r)"
  shows "snd (fst (serve_connection parse print handler accepted input st))
           = snd (fst (serve_connection parse print handler' accepted input st'))
       \<and> snd (serve_connection parse print handler accepted input st)
           = snd (serve_connection parse print handler' accepted input st')"
proof (induction "length input" arbitrary: input accepted rule: less_induct)
  case less
  obtain line rest where l: "read_line input = (line, rest)" by fastforce
  show ?case
  proof (cases "line = []")
    case False
    then have "length rest < length input"
      using l read_line_length [of input] read_line_nonempty [of input] by auto
    note IH = less [OF this, of accepted] less [OF this, of "accepted - 1"]
    show ?thesis
      by (subst (1 2 3 4) serve_connection.simps)
        (use IH in \<open>auto simp: l Let_def assms split_beta split: option.split\<close>)
  qed (simp add: serve_connection.simps [of _ _ _ _ input] l)
qed

definition retoken :: "(string \<Rightarrow> string) \<Rightarrow> headless \<Rightarrow> headless" where
  "retoken f h = h\<lparr> hd_registry := (hd_registry h)\<lparr> rg_sessions :=
     map (\<lambda>(i, s). (i, s\<lparr> s_token := f (s_token s) \<rparr>)) (rg_sessions (hd_registry h)) \<rparr> \<rparr>"

lemma retoken_values:
  "hm_values (rg_sessions (hd_registry (retoken f h)))
     = map (\<lambda>s. s\<lparr> s_token := f (s_token s) \<rparr>) (hm_values (rg_sessions (hd_registry h)))"
  by (simp add: retoken_def split_beta)

lemma retoken_answer:
  assumes "\<And>tok. redact_token (f tok) = redact_token tok"
  shows "admin_answer version ck request (retoken f h) = admin_answer version ck request h"
proof -
  have entry: "snapshot_entry ck conn (s\<lparr> s_token := f (s_token s) \<rparr>) = snapshot_entry ck conn s" for conn s
    by (simp add: snapshot_entry_def assms Let_def split: option.split session_state.split)
  have "count_session (s\<lparr> s_token := f (s_token s) \<rparr>) = count_session s" for s
    by (simp add: fun_eq_iff count_session_def split: session_state.split)
  then have counts: "fold count_session (map (\<lambda>s. s\<lparr> s_token := f (s_token s) \<rparr>) ss) c = fold count_session ss c" for ss c
    by (induction ss arbitrary: c) simp_all
  have "map (snapshot_entry ck conn) (map (\<lambda>s. s\<lparr> s_token := f (s_token s) \<rparr>) ss) = map (snapshot_entry ck conn) ss" for conn ss
    by (simp add: entry)
  then have "admin_snapshot ck conn (hd_registry (retoken f h)) = admin_snapshot ck conn (hd_registry h)" for conn
    unfolding admin_snapshot_def retoken_values by (simp only:)
  moreover have "state_counts (hd_registry (retoken f h)) = state_counts (hd_registry h)"
    unfolding state_counts_def retoken_values counts ..
  moreover have "hd_active_session (retoken f h) = hd_active_session h" "hd_client_connected (retoken f h) = hd_client_connected h"
    "hd_connected_client_addr (retoken f h) = hd_connected_client_addr h" "hd_server_started (retoken f h) = hd_server_started h"
    "hd_cluster (retoken f h) = hd_cluster h"
    by (simp_all add: retoken_def)
  ultimately show ?thesis
    unfolding admin_answer_def by (simp only:)
qed


text \<open>
  \<open>wradm sessions\<close> prints the sessions of the registry, one row each in the order of their ids, if the main loop
  answers within five seconds.
\<close>
lemma wradm_sessions:
  assumes "json_line print_req parse_req ListSessions"
    and "json_line print_resp parse_resp (admin_answer version ck ListSessions h)"
    and "delay < REPLY_TIMEOUT" "wradm_admin_path env args = path" "1 < length args" "args ! 1 = ''sessions''"
  shows "wradm_main send (admin_call print_req parse_resp parse_req print_resp version ck delay path h) env args
       = ok_run (print_sessions (admin_snapshot ck
            (case hd_active_session h of
               Some i \<Rightarrow> if hd_client_connected h then Some (i, hd_connected_client_addr h) else None
             | None \<Rightarrow> None) (hd_registry h)))"
proof -
  let ?reply = "admin_answer version ck ListSessions h"
  have "admin_handler version ck True delay ListSessions h = (h, Some ?reply)"
    using assms(3) by (simp add: admin_handler_def drain_admin_queries_def dispatch_def)
  then have "admin_call print_req parse_resp parse_req print_resp version ck delay path h path ListSessions = Some ?reply"
    using send_json_handler [where handler = "admin_handler version ck True delay", OF assms(1), of h print_resp parse_resp] assms(2)
    by (simp add: admin_call_def)
  then show ?thesis using assms(4-6) by (simp add: wradm_main_def admin_answer_def)
qed

text \<open>The witness: a server with one session whose token is changed behind its eighth character.\<close>

definition other_tail :: "string \<Rightarrow> string" where
  "other_tail tok = (if tok = ''abcdefgh-one'' then ''abcdefgh-two'' else tok)"

definition one_session_server :: headless where
  "one_session_server =
     (let h = headless_start \<lparr> ck_now = 5, ck_epoch = 100 \<rparr> (compositor_new ''wayray-0'' (8, 8)) 256 cluster_config_default None
                False \<lparr> ps_file = None, ps_pins = [] \<rparr> False
      in h\<lparr> hd_registry := fst (create_session \<lparr> ck_now = 5, ck_epoch = 100 \<rparr> ''abcdefgh-one'' (hd_registry h)) \<rparr>)"

text \<open>A stand-in for \<open>serde_json\<close>: the reply is the redacted tokens, which the command prints as a message.\<close>

definition tokens_text :: "admin_response \<Rightarrow> string" where
  "tokens_text r = (case r of SessionList ss \<Rightarrow> concat (map se_token_prefix ss) | _ \<Rightarrow> ''error'')"

definition show_sessions :: "headless \<Rightarrow> run_result" where
  "show_sessions h = wradm_main (\<lambda>_ _. None)
     (admin_call (\<lambda>_. ''sessions'') (\<lambda>s. Some (AdminError s)) (\<lambda>s. if s = ''sessions'' then Some ListSessions else None) tokens_text
        ''1.0'' \<lparr> ck_now = 9, ck_epoch = 104 \<rparr> 0 ''sock'' h)
     \<lparr> en_launcher_socket = None, en_admin_socket = Some ''sock'', en_state_db = None, en_runtime_dir = None \<rparr> [''wradm'', ''sessions'']"


end
