(* ===== verification/Spec2Isabelle.thy ===== *)
theory Spec2Isabelle
  imports
    Encoding Codec AdminProtocol Identity
    Restart Toplevels System Window Winit Tiling Commands
begin

text \<open>
  WayRay, a thin-client Wayland compositor.

  The server \<open>wrsrvd\<close> hosts Wayland sessions and streams their framebuffer to a remote viewer
  \<open>wrclient\<close>.  A session is identified by an opaque token; a client that reconnects with its token
  resumes the session, on the server of the cluster that hosts it.  Window management is done by a
  built-in floating manager or by an external process over a private protocol.

  Reading conventions.  A Rust \<open>struct\<close> is a record, an \<open>enum\<close> a datatype, \<open>u8\<close>, \<open>u32\<close> and \<open>u64\<close> are words
  with the wrap-around of the release profile, \<open>usize\<close> is \<open>nat\<close> (the lengths of slices in memory), \<open>i32\<close>
  geometry is \<open>int\<close> with \<open>wrap32\<close> at each operation that can leave the range.  \<open>Instant\<close> and \<open>Duration\<close>
  are nanoseconds and the time is an argument (\<open>clock\<close>).  A \<open>HashMap\<close> is an association list with
  distinct keys, whose order stands for the unspecified iteration order; theorems that depend on a
  map speak of lookups.  A \<open>String\<close> is its UTF-8 bytes.  A slice that is out of range panics in Rust
  and is \<open>None\<close> here.  Calls into libraries that are not part of the repository (zstd, postcard, SHA-256)
  are parameters, and what the theorems need of them is a named hypothesis (\<open>zstd_lossless\<close>,
  \<open>serde_roundtrip\<close>, \<open>json_line\<close>).  A call that only speaks to the outside (a Wayland event, a channel send) is an
  element of the list of outputs an operation returns.  Loops that may run for ever take the list of what
  they meet (the relay loop, the session loop, the reconnect loop) or fuel (\<open>login_loop\<close>, whose theorem holds
  for every fuel); the recursion of the redirects ends by its hop count.

  The theories, in the order of their dependencies:

  \<^item> \<open>Prelude\<close>: hash maps, words, time, slices, results.
  \<^item> \<open>Encoding\<close> (\<open>wayray-protocol/src/encoding.rs\<close>): \<open>encode_region\<close>, \<open>apply_region\<close>, \<open>checksum\<close>, row by row.
    What a rectangle encodes is what applying it writes; the checksum sees the visible bytes only.
  \<^item> \<open>Messages\<close> (\<open>messages.rs\<close>, \<open>lib.rs\<close>): all messages, protocol versions, clipboard helpers.
  \<^item> \<open>Codec\<close> (\<open>codec.rs\<close>, the readers of \<open>network.rs\<close> on both sides): length-prefixed framing.  A stream of
    messages reads back; a read may be fed in pieces but must not be restarted.
  \<^item> \<open>RustStr\<close>, \<open>Tls\<close> (\<open>tls.rs\<close>): certificate pins and the \<open>known_hosts\<close> file.
  \<^item> \<open>Identity\<close> (\<open>wrsrvd/src/network.rs\<close>): the certificate of the server, its files and its stability.
  \<^item> \<open>SessionTypes\<close>, \<open>Persistence\<close>, \<open>Registry\<close>, \<open>Restart\<close> (\<open>wrsrvd/src/session/\<close>): the life cycle of a session,
    the store with its writer queue (locales \<open>session_store\<close> and \<open>durable_store\<close>, interpreted on the
    SQLite store and on the enumeration of stores), the registry with its token index, and the
    registry and its store across a restart.
  \<^item> \<open>AdminProtocol\<close> (\<open>wayray-protocol/src/admin.rs\<close>): the admin messages and the redaction of tokens.
  \<^item> \<open>WmTypes\<close>, \<open>Floating\<close>, \<open>WmProtocol\<close> (\<open>wrsrvd/src/wm/\<close>): restacking, workspaces and borders; the built-in
    manager behind the \<open>WindowManager\<close> trait (locale \<open>window_manager\<close>, interpreted on it); the state of
    the protocol of external managers.
  \<^item> \<open>Compositor\<close> (\<open>state.rs\<close>, \<open>handlers/\<close>): the windows, the space, the keys, the selection, and how the
    window managers drive them.
  \<^item> \<open>Toplevels\<close> (\<open>handlers/xdg_shell.rs\<close>, \<open>handlers/compositor.rs\<close> and smithay's toplevel surfaces): what a window is
    told by a configure, and what it is not.
  \<^item> \<open>Cluster\<close> (\<open>wayray-protocol/src/cluster.rs\<close>, \<open>session_config.rs\<close>): the configuration files.
  \<^item> \<open>Network\<close> (\<open>wrsrvd/src/network.rs\<close>): the classification of connections, the relay loop of the one
    client being served and the accept loop with preemption, as a state machine whose events are the
    resolutions of the \<open>select!\<close>s.  A write to a stream is one step.
  \<^item> \<open>Headless\<close> (\<open>backend/headless.rs\<close>): the main loop: network events, placement in the cluster, admin
    queries, cleanup, borders, the encoding of frames.
  \<^item> \<open>Hosting\<close>: the main loop acting on the registry over any history of events.
  \<^item> \<open>Client\<close> (\<open>wrclient/src/main.rs\<close>, \<open>network.rs\<close>, \<open>clipboard.rs\<close>): connecting, redirects, the clipboard and
    the session loop of the viewer.
  \<^item> \<open>Reconnect\<close> (\<open>main\<close> of \<open>wrclient\<close>): the network thread, its reconnect loop and its backoff.
  \<^item> \<open>Frames\<close>: a frame from the renderer through the network thread to the viewer.  That damage covers what
    changed is a hypothesis about the renderer (\<open>damage_history\<close>).
  \<^item> \<open>System\<close>: the two threads of the server and their channels as one step relation, under any interleaving;
    a turn of the main loop is a sequence of its steps.
  \<^item> \<open>ClientInput\<close> (\<open>wrclient/src/input.rs\<close>, the window events of \<open>main.rs\<close>): keys, modifiers and pointer of
    the viewer, and what they do to the keys the compositor holds.
  \<^item> \<open>Window\<close> (\<open>wrclient/src/display.rs\<close>, \<open>App\<close> of \<open>main.rs\<close>): the frame texture, what the window presents, and
    which point of the picture is under the cursor.
  \<^item> \<open>Winit\<close> (\<open>backend/winit.rs\<close>, \<open>process_input_event\<close>, smithay's winit backend): the compositor in a window of
    the local desktop, and where it differs from a remote session.
  \<^item> \<open>Launcher\<close> (\<open>launcher.rs\<close>, \<open>launcher_link.rs\<close>, \<open>wrsessd\<close>, \<open>wrlogin\<close>): the session launcher, the
    processes it owns, and the greeter.
  \<^item> \<open>Tiling\<close> (\<open>wr-wm-tiling\<close>): the tiling window manager.  Its layout recursion does not end for a count
    of zero and is a partial function; \<open>tiling_layout\<close> shows that the layout always returns.
  \<^item> \<open>Transport\<close> (\<open>wayray-protocol/src/transport.rs\<close>, \<open>wrsrvd/src/admin.rs\<close>): JSON lines over a Unix socket, and the
    doors of illumos; a request over either is a call of the handler.
  \<^item> \<open>Commands\<close> (\<open>wradm\<close>, the options in \<open>main.rs\<close> of \<open>wrsrvd\<close>): the command lines, and \<open>wradm\<close> against a
    running server.

  Not modelled: popups (configured once and never placed), rendering itself (OpenGL, shared memory buffers,
  the GPU behind wgpu), the signature checks of rustls, the QUIC and socket libraries (tokio, quinn), the wire
  format of postcard and serde, the set-up of the Wayland display in \<open>main.rs\<close>, generated code, logging.
\<close>

end
